(* ===== verification/Prelude.thy ===== *)
theory Prelude
  imports Main "HOL-Library.Word" "HOL-Library.Signed_Division"
begin

text \<open>
  The machine types and the pieces of the Rust standard library that framehopunwind and the
  framehop crate under \<^verbatim>\<open>src/vendor/framehop\<close> use, with the lemmas the component theories
  share. Integers keep their width: \<open>u64\<close>, \<open>i16\<close> and so on are words, a signed value is the
  same word read through \<open>sint\<close>, and unchecked arithmetic wraps, as it does in the release
  profile the crate ships with (\<^verbatim>\<open>src/Cargo.toml\<close> leaves overflow checks off). Lengths and
  indices (\<open>usize\<close>) are natural numbers.
\<close>

section \<open>Machine integers\<close>

unbundle bit_operations_syntax

type_synonym u8 = "8 word"
type_synonym u16 = "16 word"
type_synonym u32 = "32 word"
type_synonym u64 = "64 word"
type_synonym i16 = "16 word"
type_synonym i32 = "32 word"
type_synonym i64 = "64 word"
type_synonym usize = nat

text \<open>A stack reader: Rust's \<open>FnMut(u64) -> Result<u64, ()>\<close>, with \<open>Err(())\<close> as \<open>None\<close>.\<close>

type_synonym read_stack = "u64 \<Rightarrow> u64 option"

text \<open>Simplification rules of the development, by the kind of goal they serve.\<close>

named_theorems checked_simps \<open>characterisations of checked and saturating arithmetic\<close>
named_theorems step_simps \<open>unfolding of one operation of a component\<close>

definition checked_add :: "'a::len word \<Rightarrow> 'a word \<Rightarrow> 'a word option" where
  "checked_add a b = (if unat a + unat b < 2 ^ LENGTH('a) then Some (a + b) else None)"

definition checked_sub :: "'a::len word \<Rightarrow> 'a word \<Rightarrow> 'a word option" where
  "checked_sub a b = (if b \<le> a then Some (a - b) else None)"

definition saturating_add :: "'a::len word \<Rightarrow> 'a word \<Rightarrow> 'a word" where
  "saturating_add a b = (if unat a + unat b < 2 ^ LENGTH('a) then a + b else - 1)"

definition saturating_sub :: "'a::len word \<Rightarrow> 'a word \<Rightarrow> 'a word" where
  "saturating_sub a b = (if b \<le> a then a - b else 0)"

text \<open>\<open>uN::try_from\<close> and \<open>iN::try_from\<close> of an integer value, \<open>None\<close> when it does not fit.\<close>

definition try_unsigned :: "int \<Rightarrow> 'a::len word option" where
  "try_unsigned x = (if 0 \<le> x \<and> x < 2 ^ LENGTH('a) then Some (word_of_int x) else None)"

definition try_signed :: "int \<Rightarrow> 'a::len word option" where
  "try_signed x =
     (if - (2 ^ (LENGTH('a) - 1)) \<le> x \<and> x < 2 ^ (LENGTH('a) - 1)
      then Some (word_of_int x) else None)"

text \<open>\<open>i64::checked_add\<close>.\<close>

definition checked_add_signed_int :: "'a::len word \<Rightarrow> 'a word \<Rightarrow> 'a word option" where
  "checked_add_signed_int a b = try_signed (sint a + sint b)"

lemma checked_add_Some_iff [checked_simps]:
  "checked_add a b = Some c \<longleftrightarrow> unat a + unat b < 2 ^ LENGTH('a) \<and> c = a + b"
  for a :: "'a::len word"
  by (auto simp: checked_add_def)

lemma checked_add_None_iff [checked_simps]:
  "checked_add a b = None \<longleftrightarrow> 2 ^ LENGTH('a) \<le> unat a + unat b"
  for a :: "'a::len word"
  by (auto simp: checked_add_def)

lemma checked_sub_Some_iff [checked_simps]:
  "checked_sub a b = Some c \<longleftrightarrow> b \<le> a \<and> c = a - b"
  by (auto simp: checked_sub_def)

lemma unat_add_no_overflow:
  "unat a + unat b < 2 ^ LENGTH('a) \<Longrightarrow> unat (a + b) = unat a + unat b"
  for a :: "'a::len word"
  by (simp add: unat_word_ariths)

lemma checked_add_unat:
  "checked_add a b = Some c \<Longrightarrow> unat c = unat a + unat b"
  by (auto simp: checked_simps unat_add_no_overflow)

lemma checked_add_le: "checked_add a b = Some c \<Longrightarrow> a \<le> c"
  by (simp add: word_le_nat_alt checked_add_unat)

lemma checked_add_less: "checked_add a b = Some c \<Longrightarrow> b \<noteq> 0 \<Longrightarrow> a < c"
  by (simp add: word_less_nat_alt checked_add_unat unat_gt_0)

lemma unat_of_nat_small: "n < 2 ^ LENGTH('a) \<Longrightarrow> unat (of_nat n :: 'a::len word) = n"
  by (simp add: unat_of_nat)

lemma of_nat_eq_0_small: "n < 2 ^ LENGTH('a) \<Longrightarrow> (of_nat n :: 'a::len word) = 0 \<longleftrightarrow> n = 0"
  by (metis unat_of_nat_small unat_eq_zero)

lemma unat_sub_no_underflow: "b \<le> a \<Longrightarrow> unat (a - b) = unat a - unat b"
  for a :: "'a::len word"
  by (simp add: unat_sub)

lemma unat_ucast_up: "LENGTH('a) \<le> LENGTH('b) \<Longrightarrow> unat (ucast w :: 'b::len word) = unat w"
  for w :: "'a::len word"
  by (simp add: unsigned_ucast_eq take_bit_nat_eq_self_iff)
    (meson less_le_trans one_le_numeral power_increasing unsigned_less)

lemma unat_minus_one_max: "unat (- 1 :: 'a::len word) = 2 ^ LENGTH('a) - 1"
  by (simp add: unsigned_minus_1_eq_mask mask_eq_exp_minus_1)

lemma saturating_add_ge: "a \<le> saturating_add a b"
  for a :: "'a::len word"
proof (cases "unat a + unat b < 2 ^ LENGTH('a)")
  case True
  then show ?thesis
    by (simp add: saturating_add_def word_le_nat_alt unat_add_no_overflow)
qed (simp add: saturating_add_def)

lemma saturating_add_unat:
  "unat (saturating_add a b) = min (unat a + unat b) (2 ^ LENGTH('a) - 1)"
  for a :: "'a::len word"
  by (auto simp: saturating_add_def unat_add_no_overflow unat_minus_one_max min_def)

lemma try_unsigned_Some_iff [checked_simps]:
  "try_unsigned x = Some w \<longleftrightarrow> 0 \<le> x \<and> x < 2 ^ LENGTH('a) \<and> w = word_of_int x"
  for w :: "'a::len word"
  by (auto simp: try_unsigned_def)

lemma try_unsigned_uint: "try_unsigned x = Some w \<Longrightarrow> uint w = x"
  by (auto simp: checked_simps uint_word_of_int)

lemma try_unsigned_iff_uint: "try_unsigned x = Some w \<longleftrightarrow> uint w = x"
  using uint_lt2p [of w] by (auto simp: checked_simps uint_word_of_int)

lemma try_unsigned_ucast: "try_unsigned (uint v) = Some w \<Longrightarrow> ucast w = v"
  by (drule try_unsigned_uint) (simp only: ucast_eq word_of_int_uint)

lemma try_signed_Some_iff [checked_simps]:
  "try_signed x = Some w \<longleftrightarrow>
     - (2 ^ (LENGTH('a) - 1)) \<le> x \<and> x < 2 ^ (LENGTH('a) - 1) \<and> w = word_of_int x"
  for w :: "'a::len word"
  by (auto simp: try_signed_def)

lemma try_signed_sint: "try_signed x = Some w \<Longrightarrow> sint w = x"
  for w :: "'a::len word"
  by (auto simp: checked_simps signed_of_int signed_take_bit_int_eq_self)

text \<open>Rust's \<open>/\<close> on signed integers is \<open>sdiv\<close>; it is exact on multiples.\<close>

lemma sdiv_multiple: "0 < n \<Longrightarrow> (n * k) sdiv n = k" for n k :: int
proof -
  assume "0 < n"
  then have "\<bar>n * k\<bar> div \<bar>n\<bar> = \<bar>k\<bar>" "sgn (n * k) * sgn n = sgn k"
    by (simp_all only: abs_mult sgn_mult nonzero_mult_div_cancel_left) simp_all
  then show ?thesis by (simp only: signed_divide_int_def sgn_mult_abs)
qed

lemma sint_of_int_small:
  "- (2 ^ 63) \<le> x \<Longrightarrow> x < 2 ^ 63 \<Longrightarrow> sint (word_of_int x :: i64) = x"
  by (simp add: signed_of_int signed_take_bit_int_eq_self)

text \<open>An offset kept in units of \<open>n\<close> bytes at a smaller width is restored by multiplication.\<close>

lemma scaled_unsigned:
  fixes off :: i64 and w :: u16
  assumes "try_unsigned (sint off sdiv n) = Some w" "n dvd sint off" "0 < n"
  shows "ucast w * word_of_int n = off" "0 \<le> sint off" "sint off < 2 ^ 16 * n"
proof -
  from assms(2) obtain k where k: "sint off = n * k" by (elim dvdE)
  with assms(3) have "sint off sdiv n = k" by (simp add: sdiv_multiple)
  with try_unsigned_uint [OF assms(1)] have uw: "uint w = k" by simp
  have "ucast w * word_of_int n = (word_of_int (uint w * n) :: i64)"
    by (simp only: ucast_eq of_int_mult)
  also have "\<dots> = word_of_int (sint off)" using uw k by (simp add: mult.commute)
  finally show "ucast w * word_of_int n = off" by simp
  show "0 \<le> sint off" using uw k assms(3) uint_ge_0 [of w] by simp
  have "k < 2 ^ 16" using uint_lt2p [of w] uw by simp
  then show "sint off < 2 ^ 16 * n" using assms(3) k by (simp add: mult.commute)
qed

lemma scaled_signed:
  fixes off :: i64 and w :: i16
  assumes "try_signed (sint off sdiv n) = Some w" "n dvd sint off" "0 < n"
  shows "scast w * word_of_int n = off" "- (2 ^ 15 * n) \<le> sint off" "sint off < 2 ^ 15 * n"
proof -
  from assms(2) obtain k where k: "sint off = n * k" by (elim dvdE)
  with assms(3) have "sint off sdiv n = k" by (simp add: sdiv_multiple)
  with try_signed_sint [OF assms(1)] have sw: "sint w = k" by simp
  have "scast w * word_of_int n = (word_of_int (sint w * n) :: i64)"
    by (simp only: scast_eq of_int_mult)
  also have "\<dots> = word_of_int (sint off)" using sw k by (simp add: mult.commute)
  finally show "scast w * word_of_int n = off" by simp
  have "- (2 ^ 15) \<le> k" "k < 2 ^ 15" using sint_ge [of w] sint_lt [of w] sw by simp_all
  then show "- (2 ^ 15 * n) \<le> sint off" "sint off < 2 ^ 15 * n"
    using assms(3) k mult_right_mono [of "- (2 ^ 15)" k n] by (simp_all add: mult.commute)
qed

lemma uint_of_int_small: "0 \<le> x \<Longrightarrow> x < 2 ^ LENGTH('a) \<Longrightarrow> uint (word_of_int x :: 'a::len word) = x"
  by (simp add: uint_word_of_int)

lemma ucast_of_nat_u16: "n < 2 ^ 16 \<Longrightarrow> (ucast (of_nat n :: u16) :: u64) = of_nat n"
  by (simp add: word_eq_iff_unsigned [where 'a = nat] unat_ucast_up unat_of_nat)

lemma scast_of_nat_i16: "n < 2 ^ 15 \<Longrightarrow> (scast (of_nat n :: i16) :: i64) = of_nat n"
  by (simp add: scast_eq signed_of_nat signed_take_bit_int_eq_self)

lemma checked_add_of_nat:
  fixes sp :: u64
  assumes "unat sp + n < 2 ^ 64"
  shows "checked_add sp (of_nat n) = Some (sp + of_nat n)" "unat (sp + of_nat n) = unat sp + n"
proof -
  have "unat (of_nat n :: u64) = n" using assms by (intro unat_of_nat_small) simp
  with assms show "checked_add sp (of_nat n) = Some (sp + of_nat n)"
    "unat (sp + of_nat n) = unat sp + n"
    by (simp_all add: checked_add_def unat_add_no_overflow)
qed

section \<open>Rust slices\<close>

text \<open>\<open>slice.get(a..b)\<close>, little-endian decoding, and \<open>slice.swap\<close> on the tail from \<open>from\<close>.\<close>

definition slice_get :: "'a list \<Rightarrow> nat \<Rightarrow> nat \<Rightarrow> 'a list option" where
  "slice_get xs a b = (if a \<le> b \<and> b \<le> length xs then Some (take (b - a) (drop a xs)) else None)"

fun le_value :: "u8 list \<Rightarrow> nat" where
  "le_value [] = 0"
| "le_value (b # bs) = unat b + 256 * le_value bs"

definition from_le_bytes :: "u8 list \<Rightarrow> 'a::len word" where
  "from_le_bytes bs = of_nat (le_value bs)"

definition swap :: "'a list \<Rightarrow> nat \<Rightarrow> nat \<Rightarrow> 'a list" where
  "swap xs i j = xs[i := xs ! j, j := xs ! i]"

text \<open>\<open>Iterator::position\<close>: the first index whose element satisfies the test.\<close>

fun position :: "('a \<Rightarrow> bool) \<Rightarrow> 'a list \<Rightarrow> nat option" where
  "position P [] = None"
| "position P (x # xs) = (if P x then Some 0 else map_option Suc (position P xs))"

lemma position_Some:
  "position P xs = Some i \<Longrightarrow> i < length xs \<and> P (xs ! i) \<and> (\<forall>j < i. \<not> P (xs ! j))"
proof (induction xs arbitrary: i)
  case (Cons x xs)
  then show ?case by (auto simp: less_Suc_eq_0_disj split: if_splits)
qed simp

lemma position_None_iff: "position P xs = None \<longleftrightarrow> (\<forall>x \<in> set xs. \<not> P x)"
  by (induction xs) auto

lemma length_swap [simp]: "length (swap xs i j) = length xs"
  by (simp add: swap_def)

lemma take_swap [simp]: "n \<le> i \<Longrightarrow> n \<le> j \<Longrightarrow> take n (swap xs i j) = take n xs"
  by (simp add: swap_def)

lemma swap_self [simp]: "swap xs i i = xs"
  by (simp add: swap_def)

lemma le_value_bound: "le_value bs < 256 ^ length bs"
proof (induction bs)
  case (Cons b bs)
  have "unat b < 256" using unsigned_less [of b, where ?'a = nat] by simp
  with Cons show ?case by simp
qed simp

lemma slice_get_length: "slice_get xs a b = Some ys \<Longrightarrow> length ys = b - a"
  by (auto simp: slice_get_def split: if_splits)

section \<open>Binary search\<close>

text \<open>
  \<open>slice::binary_search\<close> and \<open>binary_search_by_key\<close> on the list of keys, as the standard
  library implements them: the loop halves the size without an early exit, so among equal
  keys it settles on one of them. \<open>Ok(i)\<close> is \<open>Inr i\<close>, \<open>Err(i)\<close> is \<open>Inl i\<close>.
\<close>

function bsearch_loop :: "'k::linorder list \<Rightarrow> 'k \<Rightarrow> nat \<Rightarrow> nat \<Rightarrow> nat" where
  "bsearch_loop ks k base sz =
     (if sz > 1
      then let half = sz div 2; mid = base + half
           in bsearch_loop ks k (if ks ! mid > k then base else mid) (sz - half)
      else base)"
  by pat_completeness auto
termination
  by (relation "measure (\<lambda>(ks, k, base, sz). sz)") auto

declare bsearch_loop.simps [simp del]

definition binary_search :: "'k::linorder list \<Rightarrow> 'k \<Rightarrow> nat + nat" where
  "binary_search ks k =
     (if ks = [] then Inl 0
      else let i = bsearch_loop ks k 0 (length ks)
           in if ks ! i = k then Inr i
              else Inl (i + (if ks ! i < k then 1 else 0)))"

lemma bsearch_loop_spec:
  assumes "sorted ks" "sz \<ge> 1" "base + sz \<le> length ks"
    and "base = 0 \<or> ks ! base \<le> k"
    and "\<forall>j < length ks. base + sz \<le> j \<longrightarrow> k < ks ! j"
  shows "let i = bsearch_loop ks k base sz
         in i < length ks \<and> (i = 0 \<or> ks ! i \<le> k) \<and> (\<forall>j < length ks. i < j \<longrightarrow> k < ks ! j)"
  using assms
proof (induction ks k base sz rule: bsearch_loop.induct)
  case (1 ks k base sz)
  show ?case
  proof (cases "sz > 1")
    case False
    with "1.prems" show ?thesis by (auto simp: bsearch_loop.simps [of ks k base sz])
  next
    case True
    define half mid where "half = sz div 2" and "mid = base + half"
    have half: "half \<ge> 1" "half < sz" using True by (auto simp: half_def)
    have unfold: "bsearch_loop ks k base sz =
        bsearch_loop ks k (if ks ! mid > k then base else mid) (sz - half)"
      using True by (simp add: bsearch_loop.simps [of ks k base sz] half_def mid_def Let_def)
    show ?thesis
    proof (cases "ks ! mid > k")
      case gt: True
      have "k < ks ! j" if "j < length ks" "base + (sz - half) \<le> j" for j
      proof -
        have "mid \<le> j" using that half unfolding mid_def half_def by linarith
        with that "1.prems"(1) gt show ?thesis
          by (meson less_le_trans sorted_nth_mono)
      qed
      with "1.prems" half gt show ?thesis
        unfolding unfold using "1.IH" [OF True half_def mid_def] by (simp add: Let_def)
    next
      case le: False
      with "1.prems" half show ?thesis
        unfolding unfold using "1.IH" [OF True half_def mid_def]
        by (simp add: Let_def mid_def)
    qed
  qed
qed

lemma binary_search_Inr:
  assumes "sorted ks" "binary_search ks k = Inr i"
  shows "i < length ks \<and> ks ! i = k"
  using assms bsearch_loop_spec [of ks "length ks" 0 k]
  by (auto simp: binary_search_def Let_def Suc_le_eq split: if_splits)

lemma binary_search_Inl:
  assumes "sorted ks" "binary_search ks k = Inl i"
  shows "i \<le> length ks" and "\<And>j. j < i \<Longrightarrow> ks ! j < k"
    and "\<And>j. i \<le> j \<Longrightarrow> j < length ks \<Longrightarrow> k < ks ! j"
proof -
  define b where "b = bsearch_loop ks k 0 (length ks)"
  have b: "ks \<noteq> [] \<Longrightarrow> b < length ks \<and> (b = 0 \<or> ks ! b \<le> k) \<and>
      (\<forall>j < length ks. b < j \<longrightarrow> k < ks ! j)"
    using bsearch_loop_spec [of ks "length ks" 0 k] assms(1)
    by (auto simp: b_def Let_def Suc_le_eq)
  have i: "ks = [] \<and> i = 0 \<or>
      ks \<noteq> [] \<and> ks ! b \<noteq> k \<and> i = b + (if ks ! b < k then 1 else 0)"
    using assms(2) by (auto simp: binary_search_def b_def Let_def split: if_splits)
  show "i \<le> length ks" using b i by auto
  show "ks ! j < k" if "j < i" for j
  proof -
    have *: "ks \<noteq> []" "ks ! b < k" "j \<le> b" "b < length ks"
      using b i that by (auto split: if_splits)
    then show ?thesis using assms(1) sorted_nth_mono [of ks j b] by simp
  qed
  show "k < ks ! j" if "i \<le> j" "j < length ks" for j
  proof (cases "j = b")
    case True
    with b i that show ?thesis by (auto split: if_splits)
  next
    case False
    with b i that show ?thesis by (auto split: if_splits)
  qed
qed

text \<open>A key that is present is found, and one that is absent is not.\<close>

lemma binary_search_present:
  assumes "sorted ks" "k \<in> set ks"
  obtains i where "binary_search ks k = Inr i" "i < length ks" "ks ! i = k"
proof (cases "binary_search ks k")
  case (Inl i)
  from assms(2) obtain j where "j < length ks" "ks ! j = k" by (auto simp: in_set_conv_nth)
  with binary_search_Inl [OF assms(1) Inl] show ?thesis
    by (metis less_irrefl not_le)
next
  case (Inr i)
  with binary_search_Inr [OF assms(1) Inr] show ?thesis by (intro that) auto
qed

lemma binary_search_absent:
  assumes "sorted ks" "k \<notin> set ks"
  obtains i where "binary_search ks k = Inl i"
proof (cases "binary_search ks k")
  case (Inr i)
  with binary_search_Inr [OF assms(1) Inr] assms(2) show ?thesis by (auto dest: nth_mem)
qed (rule that)

section \<open>Little-endian encoding\<close>

definition to_le_bytes :: "nat \<Rightarrow> 'a::len word \<Rightarrow> u8 list" where
  "to_le_bytes n w = map (\<lambda>i. ucast (drop_bit (8 * i) w)) [0..<n]"

lemma to_le_bytes_Suc: "to_le_bytes (Suc n) w = ucast w # to_le_bytes n (drop_bit 8 w)"
  by (simp add: to_le_bytes_def upt_conv_Cons map_Suc_upt [symmetric] del: upt_Suc map_Suc_upt)
    (simp add: drop_bit_drop_bit ac_simps)

lemma length_to_le_bytes [simp]: "length (to_le_bytes n w) = n"
  by (simp add: to_le_bytes_def)

lemma le_value_to_le_bytes: "le_value (to_le_bytes n w) = unat w mod 256 ^ n"
proof (induction n arbitrary: w)
  case 0
  show ?case by (simp add: to_le_bytes_def)
next
  case (Suc n)
  have "unat (ucast w :: u8) = unat w mod 256"
    by (simp add: unsigned_ucast_eq take_bit_eq_mod)
  moreover have "unat (drop_bit 8 w) = unat w div 256"
    by (simp only: unat_drop_bit_eq) (simp add: drop_bit_eq_div)
  ultimately have "le_value (to_le_bytes (Suc n) w) = unat w mod 256 + 256 * (unat w div 256 mod 256 ^ n)"
    by (simp add: to_le_bytes_Suc Suc)
  also have "\<dots> = unat w mod (256 * 256 ^ n)" by (simp add: mod_mult2_eq)
  finally show ?case by simp
qed

lemma from_to_le_bytes: "LENGTH('a) = 8 * n \<Longrightarrow> from_le_bytes (to_le_bytes n w) = w" for w :: "'a::len word"
proof -
  assume "LENGTH('a) = 8 * n"
  then have "(256 :: nat) ^ n = 2 ^ LENGTH('a)" by (simp add: power_mult)
  then have "unat w mod 256 ^ n = unat w" using unsigned_less [of w, where ?'a = nat] by simp
  then show ?thesis by (simp add: from_le_bytes_def le_value_to_le_bytes)
qed

lemma slice_to_le_bytes: "slice_get (to_le_bytes n w @ rest) 0 n = Some (to_le_bytes n w)"
  by (simp add: slice_get_def)

end
