(* ===== verification/Core_Types.thy ===== *)
theory Core_Types
  imports Prelude
begin

text \<open>
  The types every framehop component shares: errors (\<^verbatim>\<open>vendor/framehop/src/error.rs\<close>), frame
  addresses (\<^verbatim>\<open>code_address.rs\<close>), the addition of a signed offset to an unsigned address
  (\<^verbatim>\<open>add_signed.rs\<close>) and the result of looking up a frame's unwind information
  (\<^verbatim>\<open>unwind_result.rs\<close>). Rust's \<open>Result<T, Error>\<close> is the sum \<open>Error + 'a\<close> with the error on
  the left.
\<close>

section \<open>Errors\<close>

text \<open>
  The source's \<open>Error\<close>, plus one constructor for what the source does not return: \<open>Panicked\<close>
  stands for a panic (a division by zero, an index out of range), which aborts the process.
\<close>

datatype Error =
    CouldNotReadStack u64
  | FramepointerUnwindingMovedBackwards
  | DidNotAdvance
  | IntegerOverflow
  | ReturnAddressIsNull
  | Panicked

text \<open>\<open>opt.ok_or(e)?\<close> and \<open>res?\<close> with the rest of the function as a continuation.\<close>

definition ok_or :: "'e \<Rightarrow> 'a option \<Rightarrow> 'e + 'a" where
  "ok_or e x = (case x of None \<Rightarrow> Inl e | Some v \<Rightarrow> Inr v)"

definition bind_res :: "'e + 'a \<Rightarrow> ('a \<Rightarrow> 'e + 'b) \<Rightarrow> 'e + 'b" where
  "bind_res r k = (case r of Inl e \<Rightarrow> Inl e | Inr v \<Rightarrow> k v)"

lemma bind_res_simps [simp]:
  "bind_res (Inl e) k = Inl e" "bind_res (Inr v) k = k v"
  by (simp_all add: bind_res_def)

lemma ok_or_simps [simp]: "ok_or e None = Inl e" "ok_or e (Some v) = Inr v"
  by (simp_all add: ok_or_def)

lemma ok_or_Inr_iff [simp]: "ok_or e x = Inr v \<longleftrightarrow> x = Some v"
  by (cases x) simp_all

lemma bind_res_Inr_iff: "bind_res r k = Inr b \<longleftrightarrow> (\<exists>v. r = Inr v \<and> k v = Inr b)"
  by (cases r) simp_all

text \<open>\<open>read_stack(a).map_err(|_| Error::CouldNotReadStack(a))\<close>.\<close>

definition read_or_err :: "read_stack \<Rightarrow> u64 \<Rightarrow> Error + u64" where
  "read_or_err read a = ok_or (CouldNotReadStack a) (read a)"

lemma read_or_err_Inr_iff [simp]: "read_or_err read a = Inr v \<longleftrightarrow> read a = Some v"
  by (simp add: read_or_err_def)

section \<open>Frame addresses\<close>

text \<open>
  \<open>ReturnAddress\<close> carries a \<open>NonZeroU64\<close> in the source. Here it carries a word, and
  \<open>frame_address_wf\<close> says that it is not zero; every operation that builds one keeps that.
\<close>

datatype FrameAddress = InstructionPointer u64 | ReturnAddress u64

fun frame_address_wf :: "FrameAddress \<Rightarrow> bool" where
  "frame_address_wf (InstructionPointer a) = True"
| "frame_address_wf (ReturnAddress a) = (a \<noteq> 0)"

definition from_instruction_pointer :: "u64 \<Rightarrow> FrameAddress" where
  "from_instruction_pointer ip = InstructionPointer ip"

definition from_return_address :: "u64 \<Rightarrow> FrameAddress option" where
  "from_return_address return_address =
     (if return_address = 0 then None else Some (ReturnAddress return_address))"

fun frame_address :: "FrameAddress \<Rightarrow> u64" where
  "frame_address (InstructionPointer a) = a"
| "frame_address (ReturnAddress a) = a"

fun address_for_lookup :: "FrameAddress \<Rightarrow> u64" where
  "address_for_lookup (InstructionPointer a) = a"
| "address_for_lookup (ReturnAddress a) = a - 1"

fun is_return_address :: "FrameAddress \<Rightarrow> bool" where
  "is_return_address (InstructionPointer a) = False"
| "is_return_address (ReturnAddress a) = True"

lemma from_return_address_wf:
  "from_return_address a = Some fa \<Longrightarrow> frame_address_wf fa \<and> frame_address fa = a"
  by (auto simp: from_return_address_def split: if_splits)

lemma address_for_lookup_unat:
  "frame_address_wf fa \<Longrightarrow>
     unat (address_for_lookup fa) + (if is_return_address fa then 1 else 0) = unat (frame_address fa)"
proof (cases fa)
  case (ReturnAddress a)
  moreover assume "frame_address_wf fa"
  ultimately have "a \<noteq> 0" by simp
  with ReturnAddress show ?thesis
    by (simp add: unat_minus_one unat_gt_0 Suc_pred)
qed simp

section \<open>Adding a signed offset\<close>

text \<open>
  \<open>AddSigned\<close> for an unsigned type and the signed type of the same width: \<open>u64\<close> with
  \<open>i64\<close> and \<open>u32\<close> with \<open>i32\<close> have the same body.
\<close>

definition wrapping_add_signed :: "'a::len word \<Rightarrow> 'a word \<Rightarrow> 'a word" where
  "wrapping_add_signed lhs rhs = lhs + rhs"

definition checked_add_signed :: "'a::len word \<Rightarrow> 'a word \<Rightarrow> 'a word option" where
  "checked_add_signed lhs rhs =
     (let res = wrapping_add_signed lhs rhs
      in if (sint rhs \<ge> 0 \<and> res \<ge> lhs) \<or> (sint rhs < 0 \<and> res < lhs)
         then Some res else None)"

lemma pow_length: "(2::int) ^ LENGTH('a) = 2 * 2 ^ (LENGTH('a::len) - 1)"
  by (metis One_nat_def Suc_pred len_gt_0 power_Suc)

lemma uint_eq_sint_shift:
  "uint w = sint w + (if sint w < 0 then 2 ^ LENGTH('a) else 0)" for w :: "'a::len word"
proof -
  define h :: int where "h = 2 ^ (LENGTH('a) - 1)"
  have h: "2 ^ LENGTH('a) = 2 * h" "1 \<le> h"
    using pow_length [where 'a = 'a] by (simp_all add: h_def)
  have b: "- h \<le> sint w" "sint w < h"
    using sint_ge [of w] sint_lt [of w] by (simp_all add: h_def)
  have m: "uint w = sint w mod (2 * h)"
    unfolding h(1) [symmetric] by (metis take_bit_eq_mod uint_sint)
  show ?thesis
  proof (cases "sint w < 0")
    case True
    have "uint w = (sint w + 2 * h) mod (2 * h)" unfolding m by (simp only: mod_add_self2)
    also have "\<dots> = sint w + 2 * h" using b True h(2) by (intro mod_pos_pos_trivial) linarith+
    finally show ?thesis using True h(1) by simp
  next
    case False
    have "uint w = sint w" unfolding m using b False h(2) by (intro mod_pos_pos_trivial) linarith+
    then show ?thesis using False by simp
  qed
qed

lemma checked_add_signed_eq:
  fixes lhs rhs :: "'a::len word"
  shows "checked_add_signed lhs rhs =
    (if 0 \<le> uint lhs + sint rhs \<and> uint lhs + sint rhs < 2 ^ LENGTH('a)
     then Some (word_of_int (uint lhs + sint rhs)) else None)"
proof -
  let ?s = "uint lhs + sint rhs"
  have sum: "word_of_int ?s = lhs + rhs" by simp
  have le: "lhs \<le> lhs + rhs \<longleftrightarrow> uint lhs + uint rhs < 2 ^ LENGTH('a)"
    by (rule no_olen_add)
  have "(sint rhs \<ge> 0 \<and> lhs \<le> lhs + rhs \<or> sint rhs < 0 \<and> lhs + rhs < lhs) \<longleftrightarrow>
      0 \<le> ?s \<and> ?s < 2 ^ LENGTH('a)"
  proof (cases "sint rhs < 0")
    case True
    then have "uint rhs = sint rhs + 2 ^ LENGTH('a)" using uint_eq_sint_shift [of rhs] by simp
    with True le have "lhs + rhs < lhs \<longleftrightarrow> 0 \<le> ?s" by (auto simp: not_le [symmetric])
    moreover have "?s < 2 ^ LENGTH('a)" using True uint_lt2p [of lhs] by linarith
    ultimately show ?thesis using True by auto
  next
    case False
    then have "uint rhs = sint rhs" using uint_eq_sint_shift [of rhs] by simp
    with False le show ?thesis by auto
  qed
  then show ?thesis
    by (simp add: checked_add_signed_def wrapping_add_signed_def Let_def sum)
qed

text \<open>
  \<open>checked_add_signed\<close> is exact. It returns a value just when the mathematical sum of the
  unsigned address and the signed offset fits the unsigned type, and then that sum; otherwise
  it reports the overflow.
\<close>

theorem checked_add_signed_exact:
  fixes lhs rhs :: "'a::len word"
  shows "checked_add_signed lhs rhs =
    (if 0 \<le> uint lhs + sint rhs \<and> uint lhs + sint rhs < 2 ^ LENGTH('a)
     then Some (word_of_int (uint lhs + sint rhs)) else None)"
  by (rule checked_add_signed_eq)

section \<open>Unwind results\<close>

text \<open>
  What the unwind information of a frame yields: a cacheable rule to execute, a return
  address that was computed directly and must not be cached, or the address at which a
  signal interrupted the caller.
\<close>

datatype 'r UnwindResult = ExecRule 'r | Uncacheable u64 | Interrupted u64

end
