(* ===== verification/Unwind_Rule.thy ===== *)
theory Unwind_Rule
  imports Core_Types
begin

text \<open>
  The contract of the \<open>UnwindRule\<close> trait (\<^verbatim>\<open>vendor/framehop/src/unwind_rule.rs\<close>) as its
  clients, the unwinder and the frame iterator, rely on it. The trait fixes \<open>exec\<close> and the
  three standard rules; what the documentation of the two implementations promises about
  progress is stated here as laws and proved for each architecture by an interpretation.
\<close>

text \<open>
  A run of rules over consecutive caller frames: each rule is executed in the registers the
  one before it left, and every frame has to produce a return address. The result is the
  list of return addresses and the registers of the last caller.
\<close>

fun exec_chain :: "('rule \<Rightarrow> bool \<Rightarrow> 'regs \<Rightarrow> read_stack \<Rightarrow> (Error + u64 option) \<times> 'regs) \<Rightarrow>
    'rule list \<Rightarrow> 'regs \<Rightarrow> read_stack \<Rightarrow> (u64 list \<times> 'regs) option" where
  "exec_chain exec [] regs read = Some ([], regs)"
| "exec_chain exec (rule # rules) regs read =
     (case exec rule False regs read of
        (Inr (Some ra), regs') \<Rightarrow>
          map_option (\<lambda>(ras, regs''). (ra # ras, regs'')) (exec_chain exec rules regs' read)
      | _ \<Rightarrow> None)"

locale unwind_rule =
  fixes exec :: "'rule \<Rightarrow> bool \<Rightarrow> 'regs \<Rightarrow> read_stack \<Rightarrow> (Error + u64 option) \<times> 'regs"
    and sp_of :: "'regs \<Rightarrow> u64"
  assumes exec_return_address: "exec rule f regs read = (Inr (Some ra), regs') \<Longrightarrow> ra \<noteq> 0"
    and exec_sp: "exec rule f regs read = (Inr (Some ra), regs') \<Longrightarrow> sp_of regs \<le> sp_of regs'"
    and exec_stall:
      "exec rule False regs read = (Inr (Some ra), regs1) \<Longrightarrow>
       exec rule' False regs1 read = (Inr (Some ra'), regs2) \<Longrightarrow> sp_of regs < sp_of regs2"
begin

lemma chain_ConsD:
  assumes "exec_chain exec (rule # rules) regs read = Some (ras, regs')"
  obtains ra ras' regs1 where "exec rule False regs read = (Inr (Some ra), regs1)"
    "exec_chain exec rules regs1 read = Some (ras', regs')" "ras = ra # ras'"
  using assms by (auto split: prod.splits sum.splits option.splits)

lemma chain_sp:
  "exec_chain exec rules regs read = Some (ras, regs') \<Longrightarrow> sp_of regs \<le> sp_of regs'"
proof (induction rules arbitrary: regs ras)
  case (Cons rule rules)
  from Cons.prems obtain ra ras' regs1 where "exec rule False regs read = (Inr (Some ra), regs1)"
    "exec_chain exec rules regs1 read = Some (ras', regs')" by (rule chain_ConsD)
  with Cons.IH [of regs1 ras'] exec_sp show ?case by (meson order_trans)
qed simp

lemma chain_return_addresses:
  "exec_chain exec rules regs read = Some (ras, regs') \<Longrightarrow>
     length ras = length rules \<and> 0 \<notin> set ras"
proof (induction rules arbitrary: regs ras)
  case (Cons rule rules)
  from Cons.prems obtain ra ras' regs1 where "exec rule False regs read = (Inr (Some ra), regs1)"
    "exec_chain exec rules regs1 read = Some (ras', regs')" "ras = ra # ras'" by (rule chain_ConsD)
  with Cons.IH [of regs1 ras'] exec_return_address show ?case by auto
qed simp

text \<open>Two frames in a row cannot both leave the stack pointer where it was.\<close>

lemma chain_progress:
  "exec_chain exec rules regs read = Some (ras, regs') \<Longrightarrow>
     unat (sp_of regs) + length rules div 2 \<le> unat (sp_of regs')"
proof (induction rules arbitrary: regs ras rule: induct_list012)
  case (2 rule)
  then show ?case using chain_sp [of "[rule]" regs read ras regs'] by (simp add: word_le_nat_alt)
next
  case (3 rule rule' rules)
  from "3.prems" obtain ra ras1 regs1 where 1: "exec rule False regs read = (Inr (Some ra), regs1)"
    and r1: "exec_chain exec (rule' # rules) regs1 read = Some (ras1, regs')" by (rule chain_ConsD)
  from r1 obtain ra' ras2 regs2 where 2: "exec rule' False regs1 read = (Inr (Some ra'), regs2)"
    and r2: "exec_chain exec rules regs2 read = Some (ras2, regs')" by (rule chain_ConsD)
  from exec_stall [OF 1 2] have "unat (sp_of regs) < unat (sp_of regs2)"
    by (simp add: word_less_nat_alt)
  moreover from "3.IH"(1) [OF r2]
  have "unat (sp_of regs2) + length rules div 2 \<le> unat (sp_of regs')" .
  ultimately show ?case by simp
qed simp

lemma chain_bounded:
  assumes "exec_chain exec rules regs read = Some (ras, regs')"
  shows "length rules < 2 * 2 ^ 64"
proof -
  have "length rules div 2 < 2 ^ 64"
    using chain_progress [OF assms] unsigned_less [of "sp_of regs'", where ?'a = nat] by simp
  then show ?thesis by linarith
qed

end

text \<open>
  A stronger contract: every caller frame moves the stack pointer up. It gives the one above.
\<close>

locale strict_unwind_rule =
  fixes exec :: "'rule \<Rightarrow> bool \<Rightarrow> 'regs \<Rightarrow> read_stack \<Rightarrow> (Error + u64 option) \<times> 'regs"
    and sp_of :: "'regs \<Rightarrow> u64"
  assumes strict_return_address: "exec rule f regs read = (Inr (Some ra), regs') \<Longrightarrow> ra \<noteq> 0"
    and strict_sp: "exec rule f regs read = (Inr (Some ra), regs') \<Longrightarrow> sp_of regs \<le> sp_of regs'"
    and strict_caller_sp:
      "exec rule False regs read = (Inr (Some ra), regs') \<Longrightarrow> sp_of regs < sp_of regs'"

sublocale strict_unwind_rule \<subseteq> unwind_rule exec sp_of
proof
  fix rule f regs read ra regs'
  show "exec rule f regs read = (Inr (Some ra), regs') \<Longrightarrow> ra \<noteq> 0"
    by (rule strict_return_address)
  show "exec rule f regs read = (Inr (Some ra), regs') \<Longrightarrow> sp_of regs \<le> sp_of regs'"
    by (rule strict_sp)
next
  fix rule rule' regs read ra regs1 ra' regs2
  assume "exec rule False regs read = (Inr (Some ra), regs1)"
    and "exec rule' False regs1 read = (Inr (Some ra'), regs2)"
  then show "sp_of regs < sp_of regs2" by (blast dest: strict_caller_sp intro: less_trans)
qed

context strict_unwind_rule
begin

lemma chain_strict_progress:
  "exec_chain exec rules regs read = Some (ras, regs') \<Longrightarrow>
     unat (sp_of regs) + length rules \<le> unat (sp_of regs')"
proof (induction rules arbitrary: regs ras)
  case (Cons rule rules)
  from Cons.prems obtain ra ras' regs1 where "exec rule False regs read = (Inr (Some ra), regs1)"
    "exec_chain exec rules regs1 read = Some (ras', regs')" by (rule chain_ConsD)
  with Cons.IH [of regs1 ras'] strict_caller_sp [of rule regs read ra regs1] show ?case
    by (simp add: word_less_nat_alt)
qed simp

end

end
