(* ===== verification/A64_Rule.thy ===== *)
theory A64_Rule
  imports Unwind_Rule
begin

text \<open>
  The aarch64 register file with its pointer-authentication mask
  (\<^verbatim>\<open>vendor/framehop/src/aarch64/unwindregs.rs\<close>) and the aarch64 unwind rules with their
  execution (\<^verbatim>\<open>aarch64/unwind_rule.rs\<close>).
\<close>

section \<open>Pointer authentication\<close>

text \<open>
  \<open>u64::leading_zeros\<close>, and the shift \<open>u64::MAX >> n\<close>, whose amount the release profile takes
  modulo the width.
\<close>

definition leading_zeros :: "u64 \<Rightarrow> nat" where
  "leading_zeros a = length (takeWhile (\<lambda>i. \<not> bit a i) (rev [0..<64]))"

definition max_shr :: "nat \<Rightarrow> u64" where
  "max_shr n = drop_bit (n mod 64) (- 1)"

type_synonym PtrAuthMask = u64

definition new_no_strip :: PtrAuthMask where
  "new_no_strip = - 1"

definition new_24_40 :: PtrAuthMask where
  "new_24_40 = max_shr 24"

definition from_max_known_address :: "u64 \<Rightarrow> PtrAuthMask" where
  "from_max_known_address address = max_shr (leading_zeros address)"

definition strip_ptr_auth :: "PtrAuthMask \<Rightarrow> u64 \<Rightarrow> u64" where
  "strip_ptr_auth m ptr = (ptr AND m)"

section \<open>The register file\<close>

record UnwindRegsAarch64 =
  a64_lr_mask :: PtrAuthMask
  a64_lr :: u64
  a64_sp :: u64
  a64_fp :: u64

definition a64_new :: "u64 \<Rightarrow> u64 \<Rightarrow> u64 \<Rightarrow> UnwindRegsAarch64" where
  "a64_new lr sp fp = \<lparr>a64_lr_mask = new_no_strip, a64_lr = lr, a64_sp = sp, a64_fp = fp\<rparr>"

definition a64_new_with_ptr_auth_mask ::
    "PtrAuthMask \<Rightarrow> u64 \<Rightarrow> u64 \<Rightarrow> u64 \<Rightarrow> UnwindRegsAarch64" where
  "a64_new_with_ptr_auth_mask code_ptr_auth_mask lr sp fp =
     \<lparr>a64_lr_mask = code_ptr_auth_mask, a64_lr = strip_ptr_auth code_ptr_auth_mask lr,
      a64_sp = sp, a64_fp = fp\<rparr>"

definition a64_set_sp :: "u64 \<Rightarrow> UnwindRegsAarch64 \<Rightarrow> UnwindRegsAarch64" where
  "a64_set_sp sp r = r\<lparr>a64_sp := sp\<rparr>"

definition a64_set_fp :: "u64 \<Rightarrow> UnwindRegsAarch64 \<Rightarrow> UnwindRegsAarch64" where
  "a64_set_fp fp r = r\<lparr>a64_fp := fp\<rparr>"

definition a64_set_lr :: "u64 \<Rightarrow> UnwindRegsAarch64 \<Rightarrow> UnwindRegsAarch64" where
  "a64_set_lr lr r = r\<lparr>a64_lr := strip_ptr_auth (a64_lr_mask r) lr\<rparr>"

lemma a64_set_simps [simp]:
  "a64_sp (a64_set_sp v r) = v" "a64_fp (a64_set_sp v r) = a64_fp r"
  "a64_lr (a64_set_sp v r) = a64_lr r" "a64_lr_mask (a64_set_sp v r) = a64_lr_mask r"
  "a64_sp (a64_set_fp v r) = a64_sp r" "a64_fp (a64_set_fp v r) = v"
  "a64_lr (a64_set_fp v r) = a64_lr r" "a64_lr_mask (a64_set_fp v r) = a64_lr_mask r"
  "a64_sp (a64_set_lr v r) = a64_sp r" "a64_fp (a64_set_lr v r) = a64_fp r"
  "a64_lr (a64_set_lr v r) = strip_ptr_auth (a64_lr_mask r) v"
  "a64_lr_mask (a64_set_lr v r) = a64_lr_mask r"
  by (simp_all add: a64_set_sp_def a64_set_fp_def a64_set_lr_def)

lemma a64_new_simps [simp]:
  "a64_sp (a64_new lr sp fp) = sp" "a64_fp (a64_new lr sp fp) = fp"
  "a64_lr (a64_new lr sp fp) = lr" "a64_lr_mask (a64_new lr sp fp) = - 1"
  by (simp_all add: a64_new_def new_no_strip_def)

lemma strip_ptr_auth_max [simp]: "strip_ptr_auth (- 1) p = p"
  by (simp add: strip_ptr_auth_def)

lemma strip_ptr_auth_idem [simp]: "strip_ptr_auth m (strip_ptr_auth m p) = strip_ptr_auth m p"
  by (simp add: strip_ptr_auth_def and.assoc)

section \<open>Rules\<close>

datatype UnwindRuleAarch64 =
    NoOp
  | NoOpIfFirstFrameOtherwiseFp
  | OffsetSp u16 \<comment> \<open>\<open>sp_offset_by_16\<close>\<close>
  | OffsetSpIfFirstFrameOtherwiseStackEndsHere u16 \<comment> \<open>\<open>sp_offset_by_16\<close>\<close>
  | OffsetSpAndRestoreLr u16 i16 \<comment> \<open>\<open>sp_offset_by_16\<close>, \<open>lr_storage_offset_from_sp_by_8\<close>\<close>
  | OffsetSpAndRestoreFpAndLr u16 i16 i16
      \<comment> \<open>\<open>sp_offset_by_16\<close>, \<open>fp_storage_offset_from_sp_by_8\<close>, \<open>lr_storage_offset_from_sp_by_8\<close>\<close>
  | UseFramePointer
  | UseFramepointerWithOffsets u16 i16 i16
      \<comment> \<open>\<open>sp_offset_from_fp_by_8\<close>, \<open>fp_storage_offset_from_fp_by_8\<close>, \<open>lr_storage_offset_from_fp_by_8\<close>\<close>

definition rule_for_stub_functions_a64 :: UnwindRuleAarch64 where
  "rule_for_stub_functions_a64 = NoOp"

definition rule_for_function_start_a64 :: UnwindRuleAarch64 where
  "rule_for_function_start_a64 = NoOp"

definition fallback_rule_a64 :: UnwindRuleAarch64 where
  "fallback_rule_a64 = UseFramePointer"

section \<open>Execution\<close>

text \<open>
  The match of \<open>exec\<close>: the new link register, stack pointer and frame pointer, or
  \<open>Inr None\<close> where the code returns \<open>Ok(None)\<close>. \<open>fp + 8\<close> in the frame-pointer rules is
  unchecked, but comes after \<open>fp + 16\<close> was.
\<close>

definition offset_sp_a64 :: "UnwindRegsAarch64 \<Rightarrow> u16 \<Rightarrow> Error + (u64 \<times> u64 \<times> u64) option" where
  "offset_sp_a64 regs sp_offset_by_16 =
     bind_res (ok_or IntegerOverflow (checked_add (a64_sp regs) (ucast sp_offset_by_16 * 16)))
       (\<lambda>new_sp. Inr (Some (a64_lr regs, new_sp, a64_fp regs)))"

text \<open>\<open>checked_add_signed(base, off * 8)\<close> followed by a stack read at the result.\<close>

definition load_a64 :: "read_stack \<Rightarrow> u64 \<Rightarrow> i16 \<Rightarrow> Error + u64" where
  "load_a64 read base off_by_8 =
     bind_res (ok_or IntegerOverflow (checked_add_signed base (scast off_by_8 * 8)))
       (read_or_err read)"

text \<open>The caller's frame from the frame pointer: new sp, then the reads of lr and fp.\<close>

definition read_frame_record_a64 :: "UnwindRegsAarch64 \<Rightarrow> read_stack \<Rightarrow>
    Error + (u64 \<times> u64 \<times> u64)" where
  "read_frame_record_a64 regs read =
     (let fp = a64_fp regs in
      bind_res (ok_or IntegerOverflow (checked_add fp 16)) (\<lambda>new_sp.
      bind_res (read_or_err read (fp + 8)) (\<lambda>new_lr.
      bind_res (read_or_err read fp) (\<lambda>new_fp. Inr (new_lr, new_sp, new_fp)))))"

text \<open>The end-of-stack and backwards checks of the two frame-pointer rules.\<close>

definition check_frame_a64 :: "UnwindRegsAarch64 \<Rightarrow> u64 \<times> u64 \<times> u64 \<Rightarrow>
    Error + (u64 \<times> u64 \<times> u64) option" where
  "check_frame_a64 regs = (\<lambda>(new_lr, new_sp, new_fp).
     if new_fp = 0 then Inr None
     else if new_fp \<le> a64_fp regs \<or> new_sp \<le> a64_sp regs
     then Inl FramepointerUnwindingMovedBackwards
     else Inr (Some (new_lr, new_sp, new_fp)))"

fun rule_frame_a64 :: "UnwindRuleAarch64 \<Rightarrow> bool \<Rightarrow> UnwindRegsAarch64 \<Rightarrow> read_stack \<Rightarrow>
    Error + (u64 \<times> u64 \<times> u64) option" where
  "rule_frame_a64 NoOp is_first_frame regs read =
     (if \<not> is_first_frame then Inl DidNotAdvance
      else Inr (Some (a64_lr regs, a64_sp regs, a64_fp regs)))"
| "rule_frame_a64 NoOpIfFirstFrameOtherwiseFp is_first_frame regs read =
     (if is_first_frame then Inr (Some (a64_lr regs, a64_sp regs, a64_fp regs))
      else bind_res (read_frame_record_a64 regs read) (\<lambda>(new_lr, new_sp, new_fp).
        if new_sp \<le> a64_sp regs then Inl FramepointerUnwindingMovedBackwards
        else Inr (Some (new_lr, new_sp, new_fp))))"
| "rule_frame_a64 (OffsetSpIfFirstFrameOtherwiseStackEndsHere sp_offset_by_16)
     is_first_frame regs read =
     (if \<not> is_first_frame then Inr None else offset_sp_a64 regs sp_offset_by_16)"
| "rule_frame_a64 (OffsetSp sp_offset_by_16) is_first_frame regs read =
     (if \<not> is_first_frame then Inl DidNotAdvance else offset_sp_a64 regs sp_offset_by_16)"
| "rule_frame_a64 (OffsetSpAndRestoreLr sp_offset_by_16 lr_storage_offset_from_sp_by_8)
     is_first_frame regs read =
     (let sp = a64_sp regs in
      bind_res (ok_or IntegerOverflow (checked_add sp (ucast sp_offset_by_16 * 16))) (\<lambda>new_sp.
      bind_res (load_a64 read sp lr_storage_offset_from_sp_by_8) (\<lambda>new_lr.
        Inr (Some (new_lr, new_sp, a64_fp regs)))))"
| "rule_frame_a64 (OffsetSpAndRestoreFpAndLr sp_offset_by_16 fp_storage_offset_from_sp_by_8
     lr_storage_offset_from_sp_by_8) is_first_frame regs read =
     (let sp = a64_sp regs in
      bind_res (ok_or IntegerOverflow (checked_add sp (ucast sp_offset_by_16 * 16))) (\<lambda>new_sp.
      bind_res (load_a64 read sp lr_storage_offset_from_sp_by_8) (\<lambda>new_lr.
      bind_res (load_a64 read sp fp_storage_offset_from_sp_by_8) (\<lambda>new_fp.
        Inr (Some (new_lr, new_sp, new_fp))))))"
| "rule_frame_a64 UseFramePointer is_first_frame regs read =
     bind_res (read_frame_record_a64 regs read) (check_frame_a64 regs)"
| "rule_frame_a64 (UseFramepointerWithOffsets sp_offset_from_fp_by_8
     fp_storage_offset_from_fp_by_8 lr_storage_offset_from_fp_by_8) is_first_frame regs read =
     (let fp = a64_fp regs in
      bind_res (ok_or IntegerOverflow (checked_add fp (ucast sp_offset_from_fp_by_8 * 8)))
        (\<lambda>new_sp.
      bind_res (load_a64 read fp lr_storage_offset_from_fp_by_8) (\<lambda>new_lr.
      bind_res (load_a64 read fp fp_storage_offset_from_fp_by_8) (\<lambda>new_fp.
        check_frame_a64 regs (new_lr, new_sp, new_fp)))))"

definition finish_a64 :: "bool \<Rightarrow> UnwindRegsAarch64 \<Rightarrow> u64 \<times> u64 \<times> u64 \<Rightarrow>
    (Error + u64 option) \<times> UnwindRegsAarch64" where
  "finish_a64 is_first_frame regs = (\<lambda>(new_lr, new_sp, new_fp).
     (let return_address = strip_ptr_auth (a64_lr_mask regs) new_lr in
      if return_address = 0 then (Inr None, regs)
      else if \<not> is_first_frame \<and> new_sp = a64_sp regs then (Inl DidNotAdvance, regs)
      else (Inr (Some return_address),
            a64_set_fp new_fp (a64_set_sp new_sp (a64_set_lr new_lr regs)))))"

definition exec_a64 :: "UnwindRuleAarch64 \<Rightarrow> bool \<Rightarrow> UnwindRegsAarch64 \<Rightarrow> read_stack \<Rightarrow>
    (Error + u64 option) \<times> UnwindRegsAarch64" where
  "exec_a64 rule is_first_frame regs read =
     (case rule_frame_a64 rule is_first_frame regs read of
        Inl e \<Rightarrow> (Inl e, regs)
      | Inr None \<Rightarrow> (Inr None, regs)
      | Inr (Some frame) \<Rightarrow> finish_a64 is_first_frame regs frame)"

section \<open>What a step did\<close>

lemma offset_sp_a64_Inr:
  "offset_sp_a64 regs off = Inr (Some (lr, sp, fp)) \<longleftrightarrow>
     lr = a64_lr regs \<and> fp = a64_fp regs \<and>
     checked_add (a64_sp regs) (ucast off * 16) = Some sp"
  by (auto simp: offset_sp_a64_def bind_res_Inr_iff)

lemma check_frame_a64_Inr:
  "check_frame_a64 regs frame = Inr (Some (lr, sp, fp)) \<longleftrightarrow>
     frame = (lr, sp, fp) \<and> fp \<noteq> 0 \<and> a64_fp regs < fp \<and> a64_sp regs < sp"
  by (cases frame) (auto simp: check_frame_a64_def)

lemma read_frame_record_a64_Inr:
  "read_frame_record_a64 regs read = Inr (lr, sp, fp) \<longleftrightarrow>
     checked_add (a64_fp regs) 16 = Some sp \<and> read (a64_fp regs + 8) = Some lr \<and>
     read (a64_fp regs) = Some fp"
  by (auto simp: read_frame_record_a64_def Let_def bind_res_Inr_iff)

text \<open>
  No rule lowers the stack pointer, and the rules that pass it through unchanged in the first
  frame refuse to run in a later one.
\<close>

lemma rule_frame_a64_sp:
  "rule_frame_a64 rule f regs read = Inr (Some (lr, sp, fp)) \<Longrightarrow> a64_sp regs \<le> sp"
  by (cases rule) (auto simp: offset_sp_a64_Inr check_frame_a64_Inr bind_res_Inr_iff Let_def
      intro: checked_add_le split: if_splits)

lemma exec_a64_Some_iff:
  "exec_a64 rule f regs read = (Inr (Some ra), regs') \<longleftrightarrow>
     (\<exists>lr sp fp. rule_frame_a64 rule f regs read = Inr (Some (lr, sp, fp)) \<and>
        ra = strip_ptr_auth (a64_lr_mask regs) lr \<and> ra \<noteq> 0 \<and> (f \<or> sp \<noteq> a64_sp regs) \<and>
        regs' = a64_set_fp fp (a64_set_sp sp (a64_set_lr lr regs)))"
  by (auto simp: exec_a64_def finish_a64_def Let_def split: prod.splits sum.splits option.splits
      if_splits)

lemma exec_a64_SomeE:
  assumes "exec_a64 rule f regs read = (Inr (Some ra), regs')"
  shows "ra \<noteq> 0" "a64_lr regs' = ra" "a64_lr_mask regs' = a64_lr_mask regs"
    "strip_ptr_auth (a64_lr_mask regs') ra = ra"
    "a64_sp regs \<le> a64_sp regs'" "f \<or> a64_sp regs < a64_sp regs'"
  using assms by (auto simp: exec_a64_Some_iff less_le dest: rule_frame_a64_sp)

interpretation a64: strict_unwind_rule exec_a64 a64_sp
  by unfold_locales (auto dest: exec_a64_SomeE)

lemma rule_frame_a64_not_Panicked: "rule_frame_a64 rule f regs read \<noteq> Inl Panicked"
  by (cases rule) (auto simp: offset_sp_a64_def check_frame_a64_def read_frame_record_a64_def
      load_a64_def read_or_err_def bind_res_def ok_or_def Let_def split: option.splits sum.splits
      if_splits)

section \<open>Masks\<close>

lemma max_shr_mask: "n < 64 \<Longrightarrow> max_shr n = mask (64 - n)"
  by (rule bit_eqI) (auto simp: max_shr_def bit_simps)

lemma strip_mask: "n < 64 \<Longrightarrow> strip_ptr_auth (max_shr n) p = take_bit (64 - n) p"
  by (simp add: strip_ptr_auth_def max_shr_mask take_bit_eq_mask)

lemma takeWhile_down_nth:
  assumes "j < length (takeWhile P (rev [0..<n]))"
  shows "P (n - 1 - j)"
proof -
  have "j < n" using assms length_takeWhile_le [of P "rev [0..<n]"] by simp
  then have "takeWhile P (rev [0..<n]) ! j = n - 1 - j"
    using assms by (simp add: takeWhile_nth rev_nth)
  then show ?thesis using nth_mem [OF assms] set_takeWhileD by metis
qed

lemma leading_zeros_bit: "64 - leading_zeros a \<le> i \<Longrightarrow> \<not> bit a i"
proof (cases "i < 64")
  case True
  assume "64 - leading_zeros a \<le> i"
  with True have "63 - i < leading_zeros a" by linarith
  with takeWhile_down_nth [of "63 - i" "\<lambda>i. \<not> bit a i" 64] True show ?thesis
    by (simp add: leading_zeros_def)
next
  case False
  then show ?thesis using bit_imp_le_length [of a i] by auto
qed

lemma leading_zeros_bound: "unat a < 2 ^ (64 - leading_zeros a)"
proof -
  have "take_bit (64 - leading_zeros a) a = a"
    by (rule bit_eqI) (use leading_zeros_bit [of a] in \<open>auto simp: bit_take_bit_iff not_less [symmetric]\<close>)
  then show ?thesis by (metis unsigned_take_bit_eq take_bit_nat_less_exp)
qed

lemma leading_zeros_less: "a \<noteq> 0 \<Longrightarrow> leading_zeros a < 64"
  using leading_zeros_bound [of a] unat_gt_0 [of a] by (cases "leading_zeros a < 64") simp_all

section \<open>Properties\<close>

text \<open>
  The pointer-authentication mask derived from the highest known code address strips
  nothing from any address up to it, and whatever it leaves is below the next power of two:
  a return address inside the known modules survives, its signature bits do not.
\<close>

theorem ptr_auth_mask_sound:
  assumes "max_address \<noteq> 0"
  shows "(p \<le> max_address \<longrightarrow> strip_ptr_auth (from_max_known_address max_address) p = p) \<and>
    unat (strip_ptr_auth (from_max_known_address max_address) q)
      < 2 ^ (64 - leading_zeros max_address)"
proof -
  let ?k = "64 - leading_zeros max_address"
  have strip: "strip_ptr_auth (from_max_known_address max_address) x = take_bit ?k x" for x
    using leading_zeros_less [OF assms] by (simp add: from_max_known_address_def strip_mask)
  have "take_bit ?k p = p" if "p \<le> max_address"
  proof (rule word_unat_eq_iff [THEN iffD2])
    have "unat p < 2 ^ ?k"
      using that leading_zeros_bound [of max_address] by (simp add: word_le_nat_alt)
    then show "unat (take_bit ?k p) = unat p"
      by (simp add: unsigned_take_bit_eq take_bit_nat_eq_self)
  qed
  moreover have "unat (take_bit ?k q) < 2 ^ ?k"
    by (simp add: unsigned_take_bit_eq)
  ultimately show ?thesis by (simp add: strip)
qed

theorem ptr_auth_mask_sound_witness:
  "strip_ptr_auth (from_max_known_address 0x55ba9f07e000) 0x55ba9f000000 = 0x55ba9f000000"
  using ptr_auth_mask_sound [of "0x55ba9f07e000" "0x55ba9f000000"] by simp

text \<open>
  One step of an aarch64 rule. On success the return address is non-null, already
  stripped of its signature and stored as the new link register, and the stack pointer has
  not moved down, in a caller frame it has moved up; on every other outcome no register has
  changed and the code has not panicked.
\<close>

theorem exec_a64_step:
  "case exec_a64 rule is_first_frame regs read of
     (Inr (Some ra), regs') \<Rightarrow>
       ra \<noteq> 0 \<and> a64_lr regs' = ra \<and> strip_ptr_auth (a64_lr_mask regs') ra = ra \<and>
       a64_lr_mask regs' = a64_lr_mask regs \<and>
       (if is_first_frame then a64_sp regs \<le> a64_sp regs' else a64_sp regs < a64_sp regs')
   | (r, regs') \<Rightarrow> regs' = regs \<and> r \<noteq> Inl Panicked"
proof -
  obtain r regs' where e: "exec_a64 rule is_first_frame regs read = (r, regs')" by fastforce
  show ?thesis
  proof (cases "\<exists>ra. r = Inr (Some ra)")
    case True
    with e obtain ra where "exec_a64 rule is_first_frame regs read = (Inr (Some ra), regs')" by auto
    with exec_a64_SomeE [OF this] show ?thesis by auto
  next
    case False
    with e rule_frame_a64_not_Panicked [of rule is_first_frame regs read] show ?thesis
      by (auto simp: exec_a64_def finish_a64_def Let_def split: sum.splits option.splits
          prod.splits if_splits)
  qed
qed

text \<open>
  The frame records of an aarch64 stack: at \<open>fp\<close> the caller's frame pointer and above it the
  signed return address. The list is closed by the root record, whose frame pointer is null.
\<close>

fun frame_records_a64 :: "PtrAuthMask \<Rightarrow> read_stack \<Rightarrow> u64 \<Rightarrow> (u64 \<times> u64) list \<Rightarrow> bool" where
  "frame_records_a64 m read fp [] =
     (unat fp + 16 < 2 ^ 64 \<and> read fp = Some 0 \<and> read (fp + 8) \<noteq> None)"
| "frame_records_a64 m read fp ((caller_fp, lr) # frames) =
     (unat fp + 16 < 2 ^ 64 \<and> read fp = Some caller_fp \<and> read (fp + 8) = Some lr \<and>
      strip_ptr_auth m lr \<noteq> 0 \<and> fp < caller_fp \<and> frame_records_a64 m read caller_fp frames)"

lemma frame_records_a64_bound: "frame_records_a64 m read fp frames \<Longrightarrow> unat fp + 16 < 2 ^ 64"
  by (cases frames) auto

lemma exec_a64_root:
  assumes "frame_records_a64 m read (a64_fp regs) []"
  shows "exec_a64 UseFramePointer f regs read = (Inr None, regs)"
proof -
  from assms obtain lr where "read_frame_record_a64 regs read = Inr (lr, a64_fp regs + 16, 0)"
    by (auto simp: read_frame_record_a64_Inr checked_add_def)
  then show ?thesis by (simp add: exec_a64_def check_frame_a64_def)
qed

lemma exec_a64_use_frame_pointer:
  assumes "frame_records_a64 (a64_lr_mask regs) read (a64_fp regs) ((caller_fp, lr) # frames)"
    and "a64_sp regs < a64_fp regs + 16"
  shows "exec_a64 UseFramePointer f regs read =
    (Inr (Some (strip_ptr_auth (a64_lr_mask regs) lr)),
     a64_set_fp caller_fp (a64_set_sp (a64_fp regs + 16) (a64_set_lr lr regs)))"
proof -
  have "read_frame_record_a64 regs read = Inr (lr, a64_fp regs + 16, caller_fp)"
    using assms by (auto simp: read_frame_record_a64_Inr checked_add_def)
  moreover have "caller_fp \<noteq> 0" using assms(1) by auto
  ultimately show ?thesis
    using assms by (auto simp: exec_a64_def check_frame_a64_def finish_a64_def)
qed

text \<open>
  On aarch64 the frame-pointer walk recovers the whole call chain and then stops. When
  memory holds a list of frame records closed by a root record, executing
  \<open>UseFramePointer\<close> once per record returns the stripped return addresses in order, and the
  next execution reports the end of the stack.
\<close>

theorem frame_pointer_walk_a64:
  assumes "frame_records_a64 (a64_lr_mask regs) read (a64_fp regs) frames"
    and "a64_sp regs < a64_fp regs + 16"
  shows "\<exists>regs'. exec_chain exec_a64 (replicate (length frames) UseFramePointer) regs read =
      Some (map (strip_ptr_auth (a64_lr_mask regs) \<circ> snd) frames, regs') \<and>
    exec_a64 UseFramePointer False regs' read = (Inr None, regs')"
  using assms
proof (induction frames arbitrary: regs)
  case Nil
  then show ?case by (simp add: exec_a64_root del: frame_records_a64.simps)
next
  case (Cons frame frames)
  obtain caller_fp lr where frame: "frame = (caller_fp, lr)" by fastforce
  define regs1 where
    "regs1 = a64_set_fp caller_fp (a64_set_sp (a64_fp regs + 16) (a64_set_lr lr regs))"
  have step: "exec_a64 UseFramePointer False regs read =
      (Inr (Some (strip_ptr_auth (a64_lr_mask regs) lr)), regs1)"
    unfolding regs1_def using Cons.prems frame by (intro exec_a64_use_frame_pointer) auto
  have rec: "frame_records_a64 (a64_lr_mask regs1) read (a64_fp regs1) frames"
    and up: "a64_fp regs < a64_fp regs1"
    using Cons.prems(1) frame by (auto simp: regs1_def)
  have "a64_sp regs1 < a64_fp regs1 + 16"
    using up frame_records_a64_bound [OF rec] Cons.prems(1) frame
    by (auto simp: regs1_def word_less_nat_alt unat_word_ariths)
  from Cons.IH [OF rec this] step frame show ?case by (auto simp: regs1_def)
qed

definition one_frame_a64 :: read_stack where
  "one_frame_a64 = (\<lambda>a. if a = 0x20 then Some 0x40 else if a = 0x28 then Some 0x100200
     else if a = 0x40 then Some 0 else if a = 0x48 then Some 0 else None)"

theorem frame_pointer_walk_a64_witness:
  "\<exists>regs'. exec_chain exec_a64 [UseFramePointer] (a64_new 1 0x10 0x20) one_frame_a64 =
       Some ([0x100200], regs') \<and>
     exec_a64 UseFramePointer False regs' one_frame_a64 = (Inr None, regs')"
proof -
  have "frame_records_a64 (- 1) one_frame_a64 0x20 [(0x40, 0x100200)]"
    by (simp add: one_frame_a64_def)
  with frame_pointer_walk_a64 [of "a64_new 1 0x10 0x20" one_frame_a64 "[(0x40, 0x100200)]"]
  show ?thesis by (simp del: exec_chain.simps)
qed

text \<open>
  The aarch64 stack pointer rises by at least one byte with every caller frame, so a walk
  over \<open>n\<close> frames needs \<open>n\<close> bytes of stack above the start and every walk is finite.
\<close>

theorem exec_a64_chain_progress:
  assumes "exec_chain exec_a64 rules regs read = Some (ras, regs')"
  shows "unat (a64_sp regs) + length rules \<le> unat (a64_sp regs') \<and> length rules < 2 ^ 64 \<and>
    length ras = length rules \<and> 0 \<notin> set ras"
  using a64.chain_strict_progress [OF assms] a64.chain_return_addresses [OF assms]
    unsigned_less [of "a64_sp regs'", where ?'a = nat] by simp

theorem exec_a64_chain_progress_witness:
  "length [UseFramePointer] < 2 ^ 64 \<and>
   exec_chain exec_a64 [UseFramePointer] (a64_new 1 0x10 0x20) (\<lambda>a. Some (a + 0x20)) \<noteq> None"
proof -
  obtain ras regs' where e: "exec_chain exec_a64 [UseFramePointer]
      (a64_new 1 0x10 0x20) (\<lambda>a. Some (a + 0x20)) = Some (ras, regs')"
    by (simp add: exec_a64_def read_frame_record_a64_def check_frame_a64_def checked_add_def Let_def
        read_or_err_def finish_a64_def)
  from exec_a64_chain_progress [OF this] e show ?thesis by simp
qed

end
