(* ===== verification/Dwarf.thy ===== *)
theory Dwarf
  imports Core_Types
begin

text \<open>
  The architecture-independent part of DWARF unwinding
  (\<^verbatim>\<open>vendor/framehop/src/dwarf.rs\<close>): evaluation of CFA and register rules, the index over the
  FDEs of an \<open>.eh_frame\<close> without a header, and the lookup of a frame's table row. The gimli
  crate, which parses the sections and evaluates DWARF expressions, is a parameter: its data
  types are mirrored, its functions are arguments.
\<close>

section \<open>gimli's data\<close>

type_synonym Register = u16

text \<open>
  The rules of an unwind table row; \<open>'x\<close> is the type of the unparsed expressions. The last
  constructor stands for the variants that the source only matches with a wildcard.
\<close>

datatype 'x CfaRule = RegisterAndOffset Register i64 | CfaExpression 'x

datatype 'x RegisterRule =
    Undefined
  | SameValue
  | Offset i64
  | ValOffset i64
  | RegisterValue Register
  | Expression 'x
  | ValExpression 'x
  | Architectural
  | OtherRegisterRule

text \<open>
  An evaluation of a DWARF expression, seen from its client: gimli either finishes, with the
  location of the last piece if there is one, fails, or suspends and is resumed with a
  register or with a word of memory. The type is inductive: the evaluations modelled are
  those that end.
\<close>

datatype Location = Address u64 | OtherLocation

datatype Evaluation =
    Complete "Location option"
  | EvalError
  | RequiresRegister Register "u64 \<Rightarrow> Evaluation"
  | RequiresMemory u64 nat bool "u64 \<Rightarrow> Evaluation"
      \<comment> \<open>address, \<open>size\<close>, whether \<open>space\<close> is \<open>None\<close>\<close>
  | RequiresOther

text \<open>
  What the client asks of gimli: parsing an expression (\<open>expr.get(section)\<close>) and starting its
  evaluation, \<open>None\<close> when it cannot be parsed.
\<close>

type_synonym 'x gimli_expr = "'x \<Rightarrow> Evaluation option"

section \<open>Rule evaluation\<close>

text \<open>
  \<open>u64::try_from(i64::try_from(base).ok()?.checked_add(offset)?).ok()\<close>
\<close>

definition add_cfa_offset :: "u64 \<Rightarrow> i64 \<Rightarrow> u64 option" where
  "add_cfa_offset base offset =
     Option.bind (try_signed (uint base) :: i64 option) (\<lambda>b.
     Option.bind (checked_add_signed_int b offset) (\<lambda>s. try_unsigned (sint s)))"

primrec eval_loop :: "(Register \<Rightarrow> u64 option) \<Rightarrow> read_stack \<Rightarrow> Evaluation \<Rightarrow> u64 option" where
  "eval_loop get read (Complete loc) =
     (case loc of Some (Address address) \<Rightarrow> Some address | _ \<Rightarrow> None)"
| "eval_loop get read EvalError = None"
| "eval_loop get read (RequiresRegister register resume) =
     (case get register of
        None \<Rightarrow> None
      | Some value \<Rightarrow> eval_loop get read (resume value))"
| "eval_loop get read (RequiresMemory address sz no_space resume) =
     (if sz = 8 \<and> no_space
      then (case read address of
              None \<Rightarrow> None
            | Some value \<Rightarrow> eval_loop get read (resume value))
      else None)"
| "eval_loop get read RequiresOther = None"

definition eval_expr :: "'x gimli_expr \<Rightarrow> 'x \<Rightarrow> (Register \<Rightarrow> u64 option) \<Rightarrow> read_stack \<Rightarrow>
    u64 option" where
  "eval_expr parse expr get read =
     (case parse expr of None \<Rightarrow> None | Some ev \<Rightarrow> eval_loop get read ev)"

fun eval_cfa_rule :: "'x gimli_expr \<Rightarrow> 'x CfaRule \<Rightarrow> (Register \<Rightarrow> u64 option) \<Rightarrow> read_stack \<Rightarrow>
    u64 option" where
  "eval_cfa_rule parse (RegisterAndOffset register offset) get read =
     Option.bind (get register) (\<lambda>val. add_cfa_offset val offset)"
| "eval_cfa_rule parse (CfaExpression expr) get read = eval_expr parse expr get read"

fun eval_register_rule :: "'x gimli_expr \<Rightarrow> 'x RegisterRule option \<Rightarrow> u64 \<Rightarrow> u64 \<Rightarrow>
    (Register \<Rightarrow> u64 option) \<Rightarrow> read_stack \<Rightarrow> u64 option" where
  "eval_register_rule parse None cfa val get read = None"
| "eval_register_rule parse (Some Undefined) cfa val get read = None"
| "eval_register_rule parse (Some SameValue) cfa val get read = Some val"
| "eval_register_rule parse (Some (Offset offset)) cfa val get read =
     Option.bind (add_cfa_offset cfa offset) read"
| "eval_register_rule parse (Some (ValOffset offset)) cfa val get read = add_cfa_offset cfa offset"
| "eval_register_rule parse (Some (RegisterValue register)) cfa val get read = get register"
| "eval_register_rule parse (Some (Expression expr)) cfa val get read =
     Option.bind (eval_expr parse expr get read) read"
| "eval_register_rule parse (Some (ValExpression expr)) cfa val get read =
     eval_expr parse expr get read"
| "eval_register_rule parse (Some Architectural) cfa val get read = None"
| "eval_register_rule parse (Some OtherRegisterRule) cfa val get read = None"

text \<open>In the lower half of the address space the arithmetic is that of the integers.\<close>

lemma add_cfa_offset_Some_iff:
  "add_cfa_offset base offset = Some a \<longleftrightarrow>
     uint base < 2 ^ 63 \<and> 0 \<le> uint base + sint offset \<and> uint base + sint offset < 2 ^ 63 \<and>
     a = word_of_int (uint base + sint offset)"
proof -
  have "sint base = uint base" if "uint base < 2 ^ 63"
    using that uint_eq_sint_shift [of base] sint_ge [of base] by (auto split: if_splits)
  moreover have "sint (base + offset) = uint base + sint offset"
    if "- (2 ^ 63) \<le> uint base + sint offset" "uint base + sint offset < 2 ^ 63"
    using that signed_of_int [of "uint base + sint offset", where 'b = 64]
    by (simp add: signed_take_bit_int_eq_self)
  moreover have "- (2 ^ 63) \<le> uint base" by (rule order_trans [of _ 0]) simp_all
  ultimately show ?thesis
    by (auto simp: add_cfa_offset_def bind_eq_Some_conv checked_simps checked_add_signed_int_def)
qed

lemma add_cfa_offset_word: "add_cfa_offset base offset = Some a \<Longrightarrow> a = base + offset"
  by (auto simp: add_cfa_offset_Some_iff)

text \<open>
  The slot of a saved register: an unwind rule adds one rounded offset to the base register,
  the generic path adds the row's offset to the CFA. Below the CFA they agree, in the address
  and in whether there is one.
\<close>

lemma cfa_slot_agrees:
  assumes cfa: "add_cfa_offset sp offset = Some cfa"
    and offset: "0 \<le> sint offset" "sint offset < 2 ^ 20"
    and slot: "- (2 ^ 15 * 8) \<le> sint (offset + slot_off)" "sint (offset + slot_off) < 2 ^ 15 * 8"
    and below: "sint slot_off \<le> 0"
  shows "checked_add_signed sp (offset + slot_off) = add_cfa_offset cfa slot_off"
proof -
  have "sint slot_off = sint (offset + slot_off) - sint offset"
  proof -
    have "word_of_int (sint (offset + slot_off) - sint offset) = slot_off" by simp
    then show ?thesis
      using offset slot sint_of_int_small [of "sint (offset + slot_off) - sint offset"] by simp
  qed
  moreover have "uint sp < 2 ^ 63" "uint sp + sint offset < 2 ^ 63"
    "cfa = word_of_int (uint sp + sint offset)"
    using cfa by (auto simp: add_cfa_offset_Some_iff)
  moreover from this offset(1) have "uint cfa = uint sp + sint offset"
    using uint_of_int_small [of "uint sp + sint offset", where 'a = 64] by simp
  ultimately have sum: "uint cfa + sint slot_off = uint sp + sint (offset + slot_off)" and "uint cfa < 2 ^ 63"
    by simp_all
  show ?thesis
  proof (cases "0 \<le> uint cfa + sint slot_off")
    case True
    then have "add_cfa_offset cfa slot_off = Some (word_of_int (uint cfa + sint slot_off))"
      using \<open>uint cfa < 2 ^ 63\<close> below by (simp add: add_cfa_offset_Some_iff)
    then show ?thesis
      using True sum \<open>uint cfa < 2 ^ 63\<close> below by (simp add: checked_add_signed_eq)
  next
    case False
    then have "add_cfa_offset cfa slot_off = None"
      using add_cfa_offset_Some_iff [of cfa slot_off] by (cases "add_cfa_offset cfa slot_off") auto
    with False sum show ?thesis by (simp add: checked_add_signed_eq)
  qed
qed

section \<open>Errors and section types\<close>

datatype 'g DwarfUnwinderError =
    FdeFromOffsetFailed 'g
  | UnwindInfoForAddressFailed 'g
  | StackPointerMovedBackwards
  | DwarfDidNotAdvance
  | CouldNotRecoverCfa
  | CouldNotRecoverReturnAddress
  | CouldNotRecoverFramePointer

datatype ConversionError =
    CfaIsExpression
  | CfaIsOffsetFromUnknownRegister
  | ReturnAddressRuleWithUnexpectedOffset
  | ReturnAddressRuleWasWeird
  | SpOffsetDoesNotFit
  | RegisterNotStoredRelativeToCfa
  | RestoringFpButNotLr
  | LrStorageOffsetDoesNotFit
  | FpStorageOffsetDoesNotFit
  | SpOffsetFromFpDoesNotFit
  | FramePointerRuleDoesNotRestoreLr
  | FramePointerRuleDoesNotRestoreFp
  | FramePointerRuleDoesNotRestoreBp
  | FramePointerRuleHasStrangeBpOffset

datatype UnwindSectionType = EhFrame | DebugFrame

text \<open>An unwind table row: \<open>cfa()\<close> and \<open>register(reg)\<close>.\<close>

record 'x UnwindTableRow =
  row_cfa :: "'x CfaRule"
  row_register :: "Register \<Rightarrow> 'x RegisterRule option"

text \<open>
  The calls into gimli that read a section of either type: \<open>fde_from_offset\<close> and, on the FDE,
  \<open>is_signal_trampoline\<close> and \<open>unwind_info_for_address\<close>; the parser of expressions; and the
  lookup in a parsed \<open>.eh_frame_hdr\<close> table, from an address to the offset of its FDE.
\<close>

record ('x, 'f, 'g) Gimli =
  fde_from_offset :: "UnwindSectionType \<Rightarrow> u32 \<Rightarrow> 'g + 'f"
  is_signal_trampoline :: "'f \<Rightarrow> bool"
  unwind_info_for_address :: "'f \<Rightarrow> u64 \<Rightarrow> 'g + 'x UnwindTableRow"
  parse_expr :: "'x gimli_expr"
  eh_frame_hdr_lookup :: "u64 \<Rightarrow> u64 option"

definition unwind_info_for_fde :: "('x, 'f, 'g) Gimli \<Rightarrow> UnwindSectionType \<Rightarrow> u64 \<Rightarrow> u32 \<Rightarrow>
    'g DwarfUnwinderError + ('x UnwindTableRow \<times> bool)" where
  "unwind_info_for_fde gimli section_type lookup_svma fde_offset =
     (case fde_from_offset gimli section_type fde_offset of
        Inl e \<Rightarrow> Inl (FdeFromOffsetFailed e)
      | Inr fde \<Rightarrow>
          (case unwind_info_for_address gimli fde lookup_svma of
             Inl e \<Rightarrow> Inl (UnwindInfoForAddressFailed e)
           | Inr row \<Rightarrow> Inr (row, is_signal_trampoline gimli fde)))"

text \<open>
  \<open>get_fde_offset_for_relative_address\<close>: the header's table is searched and the pointer found
  is turned into an offset that has to fit 32 bits.
\<close>

definition get_fde_offset_for_relative_address ::
    "('x, 'f, 'g) Gimli \<Rightarrow> u64 \<Rightarrow> u32 \<Rightarrow> u32 option" where
  "get_fde_offset_for_relative_address gimli base_svma rel_lookup_address =
     (let lookup_svma = base_svma + ucast rel_lookup_address in
      Option.bind (eh_frame_hdr_lookup gimli lookup_svma)
        (\<lambda>fde_offset. try_unsigned (uint fde_offset)))"

text \<open>
  \<open>unwind_frame_with_fde\<close>, over the architecture's \<open>unwind_frame\<close> and rule for addresses no
  FDE covers. Both branches of the source on the section type have the same body.
\<close>

definition unwind_frame_with_fde ::
    "('x gimli_expr \<Rightarrow> 'x UnwindTableRow \<Rightarrow> 'regs \<Rightarrow> bool \<Rightarrow> bool \<Rightarrow> read_stack \<Rightarrow>
       ('g DwarfUnwinderError + 'rule UnwindResult) \<times> 'regs) \<Rightarrow> 'rule \<Rightarrow>
     ('x, 'f, 'g) Gimli \<Rightarrow> UnwindSectionType \<Rightarrow> u64 \<Rightarrow> 'regs \<Rightarrow> bool \<Rightarrow> u32 \<Rightarrow> u32 \<Rightarrow> read_stack \<Rightarrow>
     ('g DwarfUnwinderError + 'rule UnwindResult) \<times> 'regs" where
  "unwind_frame_with_fde arch_unwind_frame rule_if_uncovered_by_fde gimli section_type base_svma
     regs is_first_frame rel_lookup_address fde_offset read =
     (let lookup_svma = base_svma + ucast rel_lookup_address in
      case unwind_info_for_fde gimli section_type lookup_svma fde_offset of
        Inl (UnwindInfoForAddressFailed _) \<Rightarrow> (Inr (ExecRule rule_if_uncovered_by_fde), regs)
      | Inl e \<Rightarrow> (Inl e, regs)
      | Inr (row, is_signal_frame) \<Rightarrow>
          arch_unwind_frame (parse_expr gimli) row regs is_first_frame is_signal_frame read)"

section \<open>The FDE index\<close>

text \<open>
  \<open>DwarfCfiIndex::try_new\<close>. gimli's iterator over the section is a list of entries, each an
  error, a CIE, or an FDE that parsed (initial address and offset) or not; the cache of the
  current CIE only saves work and is left out.
\<close>

datatype 'g Entry = EntryError 'g | CieEntry | FdeEntry "'g + (u64 \<times> u64)"

datatype 'g DwarfCfiIndexError =
    GimliError 'g
  | CouldNotSubtractBaseAddress
  | RelativeAddressTooBig
  | FdeOffsetTooBig

record DwarfCfiIndex =
  sorted_fde_pc_starts :: "u32 list"
  fde_offsets :: "u32 list"

fun collect_fdes :: "u64 \<Rightarrow> 'g Entry list \<Rightarrow> 'g DwarfCfiIndexError + (u32 \<times> u32) list" where
  "collect_fdes base_svma [] = Inr []"
| "collect_fdes base_svma (EntryError e # entries) = Inl (GimliError e)"
| "collect_fdes base_svma (CieEntry # entries) = collect_fdes base_svma entries"
| "collect_fdes base_svma (FdeEntry (Inl e) # entries) = Inl (GimliError e)"
| "collect_fdes base_svma (FdeEntry (Inr (pc, offset)) # entries) =
     bind_res (ok_or CouldNotSubtractBaseAddress (checked_sub pc base_svma)) (\<lambda>relative_pc.
     bind_res (ok_or RelativeAddressTooBig (try_unsigned (uint relative_pc))) (\<lambda>relative_pc.
     bind_res (ok_or FdeOffsetTooBig (try_unsigned (uint offset))) (\<lambda>fde_offset.
     bind_res (collect_fdes base_svma entries) (\<lambda>rest. Inr ((relative_pc, fde_offset) # rest)))))"

definition try_new :: "u64 \<Rightarrow> 'g Entry list \<Rightarrow> 'g DwarfCfiIndexError + DwarfCfiIndex" where
  "try_new base_svma entries =
     bind_res (collect_fdes base_svma entries) (\<lambda>fde_pc_and_offset.
       let sorted_fdes = sort_key fst fde_pc_and_offset
       in Inr \<lparr>sorted_fde_pc_starts = map fst sorted_fdes, fde_offsets = map snd sorted_fdes\<rparr>)"

definition fde_offset_for_relative_address :: "DwarfCfiIndex \<Rightarrow> u32 \<Rightarrow> u32 option" where
  "fde_offset_for_relative_address index rel_lookup_address =
     (case binary_search (sorted_fde_pc_starts index) rel_lookup_address of
        Inl 0 \<Rightarrow> None
      | Inr i \<Rightarrow> Some (fde_offsets index ! i)
      | Inl i \<Rightarrow> Some (fde_offsets index ! (i - 1)))"

text \<open>
  The FDEs of the section, as pairs of absolute start and offset. This is what the index has
  to answer about.
\<close>

fun section_fdes :: "'g Entry list \<Rightarrow> (u64 \<times> u64) list" where
  "section_fdes [] = []"
| "section_fdes (FdeEntry (Inr fde) # entries) = fde # section_fdes entries"
| "section_fdes (_ # entries) = section_fdes entries"

lemma collect_fdes_Inr:
  "collect_fdes base entries = Inr fdes \<Longrightarrow>
     section_fdes entries = map (\<lambda>(pc, off). (base + ucast pc, ucast off)) fdes \<and>
     (\<forall>(pc, off) \<in> set (section_fdes entries). base \<le> pc)"
proof (induction base entries arbitrary: fdes rule: collect_fdes.induct)
  case (5 base pc offset entries)
  from "5.prems" obtain rel w off rest where
    sub: "checked_sub pc base = Some rel" and w: "try_unsigned (uint rel) = Some (w :: u32)"
    and off: "try_unsigned (uint offset) = Some (off :: u32)"
    and rest: "collect_fdes base entries = Inr rest" and fdes: "fdes = (w, off) # rest"
    by (auto simp: bind_res_Inr_iff)
  have "ucast w = rel" "ucast off = offset"
    by (fact try_unsigned_ucast [OF w], fact try_unsigned_ucast [OF off])
  moreover have "base + rel = pc" "base \<le> pc" using sub by (auto simp: checked_simps)
  ultimately show ?case using "5.IH" sub w off rest fdes by auto
qed (auto simp: bind_res_Inr_iff)

text \<open>The 64-bit start of an FDE is at or below an address just when its 32-bit key is.\<close>

lemma relative_pc_le:
  fixes base :: u64 and v w :: u32
  assumes "base \<le> base + ucast v" "base \<le> base + ucast w"
  shows "base + ucast v \<le> base + ucast w \<longleftrightarrow> v \<le> w"
proof -
  have no: "unat (base + ucast x) = unat base + unat x" if "base \<le> base + ucast x" for x :: u32
    using that unat_add_no_overflow [of base "ucast x"]
    by (simp add: no_olen_add_nat unat_ucast_up)
  show ?thesis using no [OF assms(1)] no [OF assms(2)] by (simp add: word_le_nat_alt)
qed

lemma index_lookup:
  assumes "sorted (map fst xs)"
  shows "case fde_offset_for_relative_address
            \<lparr>sorted_fde_pc_starts = map fst xs, fde_offsets = map snd xs\<rparr> a of
      None \<Rightarrow> \<forall>(pc, off) \<in> set xs. a < pc
    | Some off \<Rightarrow> \<exists>pc. (pc, off) \<in> set xs \<and> pc \<le> a \<and> (\<forall>(pc', _) \<in> set xs. pc' \<le> a \<longrightarrow> pc' \<le> pc)"
proof (cases "binary_search (map fst xs) a")
  case (Inr i)
  with binary_search_Inr [OF assms Inr] have "i < length xs" "fst (xs ! i) = a" by auto
  with Inr show ?thesis
    by (force simp: fde_offset_for_relative_address_def in_set_conv_nth intro: exI [of _ a])
next
  case (Inl i)
  note b = binary_search_Inl [OF assms Inl]
  show ?thesis
  proof (cases i)
    case 0
    with b(3) have "a < fst p" if "p \<in> set xs" for p
      using that by (auto simp: in_set_conv_nth)
    with Inl 0 show ?thesis by (auto simp: fde_offset_for_relative_address_def)
  next
    case (Suc j)
    with b(1,2) have j: "j < length xs" "fst (xs ! j) < a" by auto
    have "pc' \<le> fst (xs ! j)" if "(pc', off') \<in> set xs" "pc' \<le> a" for pc' off'
    proof -
      from that(1) obtain k where k: "k < length xs" "xs ! k = (pc', off')"
        by (auto simp: in_set_conv_nth)
      have "k \<le> j" using b(3) [of k] k that(2) Suc by (cases "k \<le> j") auto
      with sorted_nth_mono [OF assms, of k j] j(1) k show ?thesis by simp
    qed
    then have "\<exists>pc. (pc, snd (xs ! j)) \<in> set xs \<and> pc \<le> a \<and>
        (\<forall>(pc', _) \<in> set xs. pc' \<le> a \<longrightarrow> pc' \<le> pc)"
      using j by (intro exI [of _ "fst (xs ! j)"]) auto
    with Inl Suc j(1) show ?thesis by (simp add: fde_offset_for_relative_address_def)
  qed
qed

text \<open>
  C26: the FDE index is complete and exact. When it can be built, looking up an address of
  the module answers with the offset of an FDE of the section whose start is the greatest at
  or below the address, and answers nothing only when every FDE of the section starts above
  it.
\<close>

theorem fde_index_lookup:
  assumes "try_new base_svma entries = Inr index" "base_svma \<le> base_svma + ucast rel"
  shows "case fde_offset_for_relative_address index rel of
      None \<Rightarrow> \<forall>(pc, off) \<in> set (section_fdes entries). base_svma + ucast rel < pc
    | Some off \<Rightarrow> \<exists>pc. (pc, ucast off) \<in> set (section_fdes entries) \<and>
        pc \<le> base_svma + ucast rel \<and>
        (\<forall>(pc', _) \<in> set (section_fdes entries). pc' \<le> base_svma + ucast rel \<longrightarrow> pc' \<le> pc)"
proof -
  from assms(1) obtain fdes where fdes: "collect_fdes base_svma entries = Inr fdes"
    and index: "index = \<lparr>sorted_fde_pc_starts = map fst (sort_key fst fdes),
        fde_offsets = map snd (sort_key fst fdes)\<rparr>"
    by (auto simp: try_new_def bind_res_Inr_iff Let_def)
  define f where "f = (\<lambda>(pc :: u32, off :: u32). (base_svma + ucast pc, ucast off :: u64))"
  from collect_fdes_Inr [OF fdes] have sect: "set (section_fdes entries) = f ` set fdes"
    and low: "\<And>pc off. (pc, off) \<in> set fdes \<Longrightarrow> base_svma \<le> base_svma + ucast pc"
    by (auto simp: f_def)
  have le: "base_svma + ucast pc \<le> base_svma + ucast pc' \<longleftrightarrow> pc \<le> pc'"
    if "(pc, off) \<in> set fdes" "(pc', off') \<in> set fdes" for pc pc' off off'
    using relative_pc_le [OF low [OF that(1)] low [OF that(2)]] .
  have le_rel: "base_svma + ucast pc \<le> base_svma + ucast rel \<longleftrightarrow> pc \<le> rel"
    if "(pc, off) \<in> set fdes" for pc off
    using relative_pc_le [OF low [OF that] assms(2)] .
  have "sorted (map fst (sort_key fst fdes))" by simp
  from index_lookup [OF this, of rel] show ?thesis
    unfolding index [symmetric]
    by (cases "fde_offset_for_relative_address index rel")
      (fastforce simp: sect f_def le_rel le not_le [symmetric])+
qed

theorem fde_index_lookup_witness:
  "\<exists>index. try_new 0x1000 [CieEntry, FdeEntry (Inr (0x1200, 0x40)), FdeEntry (Inr (0x1100, 0x20))]
     = (Inr index :: unit DwarfCfiIndexError + DwarfCfiIndex) \<and>
     map_option ucast (fde_offset_for_relative_address index 0x150) = Some (0x20 :: u64)"
proof -
  let ?entries = "[CieEntry, FdeEntry (Inr (0x1200, 0x40)), FdeEntry (Inr (0x1100, 0x20))]
    :: unit Entry list"
  obtain index where i: "try_new 0x1000 ?entries = Inr index"
    by (simp add: try_new_def checked_sub_def try_unsigned_def Let_def)
  from fde_index_lookup [OF i, of "0x150"] 
  have "map_option ucast (fde_offset_for_relative_address index 0x150) = Some (0x20 :: u64)"
    by (auto split: option.splits)
  with i show ?thesis by blast
qed

end
