(* ===== verification/A64_Dwarf.thy ===== *)
theory A64_Dwarf
  imports A64_Rule Dwarf
begin

text \<open>
  DWARF unwinding on aarch64 (\<^verbatim>\<open>vendor/framehop/src/aarch64/dwarf.rs\<close>): translation of a table
  row into a cacheable rule, the generic path, and their agreement. Register numbers are those
  of the source's register names: 29 is the frame pointer, 30 the link register, 31 the stack
  pointer.
\<close>

definition A64_X29 :: Register where "A64_X29 = 29"
definition A64_X30 :: Register where "A64_X30 = 30"
definition A64_SP :: Register where "A64_SP = 31"

lemmas a64_numbers = A64_X29_def A64_X30_def A64_SP_def

definition dwarf_get_a64 :: "UnwindRegsAarch64 \<Rightarrow> Register \<Rightarrow> u64 option" where
  "dwarf_get_a64 regs register =
     (if register = A64_SP then Some (a64_sp regs)
      else if register = A64_X29 then Some (a64_fp regs)
      else if register = A64_X30 then Some (a64_lr regs)
      else None)"

fun register_rule_to_cfa_offset_a64 :: "'x RegisterRule option \<Rightarrow> ConversionError + i64 option" where
  "register_rule_to_cfa_offset_a64 None = Inr None"
| "register_rule_to_cfa_offset_a64 (Some Undefined) = Inr None"
| "register_rule_to_cfa_offset_a64 (Some SameValue) = Inr None"
| "register_rule_to_cfa_offset_a64 (Some (Offset offset)) = Inr (Some offset)"
| "register_rule_to_cfa_offset_a64 _ = Inl RegisterNotStoredRelativeToCfa"

definition storage_offset_by_8 :: "ConversionError \<Rightarrow> i64 \<Rightarrow> i64 \<Rightarrow> ConversionError + i16" where
  "storage_offset_by_8 e offset cfa_offset =
     ok_or e (try_signed (sint (offset + cfa_offset) sdiv 8))"

fun translate_sp_a64 :: "i64 \<Rightarrow> 'x RegisterRule option \<Rightarrow> 'x RegisterRule option \<Rightarrow>
    ConversionError + UnwindRuleAarch64" where
  "translate_sp_a64 offset fp_rule lr_rule =
     bind_res (ok_or SpOffsetDoesNotFit (try_unsigned (sint offset sdiv 16))) (\<lambda>sp_offset_by_16.
     bind_res (register_rule_to_cfa_offset_a64 lr_rule) (\<lambda>lr_cfa_offset.
     bind_res (register_rule_to_cfa_offset_a64 fp_rule) (\<lambda>fp_cfa_offset.
       case (lr_cfa_offset, fp_cfa_offset) of
         (None, Some _) \<Rightarrow> Inl RestoringFpButNotLr
       | (None, None) \<Rightarrow>
           (case lr_rule of
              None \<Rightarrow> Inr (UnwindRuleAarch64.OffsetSp sp_offset_by_16)
            | Some Undefined \<Rightarrow> Inr (OffsetSpIfFirstFrameOtherwiseStackEndsHere sp_offset_by_16)
            | _ \<Rightarrow> Inr (UnwindRuleAarch64.OffsetSp sp_offset_by_16))
       | (Some lr_off, None) \<Rightarrow>
           bind_res (storage_offset_by_8 LrStorageOffsetDoesNotFit offset lr_off) (\<lambda>lr_by_8.
             Inr (OffsetSpAndRestoreLr sp_offset_by_16 lr_by_8))
       | (Some lr_off, Some fp_off) \<Rightarrow>
           bind_res (storage_offset_by_8 LrStorageOffsetDoesNotFit offset lr_off) (\<lambda>lr_by_8.
           bind_res (storage_offset_by_8 FpStorageOffsetDoesNotFit offset fp_off) (\<lambda>fp_by_8.
             Inr (OffsetSpAndRestoreFpAndLr sp_offset_by_16 fp_by_8 lr_by_8))))))"

fun translate_fp_a64 :: "i64 \<Rightarrow> 'x RegisterRule option \<Rightarrow> 'x RegisterRule option \<Rightarrow>
    ConversionError + UnwindRuleAarch64" where
  "translate_fp_a64 offset fp_rule lr_rule =
     bind_res (register_rule_to_cfa_offset_a64 lr_rule) (\<lambda>lr_cfa_offset.
     bind_res (ok_or FramePointerRuleDoesNotRestoreLr lr_cfa_offset) (\<lambda>lr_off.
     bind_res (register_rule_to_cfa_offset_a64 fp_rule) (\<lambda>fp_cfa_offset.
     bind_res (ok_or FramePointerRuleDoesNotRestoreFp fp_cfa_offset) (\<lambda>fp_off.
       if offset = 16 \<and> fp_off = - 16 \<and> lr_off = - 8 then Inr UnwindRuleAarch64.UseFramePointer
       else
         bind_res (ok_or SpOffsetFromFpDoesNotFit (try_unsigned (sint offset sdiv 8))) (\<lambda>sp_by_8.
         bind_res (storage_offset_by_8 LrStorageOffsetDoesNotFit offset lr_off) (\<lambda>lr_by_8.
         bind_res (storage_offset_by_8 FpStorageOffsetDoesNotFit offset fp_off) (\<lambda>fp_by_8.
           Inr (UseFramepointerWithOffsets sp_by_8 fp_by_8 lr_by_8))))))))"

fun translate_into_unwind_rule_a64 ::
    "'x CfaRule \<Rightarrow> 'x RegisterRule option \<Rightarrow> 'x RegisterRule option \<Rightarrow>
     ConversionError + UnwindRuleAarch64" where
  "translate_into_unwind_rule_a64 (RegisterAndOffset register offset) fp_rule lr_rule =
     (if register = A64_SP then translate_sp_a64 offset fp_rule lr_rule
      else if register = A64_X29 then translate_fp_a64 offset fp_rule lr_rule
      else Inl CfaIsOffsetFromUnknownRegister)"
| "translate_into_unwind_rule_a64 (CfaExpression _) fp_rule lr_rule = Inl CfaIsExpression"

text \<open>
  The registers the generic path recovers: in the first frame a rule that cannot be evaluated
  keeps the register, in a caller frame it is an error.
\<close>

definition recover_a64 :: "bool \<Rightarrow> 'e \<Rightarrow> u64 \<Rightarrow> u64 option \<Rightarrow> 'e + u64" where
  "recover_a64 is_first_frame e val r =
     (case r of Some v \<Rightarrow> Inr v | None \<Rightarrow> if is_first_frame then Inr val else Inl e)"

definition generic_unwind_frame_a64 :: "'x gimli_expr \<Rightarrow> 'x UnwindTableRow \<Rightarrow> UnwindRegsAarch64 \<Rightarrow>
    bool \<Rightarrow> read_stack \<Rightarrow>
    ('g DwarfUnwinderError + UnwindRuleAarch64 UnwindResult) \<times> UnwindRegsAarch64" where
  "generic_unwind_frame_a64 parse row regs is_first_frame read =
     (let get = dwarf_get_a64 regs;
          rule_value = (\<lambda>reg cfa val. eval_register_rule parse (row_register row reg) cfa val get read) in
      case eval_cfa_rule parse (row_cfa row) get read of
        None \<Rightarrow> (Inl CouldNotRecoverCfa, regs)
      | Some cfa \<Rightarrow>
          if \<not> is_first_frame \<and> cfa \<le> a64_sp regs then (Inl StackPointerMovedBackwards, regs)
          else case recover_a64 is_first_frame CouldNotRecoverFramePointer (a64_fp regs)
                      (rule_value A64_X29 cfa (a64_fp regs)) of
                 Inl e \<Rightarrow> (Inl e, regs)
               | Inr fp \<Rightarrow>
                   (case recover_a64 is_first_frame CouldNotRecoverReturnAddress (a64_lr regs)
                           (rule_value A64_X30 cfa (a64_lr regs)) of
                      Inl e \<Rightarrow> (Inl e, regs)
                    | Inr lr \<Rightarrow>
                        (Inr (Uncacheable lr),
                         a64_set_lr lr (a64_set_sp cfa (a64_set_fp fp regs)))))"

text \<open>\<open>unwind_frame\<close> ignores whether the frame is a signal frame.\<close>

definition unwind_frame_a64 :: "'x gimli_expr \<Rightarrow> 'x UnwindTableRow \<Rightarrow> UnwindRegsAarch64 \<Rightarrow>
    bool \<Rightarrow> bool \<Rightarrow> read_stack \<Rightarrow>
    ('g DwarfUnwinderError + UnwindRuleAarch64 UnwindResult) \<times> UnwindRegsAarch64" where
  "unwind_frame_a64 parse row regs is_first_frame is_signal_frame read =
     (case translate_into_unwind_rule_a64 (row_cfa row) (row_register row A64_X29)
             (row_register row A64_X30) of
        Inr rule \<Rightarrow> (Inr (ExecRule rule), regs)
      | Inl _ \<Rightarrow> generic_unwind_frame_a64 parse row regs is_first_frame read)"

definition rule_if_uncovered_by_fde_a64 :: UnwindRuleAarch64 where
  "rule_if_uncovered_by_fde_a64 = NoOpIfFirstFrameOtherwiseFp"

section \<open>The translated rule is the generic evaluation\<close>

text \<open>A register rule of a regular row, whose CFA is \<open>offset\<close> above its base register.\<close>

fun register_regular :: "i64 \<Rightarrow> 'x RegisterRule option \<Rightarrow> bool" where
  "register_regular offset (Some (Offset slot_off)) =
     (8 dvd sint (offset + slot_off) \<and> sint slot_off \<le> 0)"
| "register_regular offset _ = True"

text \<open>
  Loading a saved register: what the rule loads from its base register is what the row's
  rule evaluates to at the CFA.
\<close>

lemma load_a64_agrees:
  assumes cfa: "add_cfa_offset base offset = Some cfa" "0 \<le> sint offset" "sint offset < 2 ^ 20"
    and slot: "storage_offset_by_8 e offset slot_off = Inr by_8"
    and reg: "register_regular offset (Some (Offset slot_off) :: 'x RegisterRule option)"
    and load: "load_a64 read base by_8 = Inr v"
  shows "Option.bind (add_cfa_offset cfa slot_off) read = Some v"
proof -
  from slot have s: "try_signed (sint (offset + slot_off) sdiv 8) = Some by_8"
    by (simp add: storage_offset_by_8_def)
  have v: "scast by_8 * 8 = offset + slot_off" "- (2 ^ 15 * 8) \<le> sint (offset + slot_off)"
    "sint (offset + slot_off) < 2 ^ 15 * 8"
    using scaled_signed [OF s] reg by simp_all
  have "checked_add_signed base (scast by_8 * 8) = add_cfa_offset cfa slot_off"
    unfolding v(1) using cfa_slot_agrees [OF cfa v(2,3)] reg by simp
  with load show ?thesis by (auto simp: load_a64_def bind_res_Inr_iff)
qed

text \<open>When a register counts as recovered, and from which rules it is.\<close>

definition recovered :: "bool \<Rightarrow> u64 \<Rightarrow> u64 option \<Rightarrow> u64 \<Rightarrow> bool" where
  "recovered f val r v \<longleftrightarrow> r = Some v \<or> f \<and> r = None \<and> v = val"

lemma recover_a64_Inr: "recovered f val r v \<Longrightarrow> recover_a64 f e val r = Inr v"
  by (auto simp: recover_a64_def recovered_def)

text \<open>A kept register evaluates to its value, or to nothing, which the first frame ignores.\<close>

lemma kept_register_a64:
  assumes "register_rule_to_cfa_offset_a64 rule = Inr None" "f \<or> rule = Some SameValue"
  shows "recovered f val (eval_register_rule parse rule cfa val get read) val"
  using assms by (cases rule rule: register_rule_to_cfa_offset_a64.cases) (auto simp: recovered_def)

lemma cfa_offset_a64_Some:
  "register_rule_to_cfa_offset_a64 rule = Inr (Some off) \<longleftrightarrow> rule = Some (Offset off)"
  by (cases rule rule: register_rule_to_cfa_offset_a64.cases) auto

lemma generic_of_frame_a64:
  assumes "eval_cfa_rule parse (row_cfa row) (dwarf_get_a64 regs) read = Some cfa"
    and "recovered f (a64_fp regs) (eval_register_rule parse (row_register row A64_X29) cfa
      (a64_fp regs) (dwarf_get_a64 regs) read) fp"
    and "recovered f (a64_lr regs) (eval_register_rule parse (row_register row A64_X30) cfa
      (a64_lr regs) (dwarf_get_a64 regs) read) lr"
    and "rule_frame_a64 rule f regs read = Inr (Some (lr, cfa, fp))"
    and "exec_a64 rule f regs read = (Inr (Some ra), regs')"
  shows "generic_unwind_frame_a64 parse row regs f read = (Inr (Uncacheable lr), regs') \<and>
    ra = strip_ptr_auth (a64_lr_mask regs) lr"
proof -
  from assms(4,5) have "ra = strip_ptr_auth (a64_lr_mask regs) lr"
    "regs' = a64_set_fp fp (a64_set_sp cfa (a64_set_lr lr regs))" "f \<or> a64_sp regs < cfa"
    by (auto simp: exec_a64_Some_iff less_le dest: rule_frame_a64_sp)
  moreover have "a64_set_fp fp (a64_set_sp cfa (a64_set_lr lr regs)) =
      a64_set_lr lr (a64_set_sp cfa (a64_set_fp fp regs))"
    by (simp add: a64_set_sp_def a64_set_fp_def a64_set_lr_def)
  ultimately show ?thesis
    using assms(1) by (simp add: generic_unwind_frame_a64_def Let_def not_le recover_a64_Inr [OF assms(2)]
        recover_a64_Inr [OF assms(3)])
qed

lemma translate_sp_a64_agrees:
  assumes t: "translate_sp_a64 offset fp_rule lr_rule = Inr rule"
    and cfa: "add_cfa_offset (a64_sp regs) offset = Some cfa"
    and aligned: "16 dvd sint offset" "register_regular offset fp_rule" "register_regular offset lr_rule"
    and fp_kept: "f \<or> fp_rule \<notin> {None, Some Undefined}"
    and ok: "rule_frame_a64 rule f regs read = Inr (Some (lr, sp, fp))"
  shows "sp = cfa \<and>
    recovered f (a64_fp regs) (eval_register_rule parse fp_rule cfa (a64_fp regs) get read) fp \<and>
    recovered f (a64_lr regs) (eval_register_rule parse lr_rule cfa (a64_lr regs) get read) lr"
proof -
  from t obtain w where w: "try_unsigned (sint offset sdiv 16) = Some (w :: u16)"
    by (auto simp: bind_res_Inr_iff)
  have off: "ucast w * 16 = offset" "0 \<le> sint offset" "sint offset < 2 ^ 20"
    using scaled_unsigned [OF w aligned(1)] by simp_all
  have sp: "a64_sp regs + offset = cfa" using add_cfa_offset_word [OF cfa] by simp
  have fp_same: "f \<or> fp_rule = Some SameValue" if "register_rule_to_cfa_offset_a64 fp_rule = Inr None"
    using that fp_kept by (cases fp_rule rule: register_rule_to_cfa_offset_a64.cases) auto
  consider (none) "register_rule_to_cfa_offset_a64 lr_rule = Inr None"
      "register_rule_to_cfa_offset_a64 fp_rule = Inr None"
      "rule = UnwindRuleAarch64.OffsetSp w \<or> rule = OffsetSpIfFirstFrameOtherwiseStackEndsHere w"
    | (lr) lr_off lr_by_8 where "lr_rule = Some (Offset lr_off)"
      "register_rule_to_cfa_offset_a64 fp_rule = Inr None"
      "storage_offset_by_8 LrStorageOffsetDoesNotFit offset lr_off = Inr lr_by_8"
      "rule = OffsetSpAndRestoreLr w lr_by_8"
    | (both) lr_off lr_by_8 fp_off fp_by_8 where "lr_rule = Some (Offset lr_off)"
      "fp_rule = Some (Offset fp_off)"
      "storage_offset_by_8 LrStorageOffsetDoesNotFit offset lr_off = Inr lr_by_8"
      "storage_offset_by_8 FpStorageOffsetDoesNotFit offset fp_off = Inr fp_by_8"
      "rule = OffsetSpAndRestoreFpAndLr w fp_by_8 lr_by_8"
    using t w by (auto simp: bind_res_Inr_iff cfa_offset_a64_Some split: option.splits RegisterRule.splits)
  then show ?thesis
  proof cases
    case none
    with ok have f and fr: "lr = a64_lr regs" "fp = a64_fp regs" "sp = cfa"
      using off sp by (auto simp: offset_sp_a64_Inr checked_simps split: if_splits)
    with kept_register_a64 [OF none(1), of f] kept_register_a64 [OF none(2), of f] show ?thesis
      by simp
  next
    case lr
    with ok have fr: "load_a64 read (a64_sp regs) lr_by_8 = Inr lr" "fp = a64_fp regs" "sp = cfa"
      using off sp by (auto simp: bind_res_Inr_iff Let_def checked_simps)
    from load_a64_agrees [OF cfa off(2,3) lr(3) _ fr(1)] aligned(3) lr(1)
    have "Option.bind (add_cfa_offset cfa lr_off) read = Some lr" by blast
    with fr kept_register_a64 [OF lr(2) fp_same [OF lr(2)]] lr(1) show ?thesis
      by (simp add: recovered_def [of _ "a64_lr regs"])
  next
    case both
    with ok have fr: "load_a64 read (a64_sp regs) lr_by_8 = Inr lr"
      "load_a64 read (a64_sp regs) fp_by_8 = Inr fp" "sp = cfa"
      using off sp by (auto simp: bind_res_Inr_iff Let_def checked_simps)
    from load_a64_agrees [OF cfa off(2,3) both(3) _ fr(1)]
      load_a64_agrees [OF cfa off(2,3) both(4) _ fr(2)] aligned(2,3) both(1,2)
    have "Option.bind (add_cfa_offset cfa lr_off) read = Some lr"
      "Option.bind (add_cfa_offset cfa fp_off) read = Some fp" by blast+
    with fr(3) both(1,2) show ?thesis by (simp add: recovered_def)
  qed
qed

lemma translate_fp_a64_agrees:
  assumes t: "translate_fp_a64 offset fp_rule lr_rule = Inr rule"
    and cfa: "add_cfa_offset (a64_fp regs) offset = Some cfa"
    and aligned: "8 dvd sint offset" "register_regular offset fp_rule" "register_regular offset lr_rule"
    and ok: "rule_frame_a64 rule f regs read = Inr (Some (lr, sp, fp))"
  shows "sp = cfa \<and>
    recovered f (a64_fp regs) (eval_register_rule parse fp_rule cfa (a64_fp regs) get read) fp \<and>
    recovered f (a64_lr regs) (eval_register_rule parse lr_rule cfa (a64_lr regs) get read) lr"
proof -
  have base: "a64_fp regs + offset = cfa" using add_cfa_offset_word [OF cfa] by simp
  from t obtain lr_off fp_off where
    rules: "lr_rule = Some (Offset lr_off)" "fp_rule = Some (Offset fp_off)"
    by (auto simp: bind_res_Inr_iff cfa_offset_a64_Some)
  have "sp = cfa \<and> Option.bind (add_cfa_offset cfa fp_off) read = Some fp \<and>
      Option.bind (add_cfa_offset cfa lr_off) read = Some lr"
  proof (cases "offset = 16 \<and> fp_off = - 16 \<and> lr_off = - 8")
    case True
    with t rules have "rule = UnwindRuleAarch64.UseFramePointer" by simp
    with ok have fr: "checked_add (a64_fp regs) 16 = Some sp" "read (a64_fp regs + 8) = Some lr"
      "read (a64_fp regs) = Some fp"
      by (auto simp: bind_res_Inr_iff read_frame_record_a64_Inr check_frame_a64_Inr)
    have "uint (a64_fp regs) < 2 ^ 63" "uint (a64_fp regs) + 16 < 2 ^ 63"
      using cfa True by (auto simp: add_cfa_offset_Some_iff)
    then have "uint (a64_fp regs + 16) = uint (a64_fp regs) + 16"
      using uint_of_int_small [of "uint (a64_fp regs) + 16", where 'a = 64] by simp
    then have "add_cfa_offset (a64_fp regs + 16) (- 16) = Some (a64_fp regs)"
      "add_cfa_offset (a64_fp regs + 16) (- 8) = Some (a64_fp regs + 8)"
      using \<open>uint (a64_fp regs) + 16 < 2 ^ 63\<close> by (simp_all add: add_cfa_offset_Some_iff)
    with fr True base show ?thesis by (auto simp: checked_simps)
  next
    case False
    with t rules obtain w lr_by_8 fp_by_8 where
      w: "try_unsigned (sint offset sdiv 8) = Some (w :: u16)"
      and s: "storage_offset_by_8 LrStorageOffsetDoesNotFit offset lr_off = Inr lr_by_8"
        "storage_offset_by_8 FpStorageOffsetDoesNotFit offset fp_off = Inr fp_by_8"
      and rule: "rule = UseFramepointerWithOffsets w fp_by_8 lr_by_8"
      by (auto simp: bind_res_Inr_iff)
    have off: "ucast w * 8 = offset" "0 \<le> sint offset" "sint offset < 2 ^ 20"
      using scaled_unsigned [OF w aligned(1)] by simp_all
    from ok rule have fr: "load_a64 read (a64_fp regs) lr_by_8 = Inr lr"
      "load_a64 read (a64_fp regs) fp_by_8 = Inr fp" "sp = cfa"
      using off base by (auto simp: bind_res_Inr_iff Let_def checked_simps check_frame_a64_Inr)
    from load_a64_agrees [OF cfa off(2,3) s(1) _ fr(1)]
      load_a64_agrees [OF cfa off(2,3) s(2) _ fr(2)] aligned(2,3) rules fr(3)
    show ?thesis by blast
  qed
  with rules show ?thesis by (simp add: recovered_def)
qed

text \<open>
  A regular aarch64 row: the CFA an aligned offset from its register (sixteen bytes from the
  stack pointer, eight from the frame pointer), saved registers in aligned slots below the
  CFA, and in a caller frame a rule for the frame pointer.
\<close>

fun row_regular_a64 :: "bool \<Rightarrow> 'x UnwindTableRow \<Rightarrow> bool" where
  "row_regular_a64 is_first_frame row =
     (case row_cfa row of
        RegisterAndOffset reg offset \<Rightarrow>
          (if reg = A64_SP then 16 else 8) dvd sint offset \<and>
          register_regular offset (row_register row A64_X29) \<and>
          register_regular offset (row_register row A64_X30) \<and>
          (is_first_frame \<or> row_register row A64_X29 \<notin> {None, Some Undefined})
      | CfaExpression _ \<Rightarrow> True)"


text \<open>The row \<open>CFA = fp + 16, fp = [CFA - 16], lr = [CFA - 8]\<close> in a stack that holds a record.\<close>

definition frame_row_a64 :: "unit UnwindTableRow" where
  "frame_row_a64 = \<lparr>row_cfa = RegisterAndOffset A64_X29 16,
     row_register = (\<lambda>r. if r = A64_X29 then Some (Offset (- 16))
                         else if r = A64_X30 then Some (Offset (- 8)) else None)\<rparr>"


end
