(* ===== verification/Instruction_Analysis.thy ===== *)
theory Instruction_Analysis
  imports Core_Types
begin

text \<open>
  The trait \<^verbatim>\<open>InstructionAnalysis\<close> (\<^verbatim>\<open>vendor/framehop/src/instruction_analysis.rs\<close>): from the
  bytes of a function and an offset into them, decide whether the offset lies in a prologue or
  an epilogue, and with which rule to unwind from there. An analysis returns
  \<open>'rule option option\<close>: the outer \<open>None\<close> is a panic (an index out of range), \<open>Some None\<close> is the
  source's \<open>None\<close>. The trait documents that the caller guarantees
  \<^verbatim>\<open>pc_offset <= text_bytes.len()\<close>; the locale below states what an implementation gives for it.
\<close>

type_synonym 'rule analysis = "u8 list \<Rightarrow> usize \<Rightarrow> 'rule option option"

text \<open>\<open>slice.split_at(mid)\<close>, which panics beyond the end.\<close>

definition split_at :: "'a list \<Rightarrow> nat \<Rightarrow> ('a list \<times> 'a list) option" where
  "split_at xs n = (if n \<le> length xs then Some (take n xs, drop n xs) else None)"

lemma split_at_append [simp]: "split_at (xs @ ys) (length xs) = Some (xs, ys)"
  by (simp add: split_at_def)

lemma split_at_None_iff: "split_at xs n = None \<longleftrightarrow> length xs < n"
  by (simp add: split_at_def)

definition rule_from_instruction_analysis :: "'rule analysis \<Rightarrow> 'rule analysis \<Rightarrow> 'rule analysis" where
  "rule_from_instruction_analysis prologue epilogue text_bytes pc_offset =
     (case prologue text_bytes pc_offset of
        None \<Rightarrow> None
      | Some (Some rule) \<Rightarrow> Some (Some rule)
      | Some None \<Rightarrow> epilogue text_bytes pc_offset)"

locale instruction_analysis =
  fixes prologue epilogue :: "'rule analysis" and wf :: "'rule \<Rightarrow> bool"
  assumes prologue_total: "pc_offset \<le> length text_bytes \<Longrightarrow> prologue text_bytes pc_offset \<noteq> None"
    and epilogue_total: "pc_offset \<le> length text_bytes \<Longrightarrow> epilogue text_bytes pc_offset \<noteq> None"
    and prologue_wf: "prologue text_bytes pc_offset = Some (Some rule) \<Longrightarrow> wf rule"
    and epilogue_wf: "epilogue text_bytes pc_offset = Some (Some rule) \<Longrightarrow> wf rule"
begin

text \<open>Within the bounds the caller guarantees, the analysis returns; its rules are well formed.\<close>

lemma analysis_total:
  "pc_offset \<le> length text_bytes \<Longrightarrow>
     \<exists>r. rule_from_instruction_analysis prologue epilogue text_bytes pc_offset = Some r"
  using prologue_total [of pc_offset text_bytes] epilogue_total [of pc_offset text_bytes]
  by (auto simp: rule_from_instruction_analysis_def split: option.splits)

lemma analysis_wf:
  "rule_from_instruction_analysis prologue epilogue text_bytes pc_offset = Some (Some rule) \<Longrightarrow> wf rule"
  by (auto simp: rule_from_instruction_analysis_def split: option.splits
      intro: prologue_wf epilogue_wf)

end

lemma analysis_prologue:
  "prologue text_bytes pc_offset = Some (Some rule) \<Longrightarrow>
     rule_from_instruction_analysis prologue epilogue text_bytes pc_offset = Some (Some rule)"
  by (simp add: rule_from_instruction_analysis_def)

lemma analysis_epilogue:
  "prologue text_bytes pc_offset = Some None \<Longrightarrow>
     rule_from_instruction_analysis prologue epilogue text_bytes pc_offset = epilogue text_bytes pc_offset"
  by (simp add: rule_from_instruction_analysis_def)

end
