(* ===== verification/A64_Insn.thy ===== *)
theory A64_Insn
  imports A64_Rule Instruction_Analysis
begin

text \<open>
  aarch64 instruction words: the fields the detectors of
  \<^verbatim>\<open>vendor/framehop/src/aarch64/instruction_analysis/\<close> extract, and, as a reference, the encodings
  and effects of the instructions that prologues and epilogues are made of.
\<close>

section \<open>Instruction fields\<close>

text \<open>
  The immediates: \<open>((((word >> 15) & 0x7f) as i16) << 9) >> 6) as i32\<close>, where the right shift is
  arithmetic, and the twelve-bit one with its optional shift by 12.
\<close>

definition imm7_field :: "u32 \<Rightarrow> i32" where
  "imm7_field word =
     scast (signed_drop_bit 6 (push_bit 9 (ucast (drop_bit 15 word AND 0b1111111) :: i16)))"

definition imm12_field :: "u32 \<Rightarrow> i32" where
  "imm12_field word =
     (let imm12 = drop_bit 10 word AND 0b111111111111;
          shift_immediate_by_12 = (drop_bit 22 word AND 0b1 = 0b1)
      in if shift_immediate_by_12 then push_bit 12 imm12 else imm12)"

text \<open>\<open>u32::from_le_bytes([b[0], b[1], b[2], b[3]])\<close>, used where four bytes are known to be there.\<close>

definition read_insn :: "u8 list \<Rightarrow> u32" where
  "read_insn bytes = from_le_bytes (take 4 bytes)"

section \<open>Reference encodings\<close>

text \<open>
  The instructions and their A64 encodings. Pairs are loaded and stored relative to the stack
  pointer (\<open>Rn = 31\<close>) with a scaled seven-bit offset; \<open>add\<close> and \<open>sub\<close> move the stack pointer by a
  twelve-bit immediate, optionally shifted by 12.
\<close>

datatype IndexMode = PostIndex | SignedOffset | PreIndex

datatype A64Instr =
    ILdp IndexMode "7 word" "5 word" "5 word" \<comment> \<open>\<open>imm7\<close>, \<open>Rt2\<close>, \<open>Rt\<close>\<close>
  | IStp IndexMode "7 word" "5 word" "5 word"
  | IAddSp bool "12 word" \<comment> \<open>\<open>sh\<close>, \<open>imm12\<close>\<close>
  | ISubSp bool "12 word"
  | IPacibsp
  | IRet

fun ldp_base :: "IndexMode \<Rightarrow> u32" where
  "ldp_base PostIndex = 0xa8c00000"
| "ldp_base SignedOffset = 0xa9400000"
| "ldp_base PreIndex = 0xa9c00000"

fun stp_base :: "IndexMode \<Rightarrow> u32" where
  "stp_base PostIndex = 0xa8800000"
| "stp_base SignedOffset = 0xa9000000"
| "stp_base PreIndex = 0xa9800000"

definition pack_pair :: "u32 \<Rightarrow> 7 word \<Rightarrow> 5 word \<Rightarrow> 5 word \<Rightarrow> u32" where
  "pack_pair base imm rt2 rt =
     base OR push_bit 15 (ucast imm) OR push_bit 10 (ucast rt2) OR push_bit 5 (mask 5) OR ucast rt"

definition pack_imm12 :: "u32 \<Rightarrow> 12 word \<Rightarrow> u32" where
  "pack_imm12 base imm = base OR push_bit 10 (ucast imm) OR push_bit 5 (mask 5) OR mask 5"

fun encode_a64 :: "A64Instr \<Rightarrow> u32" where
  "encode_a64 (ILdp mode imm rt2 rt) = pack_pair (ldp_base mode) imm rt2 rt"
| "encode_a64 (IStp mode imm rt2 rt) = pack_pair (stp_base mode) imm rt2 rt"
| "encode_a64 (IAddSp sh imm) = pack_imm12 (if sh then 0x91400000 else 0x91000000) imm"
| "encode_a64 (ISubSp sh imm) = pack_imm12 (if sh then 0xd1400000 else 0xd1000000) imm"
| "encode_a64 IPacibsp = 0xd503237f"
| "encode_a64 IRet = 0xd65f03c0"

text \<open>What the shifts and masks of the detectors read out of such a word.\<close>

lemma bit_ucast_small: "bit (ucast w :: u32) n \<longleftrightarrow> bit w n" if "LENGTH('a) \<le> 32" for w :: "'a::len word"
  using that by (auto simp: bit_simps dest: bit_imp_le_length)

lemma pack_pair_high: "22 \<le> n \<Longrightarrow> drop_bit n (pack_pair base imm rt2 rt) = drop_bit n base"
  by (rule bit_word_eqI)
    (auto simp: pack_pair_def bit_simps bit_ucast_small dest: bit_imp_le_length)

lemma pack_imm12_high: "22 \<le> n \<Longrightarrow> drop_bit n (pack_imm12 base imm) = drop_bit n base"
  by (rule bit_word_eqI)
    (auto simp: pack_imm12_def bit_simps bit_ucast_small dest: bit_imp_le_length)

lemma base_bits: "take_bit 22 base = 0 \<Longrightarrow> bit base n \<Longrightarrow> 22 \<le> n" for base :: u32
  by (metis bit_0_eq bit_take_bit_iff bot_apply bot_bool_def not_le)

lemma pack_pair_fields:
  assumes "take_bit 22 base = 0"
  shows "take_bit 5 (pack_pair base imm rt2 rt) = ucast rt"
    "take_bit 5 (drop_bit 5 (pack_pair base imm rt2 rt)) = mask 5"
    "take_bit 5 (drop_bit 10 (pack_pair base imm rt2 rt)) = ucast rt2"
    "take_bit 7 (drop_bit 15 (pack_pair base imm rt2 rt)) = ucast imm"
  by (rule bit_word_eqI, auto simp: pack_pair_def bit_simps bit_ucast_small
      dest: bit_imp_le_length base_bits [OF assms])+

lemma pack_imm12_fields:
  assumes "take_bit 22 base = 0"
  shows "take_bit 5 (pack_imm12 base imm) = mask 5"
    "take_bit 5 (drop_bit 5 (pack_imm12 base imm)) = mask 5"
    "take_bit 12 (drop_bit 10 (pack_imm12 base imm)) = ucast imm"
  by (rule bit_word_eqI, auto simp: pack_imm12_def bit_simps bit_ucast_small
      dest: bit_imp_le_length base_bits [OF assms])+

lemma mask_numerals [simp]: "(mask 5 :: u32) = 31" "(mask 7 :: u32) = 127" "(mask 12 :: u32) = 4095"
  by (simp_all add: mask_eq_exp_minus_1)

lemma and_numerals:
  "w AND 31 = take_bit 5 w" "w AND 127 = take_bit 7 w" "w AND 4095 = take_bit 12 w" for w :: u32
  by (simp_all add: take_bit_eq_mask)

lemma base_low [simp]:
  "take_bit 22 (ldp_base mode) = 0" "take_bit 22 (stp_base mode) = 0"
  "take_bit 22 (0x91400000 :: u32) = 0" "take_bit 22 (0x91000000 :: u32) = 0"
  "take_bit 22 (0xd1400000 :: u32) = 0" "take_bit 22 (0xd1000000 :: u32) = 0"
  by (cases mode; simp)+

lemma signed_scaled_7:
  fixes imm :: "7 word"
  shows "(scast (signed_drop_bit 6 (push_bit 9 (ucast (ucast imm :: u32) :: i16))) :: i32) =
    word_of_int (8 * sint imm)"
proof -
  have "sint (push_bit 9 (ucast (ucast imm :: u32) :: i16)) = push_bit 9 (sint imm)"
    by (rule bit_eqI) (auto simp: bit_simps min_def not_le not_less dest: bit_imp_le_length)
  then have "sint (signed_drop_bit 6 (push_bit 9 (ucast (ucast imm :: u32) :: i16))) =
      drop_bit 6 (push_bit 9 (sint imm))"
    by (simp add: sint_signed_drop_bit_eq)
  also have "\<dots> = 8 * sint imm"
    by (simp add: push_bit_eq_mult drop_bit_eq_div)
  finally show ?thesis by (simp only: scast_eq)
qed

lemma imm7_field_pack:
  "take_bit 22 base = 0 \<Longrightarrow> imm7_field (pack_pair base imm rt2 rt) = word_of_int (8 * sint imm)"
  by (simp add: imm7_field_def and_numerals pack_pair_fields signed_scaled_7)

definition imm12_value :: "bool \<Rightarrow> 12 word \<Rightarrow> int" where
  "imm12_value sh imm = (if sh then 4096 * uint imm else uint imm)"

lemma imm12_field_pack:
  assumes "take_bit 22 base = 0" "(drop_bit 22 base AND 1 = 1) = sh"
  shows "imm12_field (pack_imm12 base imm) = word_of_int (imm12_value sh imm)"
proof -
  have "imm12_field (pack_imm12 base imm) = (if sh then push_bit 12 (ucast imm) else ucast imm)"
    unfolding imm12_field_def Let_def and_numerals pack_imm12_fields [OF assms(1)]
      pack_imm12_high [OF order.refl] assms(2) ..
  moreover have "push_bit 12 x = 4096 * x" for x :: u32
    by (simp add: push_bit_eq_mult)
  ultimately show ?thesis
    by (cases sh) (simp_all only: imm12_value_def ucast_eq of_int_mult of_int_numeral if_True if_False)
qed

lemma pack_pair_neq: "drop_bit 22 base \<noteq> drop_bit 22 c \<Longrightarrow> pack_pair base imm rt2 rt \<noteq> c"
  using pack_pair_high [of 22] by auto

lemma pack_imm12_neq: "drop_bit 22 base \<noteq> drop_bit 22 c \<Longrightarrow> pack_imm12 base imm \<noteq> c"
  using pack_imm12_high [of 22] by auto

lemmas pack_simps = pack_pair_high pack_imm12_high pack_pair_fields pack_imm12_fields
  pack_pair_neq pack_imm12_neq

section \<open>Reference semantics\<close>

text \<open>
  The machine state the instructions act on. Register 31 reads as zero and ignores writes in
  loads and stores. \<open>pacibsp\<close> signs the link register; the signing function is an argument.
\<close>

record A64State =
  st_sp :: u64
  st_x :: "5 word \<Rightarrow> u64"
  st_mem :: read_stack

definition get_x :: "A64State \<Rightarrow> 5 word \<Rightarrow> u64" where
  "get_x s reg = (if reg = 31 then 0 else st_x s reg)"

definition set_x :: "5 word \<Rightarrow> u64 \<Rightarrow> A64State \<Rightarrow> A64State" where
  "set_x reg v s = (if reg = 31 then s else s\<lparr>st_x := (st_x s)(reg := v)\<rparr>)"

abbreviation pair_address :: "IndexMode \<Rightarrow> 7 word \<Rightarrow> u64 \<Rightarrow> u64" where
  "pair_address mode imm sp \<equiv> (if mode = PostIndex then sp else sp + word_of_int (8 * sint imm))"

abbreviation pair_writeback :: "IndexMode \<Rightarrow> 7 word \<Rightarrow> u64 \<Rightarrow> u64" where
  "pair_writeback mode imm sp \<equiv> (if mode = SignedOffset then sp else sp + word_of_int (8 * sint imm))"

fun a64_step :: "(u64 \<Rightarrow> u64 \<Rightarrow> u64) \<Rightarrow> A64Instr \<Rightarrow> A64State \<Rightarrow> A64State option" where
  "a64_step pac (ILdp mode imm rt2 rt) s =
     (let addr = pair_address mode imm (st_sp s) in
      case (st_mem s addr, st_mem s (addr + 8)) of
        (Some v, Some v2) \<Rightarrow>
          Some ((set_x rt2 v2 (set_x rt v s))\<lparr>st_sp := pair_writeback mode imm (st_sp s)\<rparr>)
      | _ \<Rightarrow> None)"
| "a64_step pac (IStp mode imm rt2 rt) s =
     (let addr = pair_address mode imm (st_sp s) in
      Some (s\<lparr>st_mem := (st_mem s)(addr \<mapsto> get_x s rt, addr + 8 \<mapsto> get_x s rt2),
              st_sp := pair_writeback mode imm (st_sp s)\<rparr>))"
| "a64_step pac (IAddSp sh imm) s = Some (s\<lparr>st_sp := st_sp s + word_of_int (imm12_value sh imm)\<rparr>)"
| "a64_step pac (ISubSp sh imm) s = Some (s\<lparr>st_sp := st_sp s - word_of_int (imm12_value sh imm)\<rparr>)"
| "a64_step pac IPacibsp s = Some (s\<lparr>st_x := (st_x s)(30 := pac (st_x s 30) (st_sp s))\<rparr>)"
| "a64_step pac IRet s = Some s"

fun a64_run :: "(u64 \<Rightarrow> u64 \<Rightarrow> u64) \<Rightarrow> A64Instr list \<Rightarrow> A64State \<Rightarrow> A64State option" where
  "a64_run pac [] s = Some s"
| "a64_run pac (i # prog) s = Option.bind (a64_step pac i s) (a64_run pac prog)"

definition code_bytes_a64 :: "A64Instr list \<Rightarrow> u8 list" where
  "code_bytes_a64 prog = concat (map (to_le_bytes 4 \<circ> encode_a64) prog)"

text \<open>The registers the unwinder is started with in such a state.\<close>

definition regs_of :: "PtrAuthMask \<Rightarrow> A64State \<Rightarrow> UnwindRegsAarch64" where
  "regs_of m s = a64_new_with_ptr_auth_mask m (st_x s 30) (st_sp s) (st_x s 29)"

lemma code_bytes_a64_simps [simp]:
  "code_bytes_a64 [] = []"
  "code_bytes_a64 (i # prog) = to_le_bytes 4 (encode_a64 i) @ code_bytes_a64 prog"
  "code_bytes_a64 (prog @ prog') = code_bytes_a64 prog @ code_bytes_a64 prog'"
  by (simp_all add: code_bytes_a64_def)

lemma length_code_bytes_a64: "length (code_bytes_a64 prog) = 4 * length prog"
  by (induction prog) simp_all

lemma read_insn_encode [simp]: "read_insn (to_le_bytes 4 (w :: u32) @ bytes) = w"
  by (simp add: read_insn_def from_to_le_bytes)

lemma set_x_simps [simp]:
  "st_sp (set_x reg v s) = st_sp s" "st_mem (set_x reg v s) = st_mem s"
  "reg' \<noteq> 31 \<Longrightarrow> st_x (set_x reg v s) reg' = (if reg = reg' then v else st_x s reg')"
  by (simp_all add: set_x_def)

section \<open>Where an epilogue restores from\<close>

text \<open>
  The offsets from the initial stack pointer, as integers, that a run of loads and additions
  amounts to: where the stack pointer ends up and from where \<open>fp\<close> and \<open>lr\<close> are restored.
\<close>

record Restores =
  rs_sp :: int
  rs_fp :: "int option"
  rs_lr :: "int option"

definition track_load :: "5 word \<Rightarrow> int \<Rightarrow> Restores \<Rightarrow> Restores" where
  "track_load reg k t =
     (if reg = 29 then t\<lparr>rs_fp := Some k\<rparr> else if reg = 30 then t\<lparr>rs_lr := Some k\<rparr> else t)"

fun track :: "A64Instr \<Rightarrow> Restores \<Rightarrow> Restores" where
  "track (ILdp mode imm rt2 rt) t =
     (let loc = (if mode = PostIndex then rs_sp t else rs_sp t + 8 * sint imm)
      in (track_load rt2 (loc + 8) (track_load rt loc t))
           \<lparr>rs_sp := (if mode = SignedOffset then rs_sp t else rs_sp t + 8 * sint imm)\<rparr>)"
| "track (IAddSp sh imm) t = t\<lparr>rs_sp := rs_sp t + imm12_value sh imm\<rparr>"
| "track _ t = t"

definition restores :: "A64Instr list \<Rightarrow> Restores" where
  "restores prog = fold track prog \<lparr>rs_sp = 0, rs_fp = None, rs_lr = None\<rparr>"

fun is_epilogue_instr :: "A64Instr \<Rightarrow> bool" where
  "is_epilogue_instr (ILdp mode imm rt2 rt) = True"
| "is_epilogue_instr (IAddSp sh imm) = True"
| "is_epilogue_instr _ = False"

text \<open>The machine does restore from there.\<close>

definition restored :: "A64State \<Rightarrow> Restores \<Rightarrow> A64State \<Rightarrow> bool" where
  "restored s0 t s \<longleftrightarrow>
     st_mem s = st_mem s0 \<and> st_sp s = st_sp s0 + word_of_int (rs_sp t) \<and>
     (case rs_fp t of None \<Rightarrow> st_x s 29 = st_x s0 29
      | Some k \<Rightarrow> st_mem s0 (st_sp s0 + word_of_int k) = Some (st_x s 29)) \<and>
     (case rs_lr t of None \<Rightarrow> st_x s 30 = st_x s0 30
      | Some k \<Rightarrow> st_mem s0 (st_sp s0 + word_of_int k) = Some (st_x s 30))"

lemma track_load_simps [simp]:
  "rs_sp (track_load reg k t) = rs_sp t"
  "rs_fp (track_load reg k t) = (if reg = 29 then Some k else rs_fp t)"
  "rs_lr (track_load reg k t) = (if reg = 30 then Some k else rs_lr t)"
  by (simp_all add: track_load_def)

lemma a64_step_restored:
  assumes "restored s0 t s" "is_epilogue_instr i" "a64_step pac i s = Some s'"
  shows "restored s0 (track i t) s'"
  using assms(2)
proof (cases i rule: is_epilogue_instr.cases)
  case (1 mode imm rt2 rt)
  define addr where "addr = pair_address mode imm (st_sp s)"
  define loc where "loc = (if mode = PostIndex then rs_sp t else rs_sp t + 8 * sint imm)"
  have addr: "addr = st_sp s0 + word_of_int loc" "addr + 8 = st_sp s0 + word_of_int (loc + 8)"
    using assms(1) by (simp_all add: restored_def addr_def loc_def add.assoc)
  obtain v v2 where v: "st_mem s addr = Some v" "st_mem s (addr + 8) = Some v2"
      "s' = (set_x rt2 v2 (set_x rt v s))\<lparr>st_sp := pair_writeback mode imm (st_sp s)\<rparr>"
    using assms(3) 1 by (auto simp: addr_def Let_def split: option.splits)
  have m: "st_mem s0 (st_sp s0 + word_of_int loc) = Some v"
      "st_mem s0 (st_sp s0 + word_of_int (loc + 8)) = Some v2"
    using v(1,2) assms(1) unfolding addr by (simp_all add: restored_def add.assoc)
  show ?thesis using assms(1) m unfolding 1 track.simps loc_def [symmetric] Let_def v(3)
    by (auto simp: restored_def add.assoc split: option.splits)
next
  case (2 sh imm)
  with assms(1,3) show ?thesis by (auto simp: restored_def add.assoc split: option.splits)
qed simp_all

lemma a64_run_restored:
  assumes "a64_run pac prog s = Some s'" "list_all is_epilogue_instr prog" "restored s0 t s"
  shows "restored s0 (fold track prog t) s'"
  using assms
proof (induction prog arbitrary: s t)
  case (Cons i prog)
  from Cons.prems(1) obtain s1 where "a64_step pac i s = Some s1" "a64_run pac prog s1 = Some s'"
    by (auto simp: bind_eq_Some_conv)
  with Cons.IH [of s1 "track i t"] Cons.prems(2,3) a64_step_restored [of s0 t s i pac s1]
  show ?case by simp
qed simp

lemma a64_run_restores:
  "a64_run pac prog s = Some s' \<Longrightarrow> list_all is_epilogue_instr prog \<Longrightarrow> restored s (restores prog) s'"
  unfolding restores_def by (rule a64_run_restored) (simp_all add: restored_def)

end
