(* ===== verification/A64_Epilogue.thy ===== *)
theory A64_Epilogue
  imports A64_Insn
begin

text \<open>
  Epilogue detection on aarch64 machine code
  (\<^verbatim>\<open>vendor/framehop/src/aarch64/instruction_analysis/epilogue.rs\<close>). The detector walks forward
  over the instruction words and tracks, as \<open>i32\<close> offsets from the stack pointer it started
  with, where the stack pointer goes and from where \<open>fp\<close> and \<open>lr\<close> are loaded.
\<close>

section \<open>The detector's types\<close>

record EpilogueDetectorAarch64 =
  ep_sp_offset :: i32
  ep_fp_offset_from_initial_sp :: "i32 option"
  ep_lr_offset_from_initial_sp :: "i32 option"

datatype UnexpectedInEpilogue =
    LoadOfWrongSize
  | LoadReferenceRegisterNotSp
  | AddSubNotOperatingOnSp
  | AutibspNotFollowedByExpectedTailCall
  | BranchWithUnadjustedStackPointer
  | Unknown

datatype EpilogueStepResult =
    NeedMore
  | FoundBodyInstruction UnexpectedInEpilogue
  | FoundReturn
  | FoundTailCall
  | CouldBeAuthTailCall

datatype EpilogueResult =
    ProbablyStillInBody UnexpectedInEpilogue
  | ReachedFunctionEndWithoutReturn
  | FoundReturnOrTailCall i32 "i32 option" "i32 option"
      \<comment> \<open>\<open>sp_offset\<close>, \<open>fp_offset_from_initial_sp\<close>, \<open>lr_offset_from_initial_sp\<close>\<close>

datatype EpilogueInstructionType =
    NotExpectedInEpilogue
  | CouldBeTailCall u8 \<comment> \<open>\<open>offset_of_expected_autibsp\<close>\<close>
  | CouldBePartOfAuthTailCall u8 \<comment> \<open>\<open>offset_of_expected_autibsp\<close>\<close>
  | VeryLikelyPartOfEpilogue

definition epilogue_detector_new :: EpilogueDetectorAarch64 where
  "epilogue_detector_new =
     \<lparr>ep_sp_offset = 0, ep_fp_offset_from_initial_sp = None, ep_lr_offset_from_initial_sp = None\<rparr>"

section \<open>Classification\<close>

definition instruction_adjusts_stack_pointer :: "u32 \<Rightarrow> bool" where
  "instruction_adjusts_stack_pointer word =
     (if drop_bit 22 word AND 0b1011111011 = 0b1010100011 \<and> drop_bit 5 word AND 0b11111 = 31
      then True
      else if drop_bit 23 word AND 0b111111111 = 0b100100010 \<and> word AND 0b11111 = 31 \<and>
        drop_bit 5 word AND 0b11111 = 31
      then True
      else False)"

definition is_auth_tail_call :: "u8 list \<Rightarrow> bool" where
  "is_auth_tail_call bytes_after_autibsp =
     (if length bytes_after_autibsp < 16 then False
      else if take 12 bytes_after_autibsp \<noteq>
        [0xd0, 0x07, 0x1e, 0xca, 0x50, 0x00, 0xf0, 0xb6, 0x20, 0x8e, 0x38, 0xd4] then False
      else
        let first_tail_call_instruction_opcode = read_insn (drop 12 bytes_after_autibsp) in
        if drop_bit 26 first_tail_call_instruction_opcode = 0b000101 then True
        else if length bytes_after_autibsp < 20 then False
        else
          let bits_23_to_32 = drop_bit 23 first_tail_call_instruction_opcode;
              is_64_mov = (bits_23_to_32 AND 0b111000111 = 0b110000101);
              result_reg = first_tail_call_instruction_opcode AND 0b11111
          in if \<not> is_64_mov \<or> result_reg \<noteq> 16 then False
             else let braa_opcode = read_insn (drop 16 bytes_after_autibsp)
                  in braa_opcode AND 0xfffffc00 = 0xd71f0800 \<and> braa_opcode AND 0b11111 = 16)"

definition analyze_instruction :: "u32 \<Rightarrow> EpilogueInstructionType" where
  "analyze_instruction word =
     (if word = 0xd65f03c0 \<or> word = 0xd65f0fff then VeryLikelyPartOfEpilogue
      else if word = 0xd50323ff then CouldBePartOfAuthTailCall 0
      else if word = 0xca1e07d0 then CouldBePartOfAuthTailCall 4
      else if word = 0xb6f00050 then CouldBePartOfAuthTailCall 8
      else if word = 0xd4388e20 then CouldBePartOfAuthTailCall 12
      else if drop_bit 26 word = 0b000101 \<or> word AND 0xfffffc1f = 0xd61f0000 then CouldBeTailCall 16
      else if drop_bit 23 word AND 0b111000111 = 0b110000101 \<and> word AND 0b11111 = 16
      then CouldBePartOfAuthTailCall 16
      else if word AND 0xfffffc00 = 0xd71f0800 \<and> word AND 0b11111 = 16
      then CouldBePartOfAuthTailCall 20
      else if drop_bit 22 word AND 0b1011111001 = 0b1010100001 then
        (let writeback_bits = drop_bit 23 word AND 0b11 in
         if writeback_bits = 0b00 then NotExpectedInEpilogue
         else if drop_bit 5 word AND 0b11111 \<noteq> 31 then NotExpectedInEpilogue
         else VeryLikelyPartOfEpilogue)
      else if drop_bit 23 word AND 0b111111111 = 0b100100010 then
        (let result_reg = word AND 0b11111; input_reg = drop_bit 5 word AND 0b11111 in
         if result_reg \<noteq> 31 \<or> input_reg \<noteq> 31 then NotExpectedInEpilogue
         else VeryLikelyPartOfEpilogue)
      else NotExpectedInEpilogue)"

section \<open>Stepping\<close>

text \<open>
  The register pair of a load: the second register overrides the first, as the code tests
  \<open>pair_reg_1\<close> and then \<open>pair_reg_2\<close>.
\<close>

definition record_loads :: "u32 \<Rightarrow> i32 \<Rightarrow> EpilogueDetectorAarch64 \<Rightarrow> EpilogueDetectorAarch64" where
  "record_loads word reg_loc d =
     (let pair_reg_1 = word AND 0b11111;
          d = (if pair_reg_1 = 29 then d\<lparr>ep_fp_offset_from_initial_sp := Some reg_loc\<rparr>
               else if pair_reg_1 = 30 then d\<lparr>ep_lr_offset_from_initial_sp := Some reg_loc\<rparr>
               else d);
          pair_reg_2 = drop_bit 10 word AND 0b11111
      in if pair_reg_2 = 29 then d\<lparr>ep_fp_offset_from_initial_sp := Some (reg_loc + 8)\<rparr>
         else if pair_reg_2 = 30 then d\<lparr>ep_lr_offset_from_initial_sp := Some (reg_loc + 8)\<rparr>
         else d)"

definition step_instruction :: "EpilogueDetectorAarch64 \<Rightarrow> u32 \<Rightarrow>
    EpilogueStepResult \<times> EpilogueDetectorAarch64" where
  "step_instruction d word =
     (if word = 0xd65f03c0 \<or> word = 0xd65f0fff then (FoundReturn, d)
      else if word = 0xd50323ff then (CouldBeAuthTailCall, d)
      else if drop_bit 26 word = 0b000101 then
        (if ep_sp_offset d \<noteq> 0 then (FoundTailCall, d)
         else (FoundBodyInstruction BranchWithUnadjustedStackPointer, d))
      else if drop_bit 22 word AND 0b1011111001 = 0b1010100001 then
        (let writeback_bits = drop_bit 23 word AND 0b11 in
         if writeback_bits = 0b00 then (FoundBodyInstruction LoadOfWrongSize, d)
         else if drop_bit 5 word AND 0b11111 \<noteq> 31
         then (FoundBodyInstruction LoadReferenceRegisterNotSp, d)
         else
           let is_preindexed_writeback = (writeback_bits = 0b11);
               is_postindexed_writeback = (writeback_bits = 0b01);
               imm7 = imm7_field word;
               reg_loc = (if is_postindexed_writeback then ep_sp_offset d else ep_sp_offset d + imm7);
               d = record_loads word reg_loc d
           in (NeedMore,
               if is_preindexed_writeback \<or> is_postindexed_writeback
               then d\<lparr>ep_sp_offset := ep_sp_offset d + imm7\<rparr> else d))
      else if drop_bit 23 word AND 0b111111111 = 0b100100010 then
        (let result_reg = word AND 0b11111; input_reg = drop_bit 5 word AND 0b11111 in
         if result_reg \<noteq> 31 \<or> input_reg \<noteq> 31 then (FoundBodyInstruction AddSubNotOperatingOnSp, d)
         else (NeedMore, d\<lparr>ep_sp_offset := ep_sp_offset d + imm12_field word\<rparr>))
      else (FoundBodyInstruction Unknown, d))"

definition found_return :: "EpilogueDetectorAarch64 \<Rightarrow> EpilogueResult" where
  "found_return d =
     FoundReturnOrTailCall (ep_sp_offset d) (ep_fp_offset_from_initial_sp d)
       (ep_lr_offset_from_initial_sp d)"

text \<open>The loop of \<open>analyze_slice\<close>: the current word and the bytes after it.\<close>

fun epilogue_loop_a64 :: "EpilogueDetectorAarch64 \<Rightarrow> u32 \<Rightarrow> u8 list \<Rightarrow> EpilogueResult" where
  "epilogue_loop_a64 d word bytes =
     (case step_instruction d word of
        (NeedMore, d') \<Rightarrow>
          if length bytes < 4 then ReachedFunctionEndWithoutReturn
          else epilogue_loop_a64 d' (read_insn bytes) (drop 4 bytes)
      | (FoundBodyInstruction uit, d') \<Rightarrow> ProbablyStillInBody uit
      | (FoundReturn, d') \<Rightarrow> found_return d'
      | (FoundTailCall, d') \<Rightarrow> found_return d'
      | (CouldBeAuthTailCall, d') \<Rightarrow>
          if \<not> is_auth_tail_call bytes
          then ProbablyStillInBody AutibspNotFollowedByExpectedTailCall
          else found_return d')"

declare epilogue_loop_a64.simps [simp del]

text \<open>\<open>function_bytes[pc_offset - n..]\<close> starts with \<open>autibsp\<close> and the rest of an authenticated tail call.\<close>

definition auth_tail_call_at :: "u8 list \<Rightarrow> nat \<Rightarrow> bool" where
  "auth_tail_call_at function_bytes start =
     (let auth_tail_call_bytes = drop start function_bytes
      in take 4 auth_tail_call_bytes = [0xff, 0x23, 0x03, 0xd5] \<and>
         is_auth_tail_call (drop 4 auth_tail_call_bytes))"

text \<open>
  \<open>analyze_slice\<close>, \<open>None\<close> where slicing beyond the end panics. The detector is dropped by its
  only caller, so the result alone is returned.
\<close>

definition analyze_slice :: "EpilogueDetectorAarch64 \<Rightarrow> u8 list \<Rightarrow> usize \<Rightarrow> EpilogueResult option" where
  "analyze_slice d function_bytes pc_offset =
     (if length function_bytes < pc_offset then None
      else let bytes = drop pc_offset function_bytes in
      if length bytes < 4 then Some ReachedFunctionEndWithoutReturn
      else let word = read_insn bytes; bytes = drop 4 bytes in
      case analyze_instruction word of
        NotExpectedInEpilogue \<Rightarrow> Some (ProbablyStillInBody Unknown)
      | CouldBeTailCall offset_of_expected_autibsp \<Rightarrow>
          if pc_offset \<ge> unat offset_of_expected_autibsp \<and>
            auth_tail_call_at function_bytes (pc_offset - unat offset_of_expected_autibsp)
          then Some (FoundReturnOrTailCall 0 None None)
          else if pc_offset \<ge> 4 \<and>
            instruction_adjusts_stack_pointer (read_insn (drop (pc_offset - 4) function_bytes))
          then Some (FoundReturnOrTailCall 0 None None)
          else Some (ProbablyStillInBody Unknown)
      | CouldBePartOfAuthTailCall offset_of_expected_autibsp \<Rightarrow>
          if pc_offset \<ge> unat offset_of_expected_autibsp \<and>
            auth_tail_call_at function_bytes (pc_offset - unat offset_of_expected_autibsp)
          then Some (FoundReturnOrTailCall 0 None None)
          else Some (ProbablyStillInBody Unknown)
      | VeryLikelyPartOfEpilogue \<Rightarrow> Some (epilogue_loop_a64 d word bytes))"

section \<open>The rule\<close>

definition epilogue_rule_a64 :: "EpilogueResult \<Rightarrow> UnwindRuleAarch64 option" where
  "epilogue_rule_a64 result =
     (case result of
        ProbablyStillInBody _ \<Rightarrow> None
      | ReachedFunctionEndWithoutReturn \<Rightarrow> None
      | FoundReturnOrTailCall sp_offset fp_offset_from_initial_sp lr_offset_from_initial_sp \<Rightarrow>
          Option.bind (try_unsigned (sint sp_offset sdiv 16)) (\<lambda>sp_offset_by_16.
          case (fp_offset_from_initial_sp, lr_offset_from_initial_sp) of
            (None, None) \<Rightarrow>
              Some (if sp_offset_by_16 = 0 then NoOp else OffsetSp sp_offset_by_16)
          | (None, Some lr_offset) \<Rightarrow>
              map_option (OffsetSpAndRestoreLr sp_offset_by_16) (try_signed (sint lr_offset sdiv 8))
          | (Some _, None) \<Rightarrow> None
          | (Some fp_offset, Some lr_offset) \<Rightarrow>
              Option.bind (try_signed (sint fp_offset sdiv 8)) (\<lambda>fp_by_8.
              map_option (OffsetSpAndRestoreFpAndLr sp_offset_by_16 fp_by_8)
                (try_signed (sint lr_offset sdiv 8)))))"

definition unwind_rule_from_detected_epilogue_a64 :: "UnwindRuleAarch64 analysis" where
  "unwind_rule_from_detected_epilogue_a64 bytes pc_offset =
     map_option epilogue_rule_a64 (analyze_slice epilogue_detector_new bytes pc_offset)"

section \<open>The detector tracks what the code restores\<close>

definition detector_of :: "Restores \<Rightarrow> EpilogueDetectorAarch64" where
  "detector_of t =
     \<lparr>ep_sp_offset = word_of_int (rs_sp t),
      ep_fp_offset_from_initial_sp = map_option word_of_int (rs_fp t),
      ep_lr_offset_from_initial_sp = map_option word_of_int (rs_lr t)\<rparr>"

lemma ucast_reg_eq: "(ucast reg :: u32) = 29 \<longleftrightarrow> reg = 29" "(ucast reg :: u32) = 30 \<longleftrightarrow> reg = 30"
  for reg :: "5 word"
  by (simp_all add: word_eq_iff_unsigned [where 'a = nat] unat_ucast_up)

lemma and_high_neq: "drop_bit 22 w AND drop_bit 22 m \<noteq> drop_bit 22 c \<Longrightarrow> w AND m \<noteq> c" for w :: u32
  by (metis drop_bit_and)

lemma record_loads_pack:
  assumes "take_bit 22 base = 0"
  shows "record_loads (pack_pair base imm rt2 rt) (word_of_int loc) (detector_of t) =
    detector_of (track_load rt2 (loc + 8) (track_load rt loc t))"
  unfolding record_loads_def and_numerals pack_pair_fields [OF assms] ucast_reg_eq
  by (simp add: detector_of_def track_load_def ucast_reg_eq Let_def)

lemma detector_of_simps [simp]:
  "ep_sp_offset (detector_of t) = word_of_int (rs_sp t)"
  "(detector_of t)\<lparr>ep_sp_offset := word_of_int k\<rparr> = detector_of (t\<lparr>rs_sp := k\<rparr>)"
  by (simp_all add: detector_of_def)

lemma rs_sp_update_same: "rs_sp t = k \<Longrightarrow> t\<lparr>rs_sp := k\<rparr> = t"
  by auto

lemma step_ldp:
  defines "w mode imm rt2 rt \<equiv> pack_pair (ldp_base mode) imm rt2 rt"
  shows "step_instruction (detector_of t) (w mode imm rt2 rt) =
      (NeedMore, detector_of (track (ILdp mode imm rt2 rt) t))"
    "analyze_instruction (w mode imm rt2 rt) = VeryLikelyPartOfEpilogue"
proof -
  define v where "v = w mode imm rt2 rt"
  have neq: "v \<noteq> 0xd65f03c0" "v \<noteq> 0xd65f0fff" "v \<noteq> 0xd50323ff" "v \<noteq> 0xca1e07d0" "v \<noteq> 0xb6f00050"
      "v \<noteq> 0xd4388e20"
    unfolding v_def w_def by (rule pack_pair_neq; cases mode; simp)+
  have high: "drop_bit 26 v \<noteq> 5" "drop_bit 22 v AND 0b1011111001 = 0b1010100001"
      "drop_bit 23 v AND 0b11 = (case mode of PostIndex \<Rightarrow> 1 | SignedOffset \<Rightarrow> 2 | PreIndex \<Rightarrow> 3)"
      "drop_bit 23 v AND 0b111000111 \<noteq> 0b110000101"
    unfolding v_def w_def by (cases mode; simp add: pack_pair_high)+
  have other: "v AND 0xfffffc1f \<noteq> 0xd61f0000" "v AND 0xfffffc00 \<noteq> 0xd71f0800"
    unfolding v_def w_def by (rule and_high_neq; cases mode; simp add: pack_pair_high)+
  have low: "drop_bit 5 v AND 0b11111 = 31" "imm7_field v = word_of_int (8 * sint imm)"
      "\<And>loc. record_loads v (word_of_int loc) (detector_of t) =
         detector_of (track_load rt2 (loc + 8) (track_load rt loc t))"
    unfolding v_def w_def
    by (simp_all only: and_numerals pack_pair_fields [OF base_low(1)] mask_numerals
        imm7_field_pack [OF base_low(1)] record_loads_pack [OF base_low(1)])
  show "step_instruction (detector_of t) (w mode imm rt2 rt) =
      (NeedMore, detector_of (track (ILdp mode imm rt2 rt) t))"
    unfolding v_def [symmetric] using neq high low low(3) [of "rs_sp t + 8 * sint imm"]
    by (cases mode) (simp_all add: step_instruction_def rs_sp_update_same Let_def
        del: of_int_mult flip: of_int_add)
  show "analyze_instruction (w mode imm rt2 rt) = VeryLikelyPartOfEpilogue"
    unfolding v_def [symmetric] using neq high low other
    by (cases mode) (simp_all add: analyze_instruction_def Let_def)
qed

lemma step_add_sp:
  defines "w sh imm \<equiv> pack_imm12 (if sh then 0x91400000 else 0x91000000) imm"
  shows "step_instruction (detector_of t) (w sh imm) = (NeedMore, detector_of (track (IAddSp sh imm) t))"
    "analyze_instruction (w sh imm) = VeryLikelyPartOfEpilogue"
proof -
  define base :: u32 where "base = (if sh then 0x91400000 else 0x91000000)"
  define v where "v = w sh imm"
  have v: "v = pack_imm12 base imm" and b: "take_bit 22 base = 0" "(drop_bit 22 base AND 1 = 1) = sh"
    by (simp_all add: v_def w_def base_def)
  have neq: "v \<noteq> 0xd65f03c0" "v \<noteq> 0xd65f0fff" "v \<noteq> 0xd50323ff" "v \<noteq> 0xca1e07d0" "v \<noteq> 0xb6f00050"
      "v \<noteq> 0xd4388e20"
    unfolding v by (rule pack_imm12_neq; simp add: base_def)+
  have high: "drop_bit 26 v \<noteq> 5" "drop_bit 22 v AND 0b1011111001 \<noteq> 0b1010100001"
      "drop_bit 23 v AND 0b111111111 = 0b100100010" "drop_bit 23 v AND 0b111000111 \<noteq> 0b110000101"
    unfolding v by (simp_all add: pack_imm12_high base_def)
  have other: "v AND 0xfffffc1f \<noteq> 0xd61f0000" "v AND 0xfffffc00 \<noteq> 0xd71f0800"
    unfolding v by (rule and_high_neq; simp add: pack_imm12_high base_def)+
  have low: "drop_bit 5 v AND 0b11111 = 31" "v AND 0b11111 = 31"
      "imm12_field v = word_of_int (imm12_value sh imm)"
    unfolding v by (simp_all only: and_numerals pack_imm12_fields [OF b(1)] mask_numerals
        imm12_field_pack [OF b])
  show "step_instruction (detector_of t) (w sh imm) = (NeedMore, detector_of (track (IAddSp sh imm) t))"
    unfolding v_def [symmetric] using neq high low
    by (simp add: step_instruction_def Let_def flip: of_int_add)
  show "analyze_instruction (w sh imm) = VeryLikelyPartOfEpilogue"
    unfolding v_def [symmetric] using neq high low other
    by (simp add: analyze_instruction_def Let_def)
qed

lemma step_epilogue_instr:
  assumes "is_epilogue_instr i"
  shows "step_instruction (detector_of t) (encode_a64 i) = (NeedMore, detector_of (track i t))"
    "analyze_instruction (encode_a64 i) = VeryLikelyPartOfEpilogue"
  using assms step_ldp step_add_sp by (cases i rule: is_epilogue_instr.cases; simp del: track.simps)+

lemma epilogue_loop_prog:
  assumes "list_all is_epilogue_instr prog"
  shows "case prog @ [IRet] of i # rest \<Rightarrow>
    epilogue_loop_a64 (detector_of t) (encode_a64 i) (code_bytes_a64 rest @ post) =
      found_return (detector_of (fold track prog t))"
  using assms
proof (induction prog arbitrary: t)
  case Nil
  show ?case by (simp add: epilogue_loop_a64.simps step_instruction_def)
next
  case (Cons i prog)
  obtain j rest where j: "prog @ [IRet] = j # rest" by (cases prog) auto
  have "step_instruction (detector_of t) (encode_a64 i) = (NeedMore, detector_of (track i t))"
    using Cons.prems by (intro step_epilogue_instr) simp
  then have "epilogue_loop_a64 (detector_of t) (encode_a64 i) (code_bytes_a64 (j # rest) @ post) =
      epilogue_loop_a64 (detector_of (track i t)) (encode_a64 j) (code_bytes_a64 rest @ post)"
    by (subst epilogue_loop_a64.simps) simp
  with Cons j show ?case by auto
qed

lemma analyze_slice_prog:
  assumes "list_all is_epilogue_instr prog"
  shows "analyze_slice epilogue_detector_new (pre @ code_bytes_a64 (prog @ [IRet]) @ post) (length pre) =
    Some (found_return (detector_of (restores prog)))"
proof -
  obtain i rest where i: "prog @ [IRet] = i # rest" by (cases prog) auto
  have "analyze_instruction (encode_a64 i) = VeryLikelyPartOfEpilogue"
    using i assms step_epilogue_instr(2) [of i] by (cases prog) (auto simp: analyze_instruction_def)
  moreover have "epilogue_detector_new = detector_of \<lparr>rs_sp = 0, rs_fp = None, rs_lr = None\<rparr>"
    by (simp add: epilogue_detector_new_def detector_of_def)
  ultimately show ?thesis
    using epilogue_loop_prog [OF assms, of "\<lparr>rs_sp = 0, rs_fp = None, rs_lr = None\<rparr>" post] i
    by (simp add: analyze_slice_def restores_def Let_def del: code_bytes_a64_simps(3))
qed

section \<open>Executing the detected rule\<close>

text \<open>
  An epilogue the rule representation can express, from a given stack pointer: the stack
  pointer moves up by a multiple of 16, \<open>lr\<close> is restored if \<open>fp\<close> is, the slots are aligned and
  within reach, and no address leaves the address space.
\<close>

definition slot_ok :: "u64 \<Rightarrow> int \<Rightarrow> bool" where
  "slot_ok sp k \<longleftrightarrow>
     8 dvd k \<and> - (2 ^ 18) \<le> k \<and> k < 2 ^ 18 \<and> 0 \<le> uint sp + k \<and> uint sp + k < 2 ^ 64"

definition restorable :: "u64 \<Rightarrow> Restores \<Rightarrow> bool" where
  "restorable sp t \<longleftrightarrow>
     0 \<le> rs_sp t \<and> rs_sp t < 2 ^ 20 \<and> 16 dvd rs_sp t \<and> uint sp + rs_sp t < 2 ^ 64 \<and>
     (rs_fp t \<noteq> None \<longrightarrow> rs_lr t \<noteq> None) \<and>
     pred_option (slot_ok sp) (rs_fp t) \<and> pred_option (slot_ok sp) (rs_lr t)"

lemma sint_i32_small: "- (2 ^ 31) \<le> k \<Longrightarrow> k < 2 ^ 31 \<Longrightarrow> sint (word_of_int k :: i32) = k"
  by (simp add: signed_of_int signed_take_bit_int_eq_self)

lemma offset_by_16:
  fixes sp :: u64
  assumes "0 \<le> k" "k < 2 ^ 20" "16 dvd k" "uint sp + k < 2 ^ 64"
  obtains w :: u16 where "try_unsigned (sint (word_of_int k :: i32) sdiv 16) = Some w" "w = 0 \<longleftrightarrow> k = 0"
    "checked_add sp (ucast w * 16) = Some (sp + word_of_int k)"
proof -
  define j where "j = nat (k div 16)"
  have k: "k = 16 * int j" using assms(1,3) by (simp add: j_def pos_imp_zdiv_nonneg_iff)
  with assms(2) have j: "j < 2 ^ 16" by simp
  have "sint (word_of_int k :: i32) sdiv 16 = int j"
    using assms(1,2) by (subst sint_i32_small) (simp_all add: k sdiv_multiple)
  then have "try_unsigned (sint (word_of_int k :: i32) sdiv 16) = Some (of_nat j :: u16)"
    using j by (simp add: try_unsigned_def)
  moreover have "(of_nat j :: u16) = 0 \<longleftrightarrow> k = 0"
    using j k of_nat_eq_0_small [of j, where 'a = 16] by simp
  moreover have "ucast (of_nat j :: u16) * 16 = (of_nat (16 * j) :: u64)"
    using ucast_of_nat_u16 [OF j] by simp
  moreover have "int (unat sp) + 16 * int j < 2 ^ 64"
    using assms(4) unfolding k uint_nat [of sp] .
  then have "unat sp + 16 * j < 2 ^ 64" unfolding of_nat_less_iff [where 'a = int, symmetric] by simp
  ultimately show ?thesis
    using checked_add_of_nat(1) [of sp "16 * j"] k by (intro that [of "of_nat j"]) simp_all
qed

lemma slot_by_8:
  assumes "slot_ok sp k"
  obtains w :: i16 where "try_signed (sint (word_of_int k :: i32) sdiv 8) = Some w"
    "\<forall>read. load_a64 read sp w = read_or_err read (sp + word_of_int k)"
proof -
  from assms have k: "8 dvd k" "- (2 ^ 18) \<le> k" "k < 2 ^ 18" "0 \<le> uint sp + k" "uint sp + k < 2 ^ 64"
    by (simp_all add: slot_ok_def)
  from k(1) obtain j where j: "k = 8 * j" by (elim dvdE)
  have "sint (word_of_int k :: i32) sdiv 8 = j"
    using k(2,3) by (subst sint_i32_small) (simp_all add: j sdiv_multiple)
  then have w: "try_signed (sint (word_of_int k :: i32) sdiv 8) = Some (word_of_int j :: i16)"
    using k(2,3) j by (simp add: try_signed_def)
  have "sint (word_of_int j :: i16) = j"
    using k(2,3) j by (simp add: signed_of_int signed_take_bit_int_eq_self)
  then have "scast (word_of_int j :: i16) * 8 = (word_of_int k :: i64)"
    by (simp only: scast_eq j of_int_mult of_int_numeral mult.commute)
  moreover have "sint (word_of_int k :: i64) = k"
    using k(2,3) by (intro sint_of_int_small) simp_all
  ultimately have "load_a64 read sp (word_of_int j) = read_or_err read (sp + word_of_int k)" for read
    using k(4,5) by (simp add: load_a64_def checked_add_signed_eq)
  with w show ?thesis by (intro that) blast+
qed

lemma exec_a64_first:
  assumes "rule_frame_a64 rule True (regs_of m s) read = Inr (Some (lr, st_sp s', st_x s' 29))"
    "strip_ptr_auth m lr = strip_ptr_auth m (st_x s' 30)" "strip_ptr_auth m (st_x s' 30) \<noteq> 0"
  shows "exec_a64 rule True (regs_of m s) read =
    (Inr (Some (strip_ptr_auth m (st_x s' 30))), regs_of m s')"
  using assms by (simp add: exec_a64_Some_iff regs_of_def a64_new_with_ptr_auth_mask_def
      a64_set_sp_def a64_set_fp_def a64_set_lr_def)

lemma regs_of_simps [simp]:
  "a64_sp (regs_of m s) = st_sp s" "a64_fp (regs_of m s) = st_x s 29"
  "a64_lr (regs_of m s) = strip_ptr_auth m (st_x s 30)"
  by (simp_all add: regs_of_def a64_new_with_ptr_auth_mask_def)

lemma exec_restores:
  assumes "restorable (st_sp s) t" "restored s t s'" "strip_ptr_auth m (st_x s' 30) \<noteq> 0"
  shows "\<exists>rule. epilogue_rule_a64 (found_return (detector_of t)) = Some rule \<and>
    exec_a64 rule True (regs_of m s) (st_mem s) =
      (Inr (Some (strip_ptr_auth m (st_x s' 30))), regs_of m s')"
proof -
  have ok: "0 \<le> rs_sp t" "rs_sp t < 2 ^ 20" "16 dvd rs_sp t" "uint (st_sp s) + rs_sp t < 2 ^ 64"
    using assms(1) by (simp_all add: restorable_def)
  have sp: "st_sp s + word_of_int (rs_sp t) = st_sp s'" using assms(2) by (simp add: restored_def)
  from offset_by_16 [OF ok, unfolded sp] obtain w16 :: u16 where
    w16: "try_unsigned (sint (word_of_int (rs_sp t) :: i32) sdiv 16) = Some w16"
      "w16 = 0 \<longleftrightarrow> rs_sp t = 0" "checked_add (st_sp s) (ucast w16 * 16) = Some (st_sp s')" .
  note exec = exec_a64_first [where m = m and s = s and s' = s' and read = "st_mem s"]
  show ?thesis
  proof (cases "rs_lr t")
    case None
    then have "rs_fp t = None" using assms(1) by (auto simp: restorable_def)
    with None w16 assms(2,3) exec [of "if w16 = 0 then NoOp else OffsetSp w16"] show ?thesis
      by (auto simp: epilogue_rule_a64_def found_return_def detector_of_def restored_def
          offset_sp_a64_Inr)
  next
    case (Some lr)
    then have "slot_ok (st_sp s) lr" using assms(1) by (simp add: restorable_def)
    from slot_by_8 [OF this] obtain w :: i16 where
      w: "try_signed (sint (word_of_int lr :: i32) sdiv 8) = Some w"
        "\<forall>read. load_a64 read (st_sp s) w = read_or_err read (st_sp s + word_of_int lr)" .
    have lr: "st_mem s (st_sp s + word_of_int lr) = Some (st_x s' 30)"
      using Some assms(2) by (simp add: restored_def)
    show ?thesis
    proof (cases "rs_fp t")
      case None
      with Some w w16 lr assms(2,3) exec [of "OffsetSpAndRestoreLr w16 w"] show ?thesis
        by (simp add: epilogue_rule_a64_def found_return_def detector_of_def restored_def
            read_or_err_def Let_def)
    next
      case (Some fp)
      then have "slot_ok (st_sp s) fp" using assms(1) by (simp add: restorable_def)
      from slot_by_8 [OF this] obtain v :: i16 where
        v: "try_signed (sint (word_of_int fp :: i32) sdiv 8) = Some v"
          "\<forall>read. load_a64 read (st_sp s) v = read_or_err read (st_sp s + word_of_int fp)" .
      with Some w w16 lr \<open>rs_lr t = Some lr\<close> assms(2,3) exec [of "OffsetSpAndRestoreFpAndLr w16 v w"]
      show ?thesis
        by (simp add: epilogue_rule_a64_def found_return_def detector_of_def restored_def
            read_or_err_def Let_def)
    qed
  qed
qed

end
