(* ===== verification/A64_Prologue.thy ===== *)
theory A64_Prologue
  imports A64_Insn
begin

text \<open>
  Prologue detection on aarch64 machine code
  (\<^verbatim>\<open>vendor/framehop/src/aarch64/instruction_analysis/prologue.rs\<close>). The detector looks at the
  next instruction and then walks backwards over the executed ones, undoing what they did to the
  stack pointer.
\<close>

section \<open>The detector's types\<close>

record PrologueDetectorAarch64 =
  pd_sp_offset :: i32

datatype UnexpectedInPrologue =
    StoreOfWrongSize
  | StoreReferenceRegisterNotSp
  | AddSubNotOperatingOnSp
  | NoNextInstruction
  | NoStackPointerSubBeforeStore
  | Unknown

datatype PrologueStepResult =
    UnexpectedInstruction UnexpectedInPrologue
  | ValidPrologueInstruction

datatype PrologueResult =
    ProbablyAlreadyInBody UnexpectedInPrologue
  | FoundFunctionStart i32 \<comment> \<open>\<open>sp_offset\<close>\<close>

datatype PrologueInstructionType =
    NotExpectedInPrologue
  | CouldBePartOfPrologueIfThereIsAlsoAStackPointerSub
  | VeryLikelyPartOfPrologue

definition prologue_detector_new :: PrologueDetectorAarch64 where
  "prologue_detector_new = \<lparr>pd_sp_offset = 0\<rparr>"

section \<open>Classification\<close>

definition analyze_prologue_instruction_type :: "u32 \<Rightarrow> PrologueInstructionType" where
  "analyze_prologue_instruction_type word =
     (if word = 0xd503237f \<or> word = 0x910003fd then VeryLikelyPartOfPrologue
      else let bits_22_to_32 = drop_bit 22 word in
      if bits_22_to_32 AND 0b1011111001 = 0b1010100000 then
        (let writeback_bits = bits_22_to_32 AND 0b110;
             reference_reg = drop_bit 5 word AND 0b11111 in
         if writeback_bits = 0b000 \<or> reference_reg \<noteq> 31 then NotExpectedInPrologue
         else if writeback_bits = 0b100 then CouldBePartOfPrologueIfThereIsAlsoAStackPointerSub
         else VeryLikelyPartOfPrologue)
      else if bits_22_to_32 AND 0b1011111110 = 0b1001000100 then
        (let result_reg = word AND 0b11111;
             input_reg = drop_bit 5 word AND 0b11111;
             is_sub = (drop_bit 30 word AND 0b1 = 0b1);
             expected_result_reg = (if is_sub then 31 else 29) in
         if input_reg \<noteq> 31 \<or> result_reg \<noteq> expected_result_reg then NotExpectedInPrologue
         else VeryLikelyPartOfPrologue)
      else NotExpectedInPrologue)"

section \<open>Stepping backwards\<close>

definition reverse_step_instruction :: "PrologueDetectorAarch64 \<Rightarrow> u32 \<Rightarrow>
    PrologueStepResult \<times> PrologueDetectorAarch64" where
  "reverse_step_instruction d word =
     (if word = 0xd503237f then (ValidPrologueInstruction, d)
      else if drop_bit 22 word AND 0b1011111001 = 0b1010100000 then
        (let writeback_bits = drop_bit 23 word AND 0b11 in
         if writeback_bits = 0b00 then (UnexpectedInstruction StoreOfWrongSize, d)
         else if drop_bit 5 word AND 0b11111 \<noteq> 31
         then (UnexpectedInstruction StoreReferenceRegisterNotSp, d)
         else
           let is_preindexed_writeback = (writeback_bits = 0b11);
               is_postindexed_writeback = (writeback_bits = 0b01)
           in (ValidPrologueInstruction,
               if is_preindexed_writeback \<or> is_postindexed_writeback
               then d\<lparr>pd_sp_offset := pd_sp_offset d - imm7_field word\<rparr> else d))
      else if drop_bit 23 word AND 0b111111111 = 0b110100010 then
        (let result_reg = word AND 0b11111; input_reg = drop_bit 5 word AND 0b11111 in
         if result_reg \<noteq> 31 \<or> input_reg \<noteq> 31
         then (UnexpectedInstruction AddSubNotOperatingOnSp, d)
         else (ValidPrologueInstruction, d\<lparr>pd_sp_offset := pd_sp_offset d + imm12_field word\<rparr>))
      else (UnexpectedInstruction Unknown, d))"

text \<open>\<open>chunks_exact(4)\<close> with each chunk decoded; an incomplete last chunk is dropped.\<close>

fun insn_words :: "u8 list \<Rightarrow> u32 list" where
  "insn_words (b0 # b1 # b2 # b3 # bytes) = from_le_bytes [b0, b1, b2, b3] # insn_words bytes"
| "insn_words _ = []"

text \<open>The loop over the executed instructions, last one first, until one is unexpected.\<close>

fun reverse_steps :: "PrologueDetectorAarch64 \<Rightarrow> u32 list \<Rightarrow> PrologueDetectorAarch64" where
  "reverse_steps d [] = d"
| "reverse_steps d (instruction # instructions) =
     (case reverse_step_instruction d instruction of
        (UnexpectedInstruction _, d') \<Rightarrow> d'
      | (ValidPrologueInstruction, d') \<Rightarrow> reverse_steps d' instructions)"

definition analyze_slices :: "PrologueDetectorAarch64 \<Rightarrow> u8 list \<Rightarrow> u8 list \<Rightarrow> PrologueResult" where
  "analyze_slices d slice_from_start slice_to_end =
     (if length slice_to_end < 4 then ProbablyAlreadyInBody NoNextInstruction
      else let next_instruction_type =
             analyze_prologue_instruction_type (read_insn slice_to_end) in
      if next_instruction_type = NotExpectedInPrologue then ProbablyAlreadyInBody Unknown
      else let d = reverse_steps d (rev (insn_words slice_from_start)) in
      if next_instruction_type = CouldBePartOfPrologueIfThereIsAlsoAStackPointerSub \<and>
        pd_sp_offset d = 0
      then ProbablyAlreadyInBody NoStackPointerSubBeforeStore
      else FoundFunctionStart (pd_sp_offset d))"

section \<open>The rule\<close>

definition unwind_rule_from_detected_prologue_a64 :: "u8 list \<Rightarrow> u8 list \<Rightarrow> UnwindRuleAarch64 option" where
  "unwind_rule_from_detected_prologue_a64 slice_from_start slice_to_end =
     (case analyze_slices prologue_detector_new slice_from_start slice_to_end of
        ProbablyAlreadyInBody _ \<Rightarrow> None
      | FoundFunctionStart sp_offset \<Rightarrow>
          map_option (\<lambda>sp_offset_by_16.
              if sp_offset_by_16 = 0 then NoOp else OffsetSp sp_offset_by_16)
            (try_unsigned (sint sp_offset sdiv 16)))"

section \<open>The detector undoes what the code did\<close>

fun is_prologue_instr :: "A64Instr \<Rightarrow> bool" where
  "is_prologue_instr (IStp mode imm rt2 rt) = True"
| "is_prologue_instr (ISubSp sh imm) = True"
| "is_prologue_instr IPacibsp = True"
| "is_prologue_instr _ = False"

text \<open>By how much an instruction lowers the stack pointer.\<close>

fun lowers :: "A64Instr \<Rightarrow> int" where
  "lowers (IStp mode imm rt2 rt) = (if mode = SignedOffset then 0 else - (8 * sint imm))"
| "lowers (ISubSp sh imm) = imm12_value sh imm"
| "lowers _ = 0"

definition lowered :: "A64Instr list \<Rightarrow> int" where
  "lowered prog = sum_list (map lowers prog)"

lemma reverse_step_stp:
  "reverse_step_instruction d (encode_a64 (IStp mode imm rt2 rt)) =
     (ValidPrologueInstruction,
      d\<lparr>pd_sp_offset := pd_sp_offset d + word_of_int (lowers (IStp mode imm rt2 rt))\<rparr>)"
proof -
  define v where "v = pack_pair (stp_base mode) imm rt2 rt"
  have "v \<noteq> 0xd503237f" unfolding v_def by (rule pack_pair_neq; cases mode; simp)
  moreover have "drop_bit 22 v AND 0b1011111001 = 0b1010100000"
      "drop_bit 23 v AND 0b11 = (case mode of PostIndex \<Rightarrow> 1 | SignedOffset \<Rightarrow> 2 | PreIndex \<Rightarrow> 3)"
    unfolding v_def by (cases mode; simp add: pack_pair_high)+
  moreover have "drop_bit 5 v AND 0b11111 = 31" "imm7_field v = word_of_int (8 * sint imm)"
    unfolding v_def by (simp_all only: and_numerals pack_pair_fields [OF base_low(2)] mask_numerals
        imm7_field_pack [OF base_low(2)])
  ultimately have "reverse_step_instruction d v =
     (ValidPrologueInstruction,
      d\<lparr>pd_sp_offset := pd_sp_offset d + word_of_int (lowers (IStp mode imm rt2 rt))\<rparr>)"
    by (cases mode) (simp_all add: reverse_step_instruction_def Let_def)
  then show ?thesis by (simp add: v_def)
qed

lemma reverse_step_sub:
  "reverse_step_instruction d (encode_a64 (ISubSp sh imm)) =
     (ValidPrologueInstruction, d\<lparr>pd_sp_offset := pd_sp_offset d + word_of_int (imm12_value sh imm)\<rparr>)"
proof -
  define base :: u32 where "base = (if sh then 0xd1400000 else 0xd1000000)"
  define v where "v = pack_imm12 base imm"
  have b: "take_bit 22 base = 0" "(drop_bit 22 base AND 1 = 1) = sh" by (simp_all add: base_def)
  have "v \<noteq> 0xd503237f" unfolding v_def by (rule pack_imm12_neq; simp add: base_def)
  moreover have "drop_bit 22 v AND 0b1011111001 \<noteq> 0b1010100000"
      "drop_bit 23 v AND 0b111111111 = 0b110100010"
    unfolding v_def by (simp_all add: pack_imm12_high base_def)
  moreover have "drop_bit 5 v AND 0b11111 = 31" "v AND 0b11111 = 31"
      "imm12_field v = word_of_int (imm12_value sh imm)"
    unfolding v_def by (simp_all only: and_numerals pack_imm12_fields [OF b(1)] mask_numerals
        imm12_field_pack [OF b])
  ultimately have "reverse_step_instruction d v =
     (ValidPrologueInstruction, d\<lparr>pd_sp_offset := pd_sp_offset d + word_of_int (imm12_value sh imm)\<rparr>)"
    by (simp add: reverse_step_instruction_def Let_def)
  then show ?thesis by (simp add: v_def base_def)
qed

lemma reverse_step_prologue_instr:
  "is_prologue_instr i \<Longrightarrow> reverse_step_instruction d (encode_a64 i) =
     (ValidPrologueInstruction, d\<lparr>pd_sp_offset := pd_sp_offset d + word_of_int (lowers i)\<rparr>)"
  using reverse_step_stp reverse_step_sub
  by (cases i rule: is_prologue_instr.cases)
    (simp_all del: encode_a64.simps(1-4) add: reverse_step_instruction_def [of _ "0xd503237f"])

lemma reverse_steps_prog:
  "list_all is_prologue_instr prog \<Longrightarrow>
     reverse_steps d (rev (map encode_a64 prog) @ ws) =
       reverse_steps (d\<lparr>pd_sp_offset := pd_sp_offset d + word_of_int (lowered prog)\<rparr>) ws"
proof (induction prog arbitrary: d rule: rev_induct)
  case (snoc i prog)
  then show ?case
    by (simp add: reverse_step_prologue_instr lowered_def ac_simps del: encode_a64.simps)
qed (simp add: lowered_def)

text \<open>
  Words before the function at which the backwards walk stops: none, or a last one that is
  not expected in a prologue.
\<close>

definition prologue_boundary :: "u32 list \<Rightarrow> bool" where
  "prologue_boundary ws \<longleftrightarrow> ws = [] \<or>
     fst (reverse_step_instruction prologue_detector_new (last ws)) \<noteq> ValidPrologueInstruction"

lemma reverse_step_result:
  "fst (reverse_step_instruction d w) = fst (reverse_step_instruction d' w)"
  "fst (reverse_step_instruction d w) \<noteq> ValidPrologueInstruction \<Longrightarrow>
     snd (reverse_step_instruction d w) = d"
  by (auto simp: reverse_step_instruction_def Let_def split: if_splits)

lemma reverse_steps_boundary: "prologue_boundary ws \<Longrightarrow> reverse_steps d (rev ws) = d"
proof (cases ws rule: rev_cases)
  case (snoc ws' w)
  assume "prologue_boundary ws"
  then have "fst (reverse_step_instruction d w) \<noteq> ValidPrologueInstruction"
    using snoc reverse_step_result(1) [of d w prologue_detector_new] by (simp add: prologue_boundary_def)
  with snoc reverse_step_result(2) [of d w] show ?thesis
    by (cases "reverse_step_instruction d w") (auto split: PrologueStepResult.splits)
qed simp

definition words_bytes :: "u32 list \<Rightarrow> u8 list" where
  "words_bytes ws = concat (map (to_le_bytes 4) ws)"

lemma insn_words_Cons [simp]: "insn_words (to_le_bytes 4 (w :: u32) @ bytes) = w # insn_words bytes"
proof -
  have "to_le_bytes 4 w = [ucast w, ucast (drop_bit 8 w), ucast (drop_bit 16 w), ucast (drop_bit 24 w)]"
    by (simp add: to_le_bytes_def upt_rec)
  then show ?thesis using from_to_le_bytes [of 4 w] by simp
qed

lemma insn_words_bytes: "insn_words (words_bytes ws) = ws"
  by (induction ws) (simp_all add: words_bytes_def)

lemma code_bytes_words: "code_bytes_a64 prog = words_bytes (map encode_a64 prog)"
  by (simp add: code_bytes_a64_def words_bytes_def)

lemma words_bytes_append: "words_bytes (ws @ ws') = words_bytes ws @ words_bytes ws'"
  by (simp add: words_bytes_def)

lemma length_words_bytes: "length (words_bytes ws) = 4 * length ws"
  by (induction ws) (simp_all add: words_bytes_def)

lemma analyze_slices_prog:
  assumes "list_all is_prologue_instr prog" "prologue_boundary ws" "4 \<le> length post"
    "case analyze_prologue_instruction_type (read_insn post) of
       VeryLikelyPartOfPrologue \<Rightarrow> True
     | CouldBePartOfPrologueIfThereIsAlsoAStackPointerSub \<Rightarrow> (word_of_int (lowered prog) :: i32) \<noteq> 0
     | NotExpectedInPrologue \<Rightarrow> False"
  shows "analyze_slices prologue_detector_new (words_bytes ws @ code_bytes_a64 prog) post =
    FoundFunctionStart (word_of_int (lowered prog))"
proof -
  have "insn_words (words_bytes ws @ code_bytes_a64 prog) = ws @ map encode_a64 prog"
    by (simp only: code_bytes_words insn_words_bytes flip: words_bytes_append)
  then have "reverse_steps prologue_detector_new (rev (insn_words (words_bytes ws @ code_bytes_a64 prog))) =
      \<lparr>pd_sp_offset = word_of_int (lowered prog)\<rparr>"
    using reverse_steps_prog [OF assms(1)] reverse_steps_boundary [OF assms(2)]
    by (simp add: prologue_detector_new_def)
  with assms(3,4) show ?thesis
    by (auto simp: analyze_slices_def Let_def split: PrologueInstructionType.splits)
qed

end
