(* ===== verification/A64_Analysis.thy ===== *)
theory A64_Analysis
  imports A64_Epilogue A64_Prologue
begin

text \<open>
  Instruction analysis for aarch64 as a whole
  (\<^verbatim>\<open>vendor/framehop/src/aarch64/instruction_analysis/mod.rs\<close>): the prologue detector, then the
  epilogue detector, against the reference semantics of the instructions.
\<close>

definition rule_from_prologue_analysis_a64 :: "UnwindRuleAarch64 analysis" where
  "rule_from_prologue_analysis_a64 text_bytes pc_offset =
     map_option (\<lambda>(slice_from_start, slice_to_end).
         unwind_rule_from_detected_prologue_a64 slice_from_start slice_to_end)
       (split_at text_bytes pc_offset)"

definition rule_from_instruction_analysis_a64 :: "UnwindRuleAarch64 analysis" where
  "rule_from_instruction_analysis_a64 =
     rule_from_instruction_analysis rule_from_prologue_analysis_a64
       unwind_rule_from_detected_epilogue_a64"

interpretation a64_analysis: instruction_analysis rule_from_prologue_analysis_a64
  unwind_rule_from_detected_epilogue_a64 "\<lambda>_. True"
  by unfold_locales
    (auto simp: rule_from_prologue_analysis_a64_def unwind_rule_from_detected_epilogue_a64_def
      analyze_slice_def split_at_None_iff Let_def split: EpilogueInstructionType.splits)

section \<open>Epilogues\<close>

lemma not_prologue_ldp:
  "analyze_prologue_instruction_type (encode_a64 (ILdp mode imm rt2 rt)) = NotExpectedInPrologue"
proof -
  define v where "v = pack_pair (ldp_base mode) imm rt2 rt"
  have "v \<noteq> 0xd503237f" "v \<noteq> 0x910003fd"
    unfolding v_def by (rule pack_pair_neq; cases mode; simp)+
  moreover have "drop_bit 22 v AND 0b1011111001 \<noteq> 0b1010100000"
      "drop_bit 22 v AND 0b1011111110 \<noteq> 0b1001000100"
    unfolding v_def by (cases mode; simp add: pack_pair_high)+
  ultimately have "analyze_prologue_instruction_type v = NotExpectedInPrologue"
    by (simp add: analyze_prologue_instruction_type_def Let_def)
  then show ?thesis by (simp add: v_def)
qed

lemma not_prologue_add_sp:
  "analyze_prologue_instruction_type (encode_a64 (IAddSp sh imm)) = NotExpectedInPrologue"
proof -
  define base :: u32 where "base = (if sh then 0x91400000 else 0x91000000)"
  define v where "v = pack_imm12 base imm"
  have b: "take_bit 22 base = 0" by (simp add: base_def)
  have v31: "v AND 0b11111 = 31"
    unfolding v_def by (simp only: and_numerals pack_imm12_fields [OF b] mask_numerals)
  then have "v \<noteq> 0x910003fd" by auto
  moreover have "v \<noteq> 0xd503237f" unfolding v_def by (rule pack_imm12_neq; simp add: base_def)
  moreover have "drop_bit 22 v AND 0b1011111001 \<noteq> 0b1010100000" "drop_bit 30 v AND 0b1 \<noteq> 0b1"
    unfolding v_def by (simp_all add: pack_imm12_high base_def)
  ultimately have "analyze_prologue_instruction_type v = NotExpectedInPrologue"
    using v31 by (simp add: analyze_prologue_instruction_type_def Let_def)
  then show ?thesis by (simp add: v_def base_def)
qed

lemma epilogue_not_prologue:
  assumes "list_all is_epilogue_instr prog" "prog @ [IRet] = i # rest"
  shows "analyze_prologue_instruction_type (encode_a64 i) = NotExpectedInPrologue"
proof (cases prog)
  case Nil
  with assms(2) show ?thesis by (auto simp: analyze_prologue_instruction_type_def Let_def)
next
  case (Cons j prog')
  with assms have "is_epilogue_instr i" by simp
  then show ?thesis
    by (cases i rule: is_epilogue_instr.cases)
      (simp_all only: not_prologue_ldp not_prologue_add_sp is_epilogue_instr.simps)
qed

text \<open>
  C18: unwinding from an aarch64 epilogue: when the words at the instruction pointer are loads
  of register pairs from the stack and additions to the stack pointer, followed by \<open>ret\<close>, and
  the offsets involved fit a rule, the analysis finds a rule whose execution leaves exactly the
  link register, stack pointer and frame pointer that the machine has after running those
  instructions, wherever in the function they start and whatever the addressing modes.
\<close>

theorem epilogue_analysis_sound_a64:
  assumes "a64_run pac prog s = Some s'" "list_all is_epilogue_instr prog"
    and "restorable (st_sp s) (restores prog)" "strip_ptr_auth m (st_x s' 30) \<noteq> 0"
  shows "\<exists>rule. rule_from_instruction_analysis_a64
      (pre @ code_bytes_a64 (prog @ [IRet]) @ post) (length pre) = Some (Some rule) \<and>
    exec_a64 rule True (regs_of m s) (st_mem s) =
      (Inr (Some (strip_ptr_auth m (st_x s' 30))), regs_of m s')"
proof -
  from exec_restores [OF assms(3) a64_run_restores [OF assms(1,2)] assms(4)] obtain rule where
    rule: "epilogue_rule_a64 (found_return (detector_of (restores prog))) = Some rule"
      "exec_a64 rule True (regs_of m s) (st_mem s) =
        (Inr (Some (strip_ptr_auth m (st_x s' 30))), regs_of m s')" by blast
  obtain i rest where i: "prog @ [IRet] = i # rest" by (cases prog) auto
  define code where "code = code_bytes_a64 (i # rest) @ post"
  have "unwind_rule_from_detected_epilogue_a64 (pre @ code) (length pre) = Some (Some rule)"
    using analyze_slice_prog [OF assms(2), of pre post] rule(1) i
    by (simp only: unwind_rule_from_detected_epilogue_a64_def code_def option.map)
  moreover have "rule_from_prologue_analysis_a64 (pre @ code) (length pre) = Some None"
    using epilogue_not_prologue [OF assms(2) i]
    by (simp add: rule_from_prologue_analysis_a64_def unwind_rule_from_detected_prologue_a64_def
        analyze_slices_def code_def Let_def del: encode_a64.simps)
  ultimately have "rule_from_instruction_analysis_a64 (pre @ code) (length pre) = Some (Some rule)"
    by (simp add: rule_from_instruction_analysis_a64_def analysis_epilogue)
  with rule(2) show ?thesis unfolding code_def i by blast
qed

definition epilogue_state :: A64State where
  "epilogue_state = \<lparr>st_sp = 0x1000, st_x = (\<lambda>_. 7),
     st_mem = [0x1000 \<mapsto> 1, 0x1008 \<mapsto> 2, 0x1010 \<mapsto> 0x2000, 0x1018 \<mapsto> 0x401000]\<rparr>"

definition epilogue_prog :: "A64Instr list" where
  "epilogue_prog = [ILdp SignedOffset 2 30 29, ILdp PostIndex 4 19 20]"

theorem epilogue_analysis_sound_a64_witness:
  "\<exists>rule. rule_from_instruction_analysis_a64 (code_bytes_a64 (epilogue_prog @ [IRet])) 0 = Some (Some rule) \<and>
    (\<exists>regs'. exec_a64 rule True (regs_of new_no_strip epilogue_state) (st_mem epilogue_state) =
       (Inr (Some 0x401000), regs') \<and> a64_sp regs' = 0x1020 \<and> a64_fp regs' = 0x2000)"
proof -
  define s' where "s' = epilogue_state\<lparr>st_sp := 0x1020,
    st_x := ((((\<lambda>_. 7)(29 := 0x2000))(30 := 0x401000))(20 := 1))(19 := 2)\<rparr>"
  have run: "a64_run (\<lambda>lr sp. lr) epilogue_prog epilogue_state = Some s'"
    by (simp add: epilogue_prog_def epilogue_state_def s'_def set_x_def Let_def)
  have "restores epilogue_prog = \<lparr>rs_sp = 32, rs_fp = Some 16, rs_lr = Some 24\<rparr>"
    by (simp add: restores_def epilogue_prog_def track_load_def Let_def)
  then have "restorable (st_sp epilogue_state) (restores epilogue_prog)"
    by (simp add: restorable_def slot_ok_def epilogue_state_def)
  with epilogue_analysis_sound_a64 [OF run, of new_no_strip "[]" "[]"]
  obtain rule where "rule_from_instruction_analysis_a64 (code_bytes_a64 (epilogue_prog @ [IRet])) 0 =
      Some (Some rule)"
    "exec_a64 rule True (regs_of new_no_strip epilogue_state) (st_mem epilogue_state) =
      (Inr (Some 0x401000), regs_of new_no_strip s')"
    by (auto simp: s'_def epilogue_prog_def new_no_strip_def)
  then show ?thesis by (auto simp: s'_def)
qed

section \<open>Prologues\<close>

lemma a64_run_lowers:
  assumes "a64_run pac prog s = Some s'" "list_all is_prologue_instr prog"
    and "\<And>lr sp. strip_ptr_auth m (pac lr sp) = strip_ptr_auth m lr"
  shows "st_sp s' = st_sp s - word_of_int (lowered prog) \<and> st_x s' 29 = st_x s 29 \<and>
    strip_ptr_auth m (st_x s' 30) = strip_ptr_auth m (st_x s 30)"
  using assms(1,2)
proof (induction prog arbitrary: s)
  case (Cons i prog)
  from Cons.prems obtain s1 where s1: "a64_step pac i s = Some s1" "a64_run pac prog s1 = Some s'"
    by (auto simp: bind_eq_Some_conv)
  have "st_sp s1 = st_sp s - word_of_int (lowers i) \<and> st_x s1 29 = st_x s 29 \<and>
      strip_ptr_auth m (st_x s1 30) = strip_ptr_auth m (st_x s 30)"
    using s1(1) Cons.prems(2) assms(3)
    by (cases i rule: is_prologue_instr.cases) (auto simp: Let_def)
  with Cons.IH [OF s1(2)] Cons.prems(2) show ?case by (simp add: lowered_def)
qed (simp add: lowered_def)

text \<open>
  C19: unwinding from an aarch64 prologue: a function is entered with its caller's stack pointer,
  frame pointer and the return address in the link register. When the executed instructions are
  stores of register pairs, subtractions from the stack pointer and \<open>pacibsp\<close> (whose signature the
  mask strips), and the next instruction is one the detector takes for a prologue, the analysis
  finds a rule whose execution gives back the registers at entry, provided the code has lowered
  the stack pointer by a multiple of 16 that fits a rule.
\<close>

theorem prologue_analysis_sound_a64:
  assumes run: "a64_run pac prog s0 = Some s" and prog: "list_all is_prologue_instr prog"
    and pac: "\<And>lr sp. strip_ptr_auth m (pac lr sp) = strip_ptr_auth m lr"
    and pre: "prologue_boundary ws" and expected: "4 \<le> length post"
      "case analyze_prologue_instruction_type (read_insn post) of
         VeryLikelyPartOfPrologue \<Rightarrow> True
       | CouldBePartOfPrologueIfThereIsAlsoAStackPointerSub \<Rightarrow> lowered prog \<noteq> 0
       | NotExpectedInPrologue \<Rightarrow> False"
    and room: "0 \<le> lowered prog" "lowered prog < 2 ^ 20" "16 dvd lowered prog"
      "uint (st_sp s) + lowered prog < 2 ^ 64"
    and ra: "strip_ptr_auth m (st_x s0 30) \<noteq> 0"
  shows "\<exists>rule. rule_from_instruction_analysis_a64
      (words_bytes ws @ code_bytes_a64 prog @ post) (length (words_bytes ws @ code_bytes_a64 prog)) =
        Some (Some rule) \<and>
    exec_a64 rule True (regs_of m s) (st_mem s) =
      (Inr (Some (strip_ptr_auth m (st_x s0 30))), regs_of m s0)"
proof -
  define code where "code = words_bytes ws @ code_bytes_a64 prog"
  note m = a64_run_lowers [OF run prog pac]
  have sp: "st_sp s + word_of_int (lowered prog) = st_sp s0" using m by simp
  from offset_by_16 [OF room, unfolded sp] obtain w16 :: u16 where
    w16: "try_unsigned (sint (word_of_int (lowered prog) :: i32) sdiv 16) = Some w16"
      "w16 = 0 \<longleftrightarrow> lowered prog = 0" "checked_add (st_sp s) (ucast w16 * 16) = Some (st_sp s0)" .
  define rule where "rule = (if w16 = 0 then NoOp else OffsetSp w16)"
  have "sint (word_of_int (lowered prog) :: i32) = lowered prog"
    using room(1,2) by (intro sint_i32_small) simp_all
  then have nz: "(word_of_int (lowered prog) :: i32) = 0 \<longleftrightarrow> lowered prog = 0" by (metis of_int_0 signed_0)
  have "analyze_slices prologue_detector_new code post = FoundFunctionStart (word_of_int (lowered prog))"
    unfolding code_def using prog pre expected nz
    by (intro analyze_slices_prog) (auto split: PrologueInstructionType.splits)
  then have "rule_from_prologue_analysis_a64 (code @ post) (length code) = Some (Some rule)"
    using w16(1) by (simp add: rule_from_prologue_analysis_a64_def
        unwind_rule_from_detected_prologue_a64_def rule_def)
  then have "rule_from_instruction_analysis_a64 (code @ post) (length code) = Some (Some rule)"
    unfolding rule_from_instruction_analysis_a64_def by (rule analysis_prologue)
  moreover have "exec_a64 rule True (regs_of m s) (st_mem s) =
      (Inr (Some (strip_ptr_auth m (st_x s0 30))), regs_of m s0)"
    using m w16 sp ra by (intro exec_a64_first [where lr = "strip_ptr_auth m (st_x s 30)"])
      (auto simp: rule_def offset_sp_a64_Inr)
  ultimately show ?thesis unfolding code_def by auto
qed

definition prologue_entry :: A64State where
  "prologue_entry = \<lparr>st_sp = 0x1040, st_x = (\<lambda>reg. if reg = 30 then 0x401000 else 9), st_mem = Map.empty\<rparr>"

theorem prologue_analysis_sound_a64_witness:
  "\<exists>s rule. a64_run (\<lambda>lr sp. lr) [IPacibsp, IStp PreIndex (- 8) 23 24] prologue_entry = Some s \<and>
    rule_from_instruction_analysis_a64 ([0xc0, 0x03, 0x5f, 0xd6] @
      code_bytes_a64 [IPacibsp, IStp PreIndex (- 8) 23 24] @ [0xf6, 0x57, 0x01, 0xa9]) 12 = Some (Some rule) \<and>
    (\<exists>regs'. exec_a64 rule True (regs_of new_no_strip s) (st_mem s) = (Inr (Some 0x401000), regs') \<and>
       a64_sp regs' = 0x1040 \<and> a64_fp regs' = 9)"
proof -
  define prog where "prog = [IPacibsp, IStp PreIndex (- 8) 23 24]"
  obtain s where run: "a64_run (\<lambda>lr sp. lr) prog prologue_entry = Some s" and sp: "st_sp s = 0x1000"
    by (simp add: prog_def prologue_entry_def Let_def)
  have ws: "words_bytes [0xd65f03c0] = [0xc0, 0x03, 0x5f, 0xd6]"
    by (simp add: words_bytes_def to_le_bytes_def upt_rec)
  have low: "lowered prog = 64" by (simp add: prog_def lowered_def)
  have "read_insn [0xf6, 0x57, 0x01, 0xa9] = 0xa90157f6" by (simp add: read_insn_def from_le_bytes_def)
  then have "analyze_prologue_instruction_type (read_insn [0xf6, 0x57, 0x01, 0xa9]) =
      CouldBePartOfPrologueIfThereIsAlsoAStackPointerSub"
    by (simp add: analyze_prologue_instruction_type_def Let_def)
  then have "\<exists>rule. rule_from_instruction_analysis_a64
      (words_bytes [0xd65f03c0] @ code_bytes_a64 prog @ [0xf6, 0x57, 0x01, 0xa9])
      (length (words_bytes [0xd65f03c0] @ code_bytes_a64 prog)) = Some (Some rule) \<and>
    exec_a64 rule True (regs_of new_no_strip s) (st_mem s) =
      (Inr (Some (strip_ptr_auth new_no_strip (st_x prologue_entry 30))), regs_of new_no_strip prologue_entry)"
    by (intro prologue_analysis_sound_a64 [OF run])
      (simp_all add: low sp prologue_boundary_def reverse_step_instruction_def prologue_entry_def
        new_no_strip_def, simp add: prog_def)
  moreover have "length (words_bytes [0xd65f03c0] @ code_bytes_a64 prog) = 12"
    by (simp add: prog_def words_bytes_def)
  ultimately show ?thesis using run unfolding ws prog_def [symmetric]
    by (fastforce simp: prologue_entry_def new_no_strip_def)
qed

section \<open>A prologue that is not recognised as one\<close>

text \<open>
  Large frames are set up by \<open>stp x29, x30, [sp, #-16]!\<close>, \<open>mov x29, sp\<close>, \<open>sub sp, sp, #N\<close>. At the
  last of these the next instruction is expected in a prologue, but the backwards walk stops at
  the \<open>mov\<close>, which \<open>analyze_prologue_instruction_type\<close> accepts and \<open>reverse_step_instruction\<close> does
  not, and reports the function start there. The rule is then \<open>NoOp\<close> although the frame record
  is already pushed and \<open>fp\<close> points at it: the caller's return address is found, the stack pointer is
  16 too low, and unwinding the caller through its frame pointer yields the same return address
  again.
\<close>

theorem prologue_after_mov_fp_repeats_caller:
  assumes "mem fp = Some caller_fp" "mem (fp + 8) = Some ra" "ra \<noteq> 0" "fp < caller_fp"
    "unat fp + 16 < 2 ^ 64"
  shows "rule_from_instruction_analysis_a64
      [0xfd, 0x7b, 0xbf, 0xa9, 0xfd, 0x03, 0x00, 0x91, 0xff, 0x03, 0x10, 0xd1] 8 = Some (Some NoOp)"
    "exec_a64 NoOp True (a64_new ra fp fp) mem = (Inr (Some ra), a64_new ra fp fp)"
    "\<exists>regs'. exec_a64 UseFramePointer False (a64_new ra fp fp) mem = (Inr (Some ra), regs') \<and>
       a64_sp regs' = fp + 16 \<and> a64_fp regs' = caller_fp"
proof -
  have "read_insn [0xff, 0x03, 0x10, 0xd1] = 0xd11003ff"
    "insn_words [0xfd, 0x7b, 0xbf, 0xa9, 0xfd, 0x03, 0x00, 0x91] = [0xa9bf7bfd, 0x910003fd]"
    by (simp_all add: read_insn_def from_le_bytes_def)
  moreover have "analyze_prologue_instruction_type 0xd11003ff = VeryLikelyPartOfPrologue"
    by (simp add: analyze_prologue_instruction_type_def Let_def)
  ultimately show "rule_from_instruction_analysis_a64
      [0xfd, 0x7b, 0xbf, 0xa9, 0xfd, 0x03, 0x00, 0x91, 0xff, 0x03, 0x10, 0xd1] 8 = Some (Some NoOp)"
    by (simp add: rule_from_instruction_analysis_a64_def rule_from_instruction_analysis_def
        rule_from_prologue_analysis_a64_def split_at_def unwind_rule_from_detected_prologue_a64_def
        analyze_slices_def prologue_detector_new_def reverse_step_instruction_def try_unsigned_def Let_def)
  show "exec_a64 NoOp True (a64_new ra fp fp) mem = (Inr (Some ra), a64_new ra fp fp)"
    using assms(3) by (simp add: exec_a64_Some_iff a64_new_def a64_set_sp_def a64_set_fp_def
        a64_set_lr_def new_no_strip_def)
  have "checked_add fp 16 = Some (fp + 16)" using assms(5) by (simp add: checked_add_def)
  moreover have "fp < fp + 16" using assms(5) by (simp add: word_less_nat_alt unat_add_no_overflow)
  moreover have "caller_fp \<noteq> 0" using assms(4) by auto
  ultimately show "\<exists>regs'. exec_a64 UseFramePointer False (a64_new ra fp fp) mem = (Inr (Some ra), regs') \<and>
       a64_sp regs' = fp + 16 \<and> a64_fp regs' = caller_fp"
    using assms(1-4)
    by (auto simp: exec_a64_Some_iff read_frame_record_a64_Inr bind_res_Inr_iff check_frame_a64_Inr)
qed

end
