(* ===== verification/Module_List.thy ===== *)
theory Module_List
  imports Prelude "HOL-Library.Multiset"
begin

text \<open>
  The unwinder's list of modules (\<^verbatim>\<open>vendor/framehop/src/unwinder.rs\<close>, \<open>UnwinderInternal\<close>): sorted
  by start address and cut into chunks of at most \<open>2 * MODULE_CHUNK\<close> modules, so that a change
  copies one chunk. The theory models its operations and shows that they implement a plain
  sorted list. \<open>Arc::make_mut\<close> copies a shared chunk before changing it, which is what an
  update of an immutable list does, so clones never see later changes.
\<close>

section \<open>State and operations\<close>

text \<open>A module; \<open>'d\<close> is the type of its unwind data.\<close>

record 'd Module =
  mod_name :: string
  avma_start :: u64
  avma_end :: u64
  base_avma :: u64
  base_svma :: u64
  unwind_data :: 'd

definition MODULE_CHUNK :: nat where
  "MODULE_CHUNK = 64"

definition chunk_index_for :: "'d Module list list \<Rightarrow> u64 \<Rightarrow> nat" where
  "chunk_index_for chunks address =
     (case binary_search (map (\<lambda>chunk. avma_start (chunk ! 0)) chunks) address of
        Inr i \<Rightarrow> i
      | Inl 0 \<Rightarrow> 0
      | Inl i \<Rightarrow> i - 1)"

definition insert_at :: "nat \<Rightarrow> 'a \<Rightarrow> 'a list \<Rightarrow> 'a list" where
  "insert_at i x xs = take i xs @ x # drop i xs"

definition add_chunked :: "'d Module list list \<Rightarrow> 'd Module \<Rightarrow> 'd Module list list" where
  "add_chunked chunks m =
     (if chunks = [] then [[m]]
      else let chunk_index = chunk_index_for chunks (avma_start m);
               chunk = chunks ! chunk_index;
               insertion_index = (case binary_search (map avma_start chunk) (avma_start m) of
                                    Inr i \<Rightarrow> i | Inl i \<Rightarrow> i);
               chunk' = insert_at insertion_index m chunk
           in if length chunk' > 2 * MODULE_CHUNK
              then insert_at (chunk_index + 1) (drop MODULE_CHUNK chunk')
                     (chunks[chunk_index := take MODULE_CHUNK chunk'])
              else chunks[chunk_index := chunk'])"

definition remove_at :: "nat \<Rightarrow> 'a list \<Rightarrow> 'a list" where
  "remove_at i xs = take i xs @ drop (Suc i) xs"

text \<open>\<open>None\<close> when no module starts at the address, and the list is left alone.\<close>

definition remove_chunked :: "'d Module list list \<Rightarrow> u64 \<Rightarrow> 'd Module list list option" where
  "remove_chunked chunks start =
     (if chunks = [] then None
      else let chunk_index = chunk_index_for chunks start;
               chunk = chunks ! chunk_index
           in case binary_search (map avma_start chunk) start of
                Inl _ \<Rightarrow> None
              | Inr index \<Rightarrow>
                  (let chunk' = remove_at index chunk
                   in Some (if chunk' = [] then remove_at chunk_index chunks
                            else chunks[chunk_index := chunk'])))"

definition max_known_chunked :: "'d Module list list \<Rightarrow> u64" where
  "max_known_chunked chunks =
     (if chunks = [] then 0 else if last chunks = [] then 0 else avma_end (last (last chunks)))"

text \<open>
  \<open>find_module_for_address\<close>. The range test is only made when the address is not the start
  of a module; the subtraction \<open>address - base_avma\<close> cannot wrap after the check before it.
\<close>

definition candidate_in_chunk :: "'d Module list \<Rightarrow> u64 \<Rightarrow> 'd Module option" where
  "candidate_in_chunk chunk address =
     (case binary_search (map avma_start chunk) address of
        Inr i \<Rightarrow> Some (chunk ! i)
      | Inl 0 \<Rightarrow> None
      | Inl i \<Rightarrow>
          (let m = chunk ! (i - 1) in if avma_end m \<le> address then None else Some m))"

definition find_chunked :: "'d Module list list \<Rightarrow> u64 \<Rightarrow> ('d Module \<times> u32) option" where
  "find_chunked chunks address =
     (if chunks = [] then None
      else case candidate_in_chunk (chunks ! chunk_index_for chunks address) address of
             None \<Rightarrow> None
           | Some m \<Rightarrow>
               if address < base_avma m then None
               else map_option (\<lambda>rel. (m, rel)) (try_unsigned (uint (address - base_avma m))))"

section \<open>The invariant\<close>

definition chunks_wf :: "'d Module list list \<Rightarrow> bool" where
  "chunks_wf chunks \<longleftrightarrow>
     (\<forall>chunk \<in> set chunks. chunk \<noteq> [] \<and> length chunk \<le> 2 * MODULE_CHUNK) \<and>
     sorted (map avma_start (concat chunks))"

lemma sorted_concat_order:
  assumes "sorted (map f (concat xss))" "i < j" "j < length xss" "x \<in> set (xss ! i)" "y \<in> set (xss ! j)"
  shows "f x \<le> f y"
  using assms
proof (induction xss arbitrary: i j)
  case (Cons xs xss)
  show ?case
  proof (cases i)
    case 0
    with Cons.prems have "x \<in> set xs" "y \<in> set (xss ! (j - 1))" "j - 1 < length xss"
      by (auto simp: nth_Cons')
    then have "x \<in> set xs" "y \<in> set (concat xss)" by (auto intro: nth_mem)
    with Cons.prems(1) show ?thesis by (auto simp: sorted_append)
  next
    case (Suc i')
    with Cons.prems Cons.IH [of i' "j - 1"] show ?thesis
      by (auto simp: sorted_append nth_Cons')
  qed
qed simp

lemma sorted_chunk: "sorted (map f (concat xss)) \<Longrightarrow> xs \<in> set xss \<Longrightarrow> sorted (map f xs)"
  by (induction xss) (auto simp: sorted_append)

lemma sorted_heads:
  assumes "chunks_wf chunks"
  shows "sorted (map (\<lambda>chunk. avma_start (chunk ! 0)) chunks)"
proof (rule sorted_iff_nth_mono_less [THEN iffD2], intro allI impI)
  fix i j assume "i < j" "j < length (map (\<lambda>chunk. avma_start (chunk ! 0)) chunks)"
  moreover from this have "chunks ! i \<noteq> []" "chunks ! j \<noteq> []"
    using assms by (auto simp: chunks_wf_def)
  ultimately show "map (\<lambda>chunk. avma_start (chunk ! 0)) chunks ! i
      \<le> map (\<lambda>chunk. avma_start (chunk ! 0)) chunks ! j"
    using assms sorted_concat_order [of avma_start chunks i j "chunks ! i ! 0" "chunks ! j ! 0"]
    by (simp add: chunks_wf_def)
qed

text \<open>The chosen chunk: everything before it is at or below the address, everything after above.\<close>

lemma chunk_index_for:
  fixes a :: u64
  assumes wf: "chunks_wf chunks" and ne: "chunks \<noteq> []"
  defines "ci \<equiv> chunk_index_for chunks a"
  shows "ci < length chunks"
    and "\<And>j m. j < ci \<Longrightarrow> m \<in> set (chunks ! j) \<Longrightarrow> avma_start m \<le> a"
    and "\<And>j m. ci < j \<Longrightarrow> j < length chunks \<Longrightarrow> m \<in> set (chunks ! j) \<Longrightarrow>
      a \<le> avma_start m \<and> (avma_start (chunks ! ci ! 0) \<noteq> a \<longrightarrow> a < avma_start m)"
    and "ci = 0 \<or> avma_start (chunks ! ci ! 0) \<le> a"
proof -
  let ?hs = "map (\<lambda>chunk. avma_start (chunk ! 0)) chunks"
  have chunk: "chunks ! j \<noteq> []" if "j < length chunks" for j using wf that by (auto simp: chunks_wf_def)
  have sorted: "sorted (map avma_start (concat chunks))" using wf by (simp add: chunks_wf_def)
  have head: "avma_start (chunks ! j ! 0) \<le> avma_start m" if "j < length chunks" "m \<in> set (chunks ! j)" for j m
    using sorted_chunk [OF sorted nth_mem [OF that(1)]] that(2) by (cases "chunks ! j") auto
  have ci: "ci < length chunks \<and> (ci = 0 \<or> ?hs ! ci \<le> a) \<and>
      (\<forall>j. ci < j \<longrightarrow> j < length chunks \<longrightarrow> a \<le> ?hs ! j \<and> (?hs ! ci \<noteq> a \<longrightarrow> a < ?hs ! j))"
  proof (cases "binary_search ?hs a")
    case (Inr i)
    with binary_search_Inr [OF sorted_heads [OF wf] Inr] sorted_heads [OF wf] show ?thesis
      by (auto simp: ci_def chunk_index_for_def dest: sorted_nth_mono less_imp_le)
  next
    case (Inl i)
    note b = binary_search_Inl [OF sorted_heads [OF wf] Inl]
    show ?thesis
    proof (cases i)
      case 0
      with Inl b ne show ?thesis by (auto simp: ci_def chunk_index_for_def intro: less_imp_le)
    next
      case (Suc k)
      with Inl b(1) b(2) [of k] b(3) show ?thesis
        by (auto simp: ci_def chunk_index_for_def less_imp_le)
    qed
  qed
  then show "ci < length chunks" by blast
  show "avma_start m \<le> a" if "j < ci" "m \<in> set (chunks ! j)" for j m
  proof -
    have "avma_start m \<le> avma_start (chunks ! ci ! 0)"
      using sorted_concat_order [OF sorted that(1) _ that(2)] ci chunk by simp
    also have "\<dots> \<le> a" using ci that(1) by auto
    finally show ?thesis .
  qed
  show "a \<le> avma_start m \<and> (avma_start (chunks ! ci ! 0) \<noteq> a \<longrightarrow> a < avma_start m)"
    if "ci < j" "j < length chunks" "m \<in> set (chunks ! j)" for j m
    using ci that head [of j m] by (auto intro: order_trans less_le_trans)
  show "ci = 0 \<or> avma_start (chunks ! ci ! 0) \<le> a" using ci by auto
qed

section \<open>Refinement of a sorted list\<close>

lemma insert_at_append: "insert_at i x xs = take i xs @ [x] @ drop i xs"
  by (simp add: insert_at_def)

lemma chunks_split:
  "ci < length chunks \<Longrightarrow> chunks = take ci chunks @ chunks ! ci # drop (Suc ci) chunks"
  by (rule id_take_nth_drop)

lemma concat_update:
  "ci < length chunks \<Longrightarrow>
     concat (chunks[ci := c]) = concat (take ci chunks) @ c @ concat (drop (Suc ci) chunks)"
  by (simp add: upd_conv_take_nth_drop)

lemma concat_chunks_at:
  "ci < length chunks \<Longrightarrow>
     concat chunks = concat (take ci chunks) @ chunks ! ci @ concat (drop (Suc ci) chunks)"
  using concat_update [of ci chunks "chunks ! ci"] by simp

text \<open>Where the binary search inserts, whether it finds the key or not.\<close>

lemma insertion_index:
  fixes k :: "'k::linorder"
  assumes "sorted (map f xs)"
  defines "i \<equiv> (case binary_search (map f xs) k of Inr i \<Rightarrow> i | Inl i \<Rightarrow> i)"
  shows "i \<le> length xs" "\<And>x. x \<in> set (take i xs) \<Longrightarrow> f x \<le> k" "\<And>x. x \<in> set (drop i xs) \<Longrightarrow> k \<le> f x"
proof -
  have "i \<le> length xs \<and> (\<forall>j < i. f (xs ! j) \<le> k) \<and> (\<forall>j. i \<le> j \<longrightarrow> j < length xs \<longrightarrow> k \<le> f (xs ! j))"
  proof (cases "binary_search (map f xs) k")
    case (Inr j)
    with binary_search_Inr [OF assms(1) Inr] assms(1) show ?thesis
      by (auto simp: i_def sorted_iff_nth_mono)
  next
    case (Inl j)
    with binary_search_Inl [OF assms(1) Inl] show ?thesis
      by (force simp: i_def intro: less_imp_le)
  qed
  then show "i \<le> length xs" "\<And>x. x \<in> set (take i xs) \<Longrightarrow> f x \<le> k"
    "\<And>x. x \<in> set (drop i xs) \<Longrightarrow> k \<le> f x"
    by (auto simp: in_set_conv_nth)
qed

lemma before_chunk:
  assumes "chunks_wf chunks" "chunks \<noteq> []" "m \<in> set (concat (take (chunk_index_for chunks a) chunks))"
  shows "avma_start m \<le> a"
proof -
  from assms(3) obtain j where "j < chunk_index_for chunks a" "m \<in> set (chunks ! j)"
    by (auto simp: in_set_conv_nth [of _ "take _ _"])
  with chunk_index_for(2) [OF assms(1,2)] show ?thesis by blast
qed

lemma after_chunk:
  assumes "chunks_wf chunks" "chunks \<noteq> []" "m \<in> set (concat (drop (Suc (chunk_index_for chunks a)) chunks))"
  shows "a \<le> avma_start m"
proof -
  from assms(3) obtain j where "j < length chunks - Suc (chunk_index_for chunks a)"
    "m \<in> set (chunks ! (Suc (chunk_index_for chunks a) + j))"
    by (auto simp: in_set_conv_nth [of _ "drop _ _"])
  with chunk_index_for(3) [OF assms(1,2), of a "Suc (chunk_index_for chunks a) + j"] show ?thesis by simp
qed

text \<open>The split leaves the sequence of modules as it is.\<close>

lemma concat_split:
  assumes "ci < length chunks"
  shows "concat (insert_at (ci + 1) (drop n c) (chunks[ci := take n c])) = concat (chunks[ci := c])"
  using assms
  by (simp add: insert_at_def upd_conv_take_nth_drop take_Cons' min_absorb1 min_absorb2)

lemma concat_add_chunked:
  assumes wf: "chunks_wf chunks"
  obtains xs ys where "concat chunks = xs @ ys" "concat (add_chunked chunks m) = xs @ m # ys"
    "\<And>x. x \<in> set xs \<Longrightarrow> avma_start x \<le> avma_start m" "\<And>y. y \<in> set ys \<Longrightarrow> avma_start m \<le> avma_start y"
proof (cases "chunks = []")
  case True
  then show ?thesis by (intro that [of "[]" "[]"]) (simp_all add: add_chunked_def)
next
  case False
  define ci where "ci = chunk_index_for chunks (avma_start m)"
  define c where "c = chunks ! ci"
  define i where "i = (case binary_search (map avma_start c) (avma_start m) of Inr i \<Rightarrow> i | Inl i \<Rightarrow> i)"
  have ci: "ci < length chunks" using chunk_index_for(1) [OF wf False] by (simp add: ci_def)
  have c: "sorted (map avma_start c)"
    by (rule sorted_chunk [of _ chunks]) (use wf ci in \<open>auto simp: chunks_wf_def c_def\<close>)
  have "add_chunked chunks m =
      (if length (insert_at i m c) > 2 * MODULE_CHUNK
       then insert_at (ci + 1) (drop MODULE_CHUNK (insert_at i m c))
              (chunks[ci := take MODULE_CHUNK (insert_at i m c)])
       else chunks[ci := insert_at i m c])"
    unfolding add_chunked_def Let_def ci_def c_def i_def by (rule if_not_P [OF False])
  then have add: "concat (add_chunked chunks m) = concat (chunks[ci := insert_at i m c])"
    by (simp only: concat_split [OF ci] split: if_split) simp
  show ?thesis
  proof (rule that)
    show "concat chunks = (concat (take ci chunks) @ take i c) @ drop i c @ concat (drop (Suc ci) chunks)"
      using concat_chunks_at [OF ci] by (simp add: c_def)
    show "concat (add_chunked chunks m) =
        (concat (take ci chunks) @ take i c) @ m # drop i c @ concat (drop (Suc ci) chunks)"
      using add concat_update [OF ci] by (simp add: insert_at_def)
    show "avma_start x \<le> avma_start m" if "x \<in> set (concat (take ci chunks) @ take i c)" for x
      using that before_chunk [OF wf False, of x] insertion_index(2) [OF c] unfolding ci_def i_def by auto
    show "avma_start m \<le> avma_start y" if "y \<in> set (drop i c @ concat (drop (Suc ci) chunks))" for y
      using that after_chunk [OF wf False, of y] insertion_index(3) [OF c] unfolding ci_def i_def by auto
  qed
qed

lemma add_chunked_sizes:
  assumes "chunks_wf chunks" "chunk \<in> set (add_chunked chunks m)"
  shows "chunk \<noteq> [] \<and> length chunk \<le> 2 * MODULE_CHUNK"
proof (cases "chunks = []")
  case True
  with assms(2) show ?thesis by (simp add: add_chunked_def MODULE_CHUNK_def)
next
  case False
  define ci where "ci = chunk_index_for chunks (avma_start m)"
  define c where "c = chunks ! ci"
  define i where "i = (case binary_search (map avma_start c) (avma_start m) of Inr i \<Rightarrow> i | Inl i \<Rightarrow> i)"
  have ci: "ci < length chunks" using chunk_index_for(1) [OF assms(1) False] by (simp add: ci_def)
  then have old: "d \<noteq> [] \<and> length d \<le> 2 * MODULE_CHUNK" if "d \<in> set chunks" for d
    using assms(1) that by (simp add: chunks_wf_def)
  from ci have lc: "length c \<le> 2 * MODULE_CHUNK" using old [of c] by (simp add: c_def)
  have l: "length (insert_at i m c) = Suc (length c)" "insert_at i m c \<noteq> []"
    by (simp_all add: insert_at_def)
  have mem: "chunk \<in> set chunks \<or>
      (if length (insert_at i m c) > 2 * MODULE_CHUNK
       then chunk = take MODULE_CHUNK (insert_at i m c) \<or> chunk = drop MODULE_CHUNK (insert_at i m c)
       else chunk = insert_at i m c)"
  proof -
    have upd: "d \<in> set (chunks[ci := e]) \<Longrightarrow> d \<in> set chunks \<or> d = e" for d e
      using set_update_subset_insert [of chunks ci e] by auto
    have ins: "d \<in> set (insert_at k e ds) \<Longrightarrow> d \<in> set ds \<or> d = e" for d e k and ds :: "'a Module list list"
      by (auto simp: insert_at_def dest: in_set_takeD in_set_dropD)
    have "add_chunked chunks m = (if length (insert_at i m c) > 2 * MODULE_CHUNK
       then insert_at (ci + 1) (drop MODULE_CHUNK (insert_at i m c))
              (chunks[ci := take MODULE_CHUNK (insert_at i m c)])
       else chunks[ci := insert_at i m c])"
      unfolding add_chunked_def Let_def ci_def c_def i_def by (rule if_not_P [OF False])
    with assms(2) show ?thesis by (auto split: if_splits dest!: ins upd)
  qed
  show ?thesis
  proof (cases "chunk \<in> set chunks")
    case False
    with mem l lc show ?thesis by (auto simp: MODULE_CHUNK_def split: if_splits)
  qed (rule old)
qed

lemma add_chunked_wf: "chunks_wf chunks \<Longrightarrow> chunks_wf (add_chunked chunks m)"
proof -
  assume wf: "chunks_wf chunks"
  obtain xs ys where e: "concat chunks = xs @ ys" "concat (add_chunked chunks m) = xs @ m # ys"
    "\<And>x. x \<in> set xs \<Longrightarrow> avma_start x \<le> avma_start m" "\<And>y. y \<in> set ys \<Longrightarrow> avma_start m \<le> avma_start y"
    by (rule concat_add_chunked [OF wf, of m]) blast
  have "sorted (map avma_start (xs @ ys))" using wf e(1) by (simp add: chunks_wf_def)
  then have "sorted (map avma_start (xs @ m # ys))" using e(3,4) by (auto simp: sorted_append)
  with add_chunked_sizes [OF wf] e(2) show ?thesis by (auto simp: chunks_wf_def)
qed

subsection \<open>Removal\<close>

lemma chunk_head:
  assumes "chunks_wf chunks" "j < length chunks"
  shows "chunks ! j ! 0 \<in> set (chunks ! j)"
    and "\<And>m. m \<in> set (chunks ! j) \<Longrightarrow> avma_start (chunks ! j ! 0) \<le> avma_start m"
proof -
  have "chunks ! j \<noteq> []" "sorted (map avma_start (chunks ! j))"
    using assms sorted_chunk [of avma_start chunks "chunks ! j"] by (auto simp: chunks_wf_def)
  then show "chunks ! j ! 0 \<in> set (chunks ! j)"
    "\<And>m. m \<in> set (chunks ! j) \<Longrightarrow> avma_start (chunks ! j ! 0) \<le> avma_start m"
    by (cases "chunks ! j"; auto)+
qed

lemma in_concat_chunk:
  assumes "m \<in> set (concat chunks)"
  obtains j where "j < length chunks" "m \<in> set (chunks ! j)"
  using assms by (metis (no_types, lifting) in_set_conv_nth set_concat UN_E)

text \<open>If some module starts at an address, one in the chosen chunk does.\<close>

lemma start_in_chosen_chunk:
  assumes wf: "chunks_wf chunks" and m: "m \<in> set (concat chunks)" "avma_start m = a"
  shows "a \<in> avma_start ` set (chunks ! chunk_index_for chunks a)"
proof -
  define ci where "ci = chunk_index_for chunks a"
  from m(1) obtain j where j: "j < length chunks" "m \<in> set (chunks ! j)" by (rule in_concat_chunk)
  then have ne: "chunks \<noteq> []" by auto
  note ci = chunk_index_for [OF wf ne, where a = a, folded ci_def]
  note head = chunk_head [OF wf ci(1)]
  show ?thesis
  proof (cases "avma_start (chunks ! ci ! 0) = a")
    case True
    with head(1) show ?thesis unfolding ci_def by (metis imageI)
  next
    case False
    have "\<not> ci < j" using ci(3) [of j m] j m(2) False by auto
    moreover have "\<not> j < ci"
    proof
      assume "j < ci"
      with sorted_concat_order [of avma_start chunks j ci m "chunks ! ci ! 0"] wf j ci(1) head(1)
      have "a \<le> avma_start (chunks ! ci ! 0)" by (auto simp: chunks_wf_def m(2))
      with ci(4) \<open>j < ci\<close> False show False by auto
    qed
    ultimately have "j = ci" by simp
    with j m(2) show ?thesis by (auto simp: ci_def)
  qed
qed

lemma remove_chunked_None:
  assumes "chunks_wf chunks" "remove_chunked chunks a = None"
  shows "a \<notin> avma_start ` set (concat chunks)"
proof (cases "chunks = []")
  case False
  have "sorted (map avma_start (chunks ! chunk_index_for chunks a))"
    by (rule sorted_chunk [of _ chunks])
      (use assms(1) chunk_index_for(1) [OF assms(1) False] in \<open>auto simp: chunks_wf_def\<close>)
  then have "a \<notin> set (map avma_start (chunks ! chunk_index_for chunks a))"
    using assms(2) False binary_search_present
    by (metis (no_types, lifting) option.distinct(1) remove_chunked_def sum.simps(6))
  with start_in_chosen_chunk [OF assms(1)] show ?thesis by auto
qed simp

lemma remove_chunked_Some:
  assumes wf: "chunks_wf chunks" and r: "remove_chunked chunks a = Some chunks'"
  obtains xs m ys where "concat chunks = xs @ m # ys" "avma_start m = a" "concat chunks' = xs @ ys"
    "chunks_wf chunks'"
proof -
  define ci where "ci = chunk_index_for chunks a"
  define c where "c = chunks ! ci"
  from r have ne: "chunks \<noteq> []" by (auto simp: remove_chunked_def)
  have ci: "ci < length chunks" using chunk_index_for(1) [OF wf ne] by (simp add: ci_def)
  have c: "sorted (map avma_start c)"
    by (rule sorted_chunk [of _ chunks]) (use wf ci in \<open>auto simp: chunks_wf_def c_def\<close>)
  from r ne obtain i where b: "binary_search (map avma_start c) a = Inr i"
    and chunks': "chunks' = (if remove_at i c = [] then remove_at ci chunks
                            else chunks[ci := remove_at i c])"
    by (auto simp: remove_chunked_def Let_def ci_def [symmetric] c_def [symmetric]
        simp del: length_greater_0_conv split: sum.splits)
  from binary_search_Inr [OF c b] have i: "i < length c" "avma_start (c ! i) = a" by auto
  define xs ys where "xs = concat (take ci chunks) @ take i c"
    and "ys = drop (Suc i) c @ concat (drop (Suc ci) chunks)"
  have old: "concat chunks = xs @ c ! i # ys"
    using concat_chunks_at [OF ci] id_take_nth_drop [OF i(1)] by (simp add: xs_def ys_def c_def)
  have new: "concat chunks' = xs @ ys"
  proof (cases "remove_at i c = []")
    case True
    then show ?thesis by (simp add: chunks' xs_def ys_def remove_at_def)
  next
    case False
    then show ?thesis
      by (simp add: chunks' concat_update [OF ci] xs_def ys_def) (simp add: remove_at_def)
  qed
  have "d \<noteq> [] \<and> length d \<le> 2 * MODULE_CHUNK" if "d \<in> set chunks'" for d
  proof -
    have "d \<in> set chunks \<or> (d = remove_at i c \<and> d \<noteq> [])"
      using that set_update_subset_insert [of chunks ci "remove_at i c"]
      by (auto simp: chunks' remove_at_def [of ci] dest: in_set_takeD in_set_dropD split: if_splits)
    moreover have "length (remove_at i c) \<le> length c" using i(1) by (simp add: remove_at_def)
    moreover have "length c \<le> 2 * MODULE_CHUNK" using wf ci by (auto simp: chunks_wf_def c_def)
    ultimately show ?thesis using wf by (auto simp: chunks_wf_def)
  qed
  moreover have "sorted (map avma_start (xs @ ys))"
    using wf old by (auto simp: chunks_wf_def sorted_append)
  ultimately have "chunks_wf chunks'" by (auto simp: chunks_wf_def new)
  with old new i(2) show ?thesis by (intro that)
qed

subsection \<open>Lookup\<close>

text \<open>Modules of a process: non-empty ranges, one above the other.\<close>

definition ranges_disjoint :: "'d Module list \<Rightarrow> bool" where
  "ranges_disjoint ms \<longleftrightarrow> (\<forall>m \<in> set ms. avma_start m < avma_end m) \<and>
     sorted_wrt (\<lambda>m m'. avma_end m \<le> avma_start m') ms"

definition module_contains :: "'d Module \<Rightarrow> u64 \<Rightarrow> bool" where
  "module_contains m a \<longleftrightarrow> avma_start m \<le> a \<and> a < avma_end m"

lemma ranges_disjoint_pair:
  "ranges_disjoint ms \<Longrightarrow> m \<in> set ms \<Longrightarrow> m' \<in> set ms \<Longrightarrow>
     m = m' \<or> avma_end m \<le> avma_start m' \<or> avma_end m' \<le> avma_start m"
  by (induction ms) (auto simp: ranges_disjoint_def)

lemma module_contains_unique:
  "ranges_disjoint ms \<Longrightarrow> m \<in> set ms \<Longrightarrow> m' \<in> set ms \<Longrightarrow>
     module_contains m a \<Longrightarrow> module_contains m' a \<Longrightarrow> m = m'"
  using ranges_disjoint_pair [of ms m m'] by (auto simp: module_contains_def)

text \<open>Whatever the chunk search answers is right ...\<close>

lemma candidate_sound:
  assumes "chunks_wf chunks" "chunks \<noteq> []" "ranges_disjoint (concat chunks)"
    and "candidate_in_chunk (chunks ! chunk_index_for chunks a) a = Some m"
  shows "m \<in> set (concat chunks) \<and> module_contains m a"
proof -
  define c where "c = chunks ! chunk_index_for chunks a"
  have ci: "chunk_index_for chunks a < length chunks" by (rule chunk_index_for(1) [OF assms(1,2)])
  then have sub: "set c \<subseteq> set (concat chunks)" by (auto simp: c_def intro: nth_mem)
  have c: "sorted (map avma_start c)"
    by (rule sorted_chunk [of _ chunks]) (use assms(1) ci in \<open>auto simp: chunks_wf_def c_def\<close>)
  have range: "avma_start x < avma_end x" if "x \<in> set c" for x
    using assms(3) sub that by (auto simp: ranges_disjoint_def)
  show ?thesis
  proof (cases "binary_search (map avma_start c) a")
    case (Inr i)
    with binary_search_Inr [OF c Inr] have i: "i < length c" "avma_start (c ! i) = a" by auto
    moreover have "m = c ! i" using assms(4) Inr by (simp add: candidate_in_chunk_def c_def)
    ultimately show ?thesis using sub range [of "c ! i"] by (auto simp: module_contains_def intro: nth_mem)
  next
    case (Inl i)
    note b = binary_search_Inl [OF c Inl]
    obtain k where k: "i = Suc k" "m = c ! k" "a < avma_end m"
      using assms(4) Inl by (cases i) (auto simp: candidate_in_chunk_def c_def Let_def split: if_splits)
    with b(1) b(2) [of k] have "k < length c" "avma_start m < a" by auto
    with k sub show ?thesis by (auto simp: module_contains_def intro: nth_mem)
  qed
qed

text \<open>... and if some module contains the address, it answers.\<close>

lemma candidate_complete:
  assumes wf: "chunks_wf chunks" and ne: "chunks \<noteq> []" and dis: "ranges_disjoint (concat chunks)"
    and m: "m \<in> set (concat chunks)" "module_contains m a"
  shows "candidate_in_chunk (chunks ! chunk_index_for chunks a) a \<noteq> None"
proof
  assume none: "candidate_in_chunk (chunks ! chunk_index_for chunks a) a = None"
  define ci c where "ci = chunk_index_for chunks a" and "c = chunks ! ci"
  note ci = chunk_index_for [OF wf ne, where a = a, folded ci_def]
  have sorted: "sorted (map avma_start (concat chunks))" using wf by (simp add: chunks_wf_def)
  have sc: "sorted (map avma_start c)"
    by (rule sorted_chunk [OF sorted]) (use ci in \<open>auto simp: c_def\<close>)
  have sub: "set c \<subseteq> set (concat chunks)" using ci(1) by (auto simp: c_def intro: nth_mem)
  obtain j where j: "j < length chunks" "m \<in> set (chunks ! j)" using m(1) by (rule in_concat_chunk)
  note head = chunk_head [OF wf ci(1), folded c_def]
  from none obtain i where b: "binary_search (map avma_start c) a = Inl i"
    and i: "i = 0 \<or> avma_end (c ! (i - 1)) \<le> a"
    unfolding ci_def [symmetric] c_def [symmetric]
    by (auto simp: candidate_in_chunk_def Let_def split: sum.splits nat.splits if_splits)
  note b = binary_search_Inl [OF sc b]
  show False
  proof (cases i)
    case 0
    then have above: "a < avma_start x" if "x \<in> set c" for x
      using b(3) that by (auto simp: in_set_conv_nth)
    with head(1) ci(4) have "ci = 0" by (auto simp: c_def not_le [symmetric])
    with j above [OF head(1)] sorted_concat_order [OF sorted, of ci j "c ! 0" m] head(1)
      head(2) [of m] have "a < avma_start m"
      by (cases "j = ci") (auto simp: c_def)
    with m(2) show False by (auto simp: module_contains_def dest: leD)
  next
    case (Suc k)
    with b(1) b(2) [of k] i have k: "k < length c" "avma_start (c ! k) < a" "avma_end (c ! k) \<le> a"
      by auto
    have ck: "c ! k \<in> set c" using k(1) by simp
    have up: "avma_end (c ! k) \<le> avma_start m"
      using ranges_disjoint_pair [OF dis m(1) subsetD [OF sub ck]] m(2) k
      by (auto simp: module_contains_def)
    have "avma_start (c ! k) < avma_end (c ! k)"
      using dis subsetD [OF sub ck] by (auto simp: ranges_disjoint_def)
    with up have lt: "avma_start (c ! k) < avma_start m" by simp
    consider "j < ci" | "j = ci" | "ci < j" by linarith
    then show False
    proof cases
      case 1
      with sorted_concat_order [OF sorted 1 ci(1) j(2), of "c ! k"] ck lt show False by (simp add: c_def)
    next
      case 2
      with j(2) obtain k' where k': "k' < length c" "m = c ! k'" by (auto simp: c_def in_set_conv_nth)
      have "k < k'" using sorted_nth_mono [OF sc, of k' k] k(1) k' lt by (cases "k < k'") auto
      with b(3) [of k'] k' Suc m(2) show False by (auto simp: module_contains_def)
    next
      case 3
      have "avma_start (c ! 0) \<noteq> a" using head(2) [OF ck] k(2) by auto
      with ci(3) [OF 3 j] m(2) show False by (auto simp: module_contains_def c_def)
    qed
  qed
qed

lemma find_chunked_iff:
  assumes "chunks_wf chunks" "ranges_disjoint (concat chunks)"
  shows "find_chunked chunks a = Some (m, rel) \<longleftrightarrow>
     m \<in> set (concat chunks) \<and> module_contains m a \<and> base_avma m \<le> a \<and>
     uint rel = uint (a - base_avma m)"
proof (cases "chunks = []")
  case False
  have "find_chunked chunks a = Some (m, rel) \<longleftrightarrow>
      candidate_in_chunk (chunks ! chunk_index_for chunks a) a = Some m \<and> base_avma m \<le> a \<and>
      uint rel = uint (a - base_avma m)"
    using False by (auto simp: find_chunked_def try_unsigned_iff_uint not_less split: option.splits)
  moreover have "candidate_in_chunk (chunks ! chunk_index_for chunks a) a = Some m \<longleftrightarrow>
      m \<in> set (concat chunks) \<and> module_contains m a"
    using candidate_sound [OF assms(1) False assms(2)] candidate_complete [OF assms(1) False assms(2)]
      module_contains_unique [OF assms(2)] by (metis option.exhaust)
  ultimately show ?thesis by blast
qed (simp add: find_chunked_def)

text \<open>
  Without disjoint ranges the module found need not contain the address, but it is in the list,
  starts at or below the address, and the relative address is taken from its base.
\<close>

definition may_answer :: "'d Module \<Rightarrow> u64 \<Rightarrow> u32 \<Rightarrow> bool" where
  "may_answer m a rel \<longleftrightarrow> (a = avma_start m \<or> avma_start m \<le> a \<and> a < avma_end m) \<and>
     base_avma m \<le> a \<and> uint rel = uint (a - base_avma m)"

lemma find_chunked_may_answer:
  assumes "chunks_wf chunks" "find_chunked chunks a = Some (m, rel)"
  shows "m \<in> set (concat chunks) \<and> may_answer m a rel"
proof -
  define c where "c = chunks ! chunk_index_for chunks a"
  from assms(2) have ne: "chunks \<noteq> []" and cand: "candidate_in_chunk c a = Some m"
    and rel: "base_avma m \<le> a" "uint rel = uint (a - base_avma m)"
    by (auto simp: find_chunked_def c_def try_unsigned_iff_uint not_less split: if_splits option.splits)
  have ci: "chunk_index_for chunks a < length chunks" by (rule chunk_index_for(1) [OF assms(1) ne])
  then have sub: "set c \<subseteq> set (concat chunks)" by (auto simp: c_def intro: nth_mem)
  have c: "sorted (map avma_start c)"
    by (rule sorted_chunk [of _ chunks]) (use assms(1) ci in \<open>auto simp: chunks_wf_def c_def\<close>)
  have "m \<in> set c \<and> (a = avma_start m \<or> avma_start m \<le> a \<and> a < avma_end m)"
  proof (cases "binary_search (map avma_start c) a")
    case (Inr i)
    with binary_search_Inr [OF c Inr] cand show ?thesis by (auto simp: candidate_in_chunk_def intro: nth_mem)
  next
    case (Inl i)
    obtain k where k: "i = Suc k" "m = c ! k" "a < avma_end m"
      using cand Inl by (cases i) (auto simp: candidate_in_chunk_def Let_def split: if_splits)
    with binary_search_Inl [OF c Inl] show ?thesis by (fastforce intro: nth_mem order.strict_implies_order)
  qed
  with rel sub show ?thesis by (auto simp: may_answer_def)
qed

section \<open>The interface of a module store\<close>

text \<open>
  What the unwinder's clients rely on: a store lists its modules, adding one inserts it in
  order and removing by start address takes exactly that module out.
\<close>

locale module_store =
  fixes empty :: 's
    and add :: "'s \<Rightarrow> 'd Module \<Rightarrow> 's"
    and remove :: "'s \<Rightarrow> u64 \<Rightarrow> 's option"
    and listing :: "'s \<Rightarrow> 'd Module list"
    and inv :: "'s \<Rightarrow> bool"
  assumes inv_empty: "inv empty" and listing_empty: "listing empty = []"
    and inv_add: "inv s \<Longrightarrow> inv (add s m)"
    and listing_add: "inv s \<Longrightarrow> avma_start m \<notin> avma_start ` set (listing s) \<Longrightarrow>
      listing (add s m) = insort_key avma_start m (listing s)"
    and inv_remove: "inv s \<Longrightarrow> remove s a = Some s' \<Longrightarrow> inv s'"
    and listing_remove: "inv s \<Longrightarrow> distinct (map avma_start (listing s)) \<Longrightarrow>
      listing (case remove s a of None \<Rightarrow> s | Some s' \<Rightarrow> s') =
        filter (\<lambda>m. avma_start m \<noteq> a) (listing s)"

text \<open>A history of changes, and what it does to a store and to a plain list.\<close>

datatype 'd change = Add "'d Module" | Remove u64

fun store_change :: "('s \<Rightarrow> 'd Module \<Rightarrow> 's) \<Rightarrow> ('s \<Rightarrow> u64 \<Rightarrow> 's option) \<Rightarrow> 's \<Rightarrow> 'd change \<Rightarrow> 's" where
  "store_change add remove s (Add m) = add s m"
| "store_change add remove s (Remove a) = (case remove s a of None \<Rightarrow> s | Some s' \<Rightarrow> s')"

fun list_change :: "'d Module list \<Rightarrow> 'd change \<Rightarrow> 'd Module list" where
  "list_change ms (Add m) = insort_key avma_start m ms"
| "list_change ms (Remove a) = filter (\<lambda>m. avma_start m \<noteq> a) ms"

text \<open>A history never adds a module at an address where one is loaded.\<close>

fun history_ok :: "'d Module list \<Rightarrow> 'd change list \<Rightarrow> bool" where
  "history_ok ms [] = True"
| "history_ok ms (change # changes) =
     ((case change of Add m \<Rightarrow> avma_start m \<notin> avma_start ` set ms | Remove _ \<Rightarrow> True) \<and>
      history_ok (list_change ms change) changes)"

lemma list_change_distinct:
  assumes "distinct (map avma_start ms)"
    and "\<And>m. change = Add m \<Longrightarrow> avma_start m \<notin> avma_start ` set ms"
  shows "distinct (map avma_start (list_change ms change))"
proof (cases change)
  case (Add m)
  have "mset (map avma_start (insort_key avma_start m ms)) = mset (avma_start m # map avma_start ms)"
    by simp
  then have "distinct (map avma_start (insort_key avma_start m ms)) \<longleftrightarrow>
      distinct (avma_start m # map avma_start ms)"
    by (rule mset_eq_imp_distinct_iff)
  with Add assms show ?thesis by simp
next
  case (Remove a)
  with assms(1) show ?thesis by (simp add: distinct_map_filter)
qed

context module_store
begin

lemma change_refines:
  assumes "inv s" "distinct (map avma_start (listing s))" "history_ok (listing s) [change]"
  shows "inv (store_change add remove s change) \<and>
    listing (store_change add remove s change) = list_change (listing s) change"
proof (cases change)
  case (Remove a)
  with assms(1) inv_remove listing_remove [OF assms(1,2), of a] show ?thesis
    by (auto split: option.splits)
qed (use assms inv_add listing_add in auto)

lemma history_refines:
  assumes "inv s" "distinct (map avma_start (listing s))" "history_ok (listing s) changes"
  shows "inv (fold (\<lambda>c s. store_change add remove s c) changes s) \<and>
    listing (fold (\<lambda>c s. store_change add remove s c) changes s) =
      fold (\<lambda>c ms. list_change ms c) changes (listing s)"
  using assms
proof (induction changes arbitrary: s)
  case (Cons change changes)
  let ?s = "store_change add remove s change"
  have "inv ?s" "listing ?s = list_change (listing s) change"
    using change_refines [of s change] Cons.prems by auto
  moreover have "distinct (map avma_start (list_change (listing s) change))"
    using Cons.prems(2,3) by (intro list_change_distinct) auto
  ultimately show ?case using Cons.IH [of ?s] Cons.prems(3) by simp
qed simp

end

subsection \<open>The chunked list is a module store\<close>

lemma insort_key_at:
  assumes "\<And>x. x \<in> set xs \<Longrightarrow> f x < f m" "\<And>y. y \<in> set ys \<Longrightarrow> f m \<le> f y"
  shows "insort_key f m (xs @ ys) = xs @ m # ys"
  using assms
proof (induction xs)
  case Nil
  then show ?case by (cases ys) auto
next
  case (Cons x xs)
  then have "\<not> f m \<le> f x" by (simp add: not_le)
  with Cons show ?case by simp
qed

lemma remove_is_filter:
  assumes "distinct (map f (xs @ m # ys))" "f m = a"
  shows "filter (\<lambda>x. f x \<noteq> a) (xs @ m # ys) = xs @ ys"
proof -
  have "filter (\<lambda>x. f x \<noteq> a) xs = xs" "filter (\<lambda>x. f x \<noteq> a) ys = ys"
    unfolding filter_id_conv using assms by (auto simp: image_iff)
  with assms(2) show ?thesis by simp
qed

interpretation chunked: module_store "[]" add_chunked remove_chunked concat chunks_wf
proof
  show "chunks_wf []" "concat [] = []" by (simp_all add: chunks_wf_def)
next
  fix chunks :: "'b Module list list" and m
  assume wf: "chunks_wf chunks"
  then show "chunks_wf (add_chunked chunks m)" by (rule add_chunked_wf)
  assume fresh: "avma_start m \<notin> avma_start ` set (concat chunks)"
  obtain xs ys where e: "concat chunks = xs @ ys" "concat (add_chunked chunks m) = xs @ m # ys"
    "\<And>x. x \<in> set xs \<Longrightarrow> avma_start x \<le> avma_start m" "\<And>y. y \<in> set ys \<Longrightarrow> avma_start m \<le> avma_start y"
    by (rule concat_add_chunked [OF wf, of m]) blast
  have "avma_start x < avma_start m" if "x \<in> set xs" for x
    using e(3) [OF that] fresh that unfolding e(1) by (metis Un_iff image_eqI less_le set_append)
  from insort_key_at [of xs avma_start m ys, OF this e(4)] e(1,2)
  show "concat (add_chunked chunks m) = insort_key avma_start m (concat chunks)" by simp
next
  fix chunks chunks' :: "'b Module list list" and a
  assume wf: "chunks_wf chunks"
  show "chunks_wf chunks'" if r: "remove_chunked chunks a = Some chunks'"
    by (rule remove_chunked_Some [OF wf r])
  assume d: "distinct (map avma_start (concat chunks))"
  show "concat (case remove_chunked chunks a of None \<Rightarrow> chunks | Some s' \<Rightarrow> s') =
      filter (\<lambda>m. avma_start m \<noteq> a) (concat chunks)"
  proof (cases "remove_chunked chunks a")
    case None
    then have "filter (\<lambda>m. avma_start m \<noteq> a) (concat chunks) = concat chunks"
      unfolding filter_id_conv using remove_chunked_None [OF wf] by (metis imageI)
    with None show ?thesis by simp
  next
    case (Some s')
    from remove_chunked_Some [OF wf Some] obtain xs m ys where
      "concat chunks = xs @ m # ys" "avma_start m = a" "concat s' = xs @ ys" by metis
    with Some d remove_is_filter [of avma_start xs m ys a] show ?thesis by simp
  qed
qed

section \<open>Properties\<close>


definition unit_module :: "u64 \<Rightarrow> unit Module" where
  "unit_module start = \<lparr>mod_name = [], avma_start = start, avma_end = start + 0x100,
     base_avma = start, base_svma = 0, unwind_data = ()\<rparr>"


text \<open>
  C8: lookup finds exactly the module that contains the address. On disjoint modules the
  search through the chunks returns a module and an offset just when that module is listed,
  its range contains the address, its base does not lie above it and the offset from the base
  fits 32 bits; and no module ends above the highest known code address.
\<close>

theorem find_module_for_address_correct:
  assumes "chunks_wf chunks" "ranges_disjoint (concat chunks)"
  shows "(find_chunked chunks address = Some (m, rel) \<longleftrightarrow>
      m \<in> set (concat chunks) \<and> module_contains m address \<and> base_avma m \<le> address \<and>
      uint rel = uint (address - base_avma m)) \<and>
    (m \<in> set (concat chunks) \<longrightarrow> avma_end m \<le> max_known_chunked chunks)"
proof -
  have "avma_end m \<le> max_known_chunked chunks" if m: "m \<in> set (concat chunks)"
  proof -
    from m have ne: "chunks \<noteq> []" by auto
    then have last: "last chunks \<noteq> []" using assms(1) by (auto simp: chunks_wf_def)
    have "concat chunks = concat (butlast chunks) @ butlast (last chunks) @ [last (last chunks)]"
      using append_butlast_last_id [OF ne] append_butlast_last_id [OF last]
      by (metis concat.simps(2) concat_append append_Nil2 concat.simps(1))
    with m assms(2) have "m = last (last chunks) \<or>
        avma_end m \<le> avma_start (last (last chunks)) \<and>
        avma_start (last (last chunks)) < avma_end (last (last chunks))"
      by (auto simp: ranges_disjoint_def sorted_wrt_append)
    then show ?thesis using ne last by (auto simp: max_known_chunked_def)
  qed
  with find_chunked_iff [OF assms] show ?thesis by blast
qed

theorem find_module_for_address_correct_witness:
  "find_chunked [[unit_module 0x1000, unit_module 0x2000]] 0x2010 = Some (unit_module 0x2000, 0x10)"
  using find_module_for_address_correct [of "[[unit_module 0x1000, unit_module 0x2000]]" "0x2010"
      "unit_module 0x2000" "0x10"]
  by (simp add: chunks_wf_def MODULE_CHUNK_def ranges_disjoint_def unit_module_def module_contains_def)

end
