(* ===== verification/Rule_Cache.thy ===== *)
theory Rule_Cache
  imports Prelude
begin

text \<open>
  The cache of unwind rules (\<^verbatim>\<open>vendor/framehop/src/rule_cache.rs\<close>): a direct-mapped table of
  509 entries keyed by code address and by the generation of the module list, with counters.
  The clients' view of it is a finite map that may forget entries; the locale states that
  view and the interpretation discharges it for the table.
\<close>

section \<open>State and operations\<close>

definition CACHE_ENTRY_COUNT :: nat where
  "CACHE_ENTRY_COUNT = 509"

record 'r CacheEntry =
  entry_address :: u64
  entry_generation :: u64
  entry_rule :: 'r

record CacheStats =
  hit_count :: u64
  miss_empty_slot_count :: u64
  miss_wrong_modules_count :: u64
  miss_wrong_address_count :: u64

record 'r RuleCache =
  entries :: "'r CacheEntry option list"
  stats :: CacheStats

record CacheHandle =
  handle_slot :: u16
  handle_address :: u64
  handle_generation :: u64

datatype 'r CacheResult = Miss CacheHandle | Hit 'r

definition stats_new :: CacheStats where
  "stats_new = \<lparr>hit_count = 0, miss_empty_slot_count = 0, miss_wrong_modules_count = 0,
     miss_wrong_address_count = 0\<rparr>"

definition cache_new :: "'r RuleCache" where
  "cache_new = \<lparr>entries = replicate CACHE_ENTRY_COUNT None, stats = stats_new\<rparr>"

text \<open>\<open>CacheStats::misses\<close>, \<open>hits\<close> and \<open>total\<close>; the sums wrap.\<close>

definition misses :: "CacheStats \<Rightarrow> u64" where
  "misses s = miss_empty_slot_count s + miss_wrong_modules_count s + miss_wrong_address_count s"

definition hits :: "CacheStats \<Rightarrow> u64" where
  "hits s = hit_count s"

definition total_lookups :: "CacheStats \<Rightarrow> u64" where
  "total_lookups s = hits s + misses s"

definition slot_of :: "u64 \<Rightarrow> u16" where
  "slot_of address = ucast (address mod of_nat CACHE_ENTRY_COUNT)"

definition lookup :: "'r RuleCache \<Rightarrow> u64 \<Rightarrow> u64 \<Rightarrow> 'r CacheResult \<times> 'r RuleCache" where
  "lookup c address modules_generation =
     (let slot = slot_of address;
          miss = Miss \<lparr>handle_slot = slot, handle_address = address,
                   handle_generation = modules_generation\<rparr>;
          s = stats c in
      case entries c ! unat slot of
        None \<Rightarrow>
          (miss, c\<lparr>stats := s\<lparr>miss_empty_slot_count := miss_empty_slot_count s + 1\<rparr>\<rparr>)
      | Some entry \<Rightarrow>
          if entry_generation entry = modules_generation
          then if entry_address entry = address
               then (Hit (entry_rule entry), c\<lparr>stats := s\<lparr>hit_count := hit_count s + 1\<rparr>\<rparr>)
               else (miss, c\<lparr>stats := s\<lparr>miss_wrong_address_count := miss_wrong_address_count s + 1\<rparr>\<rparr>)
          else (miss, c\<lparr>stats := s\<lparr>miss_wrong_modules_count := miss_wrong_modules_count s + 1\<rparr>\<rparr>))"

definition insert_rule :: "'r RuleCache \<Rightarrow> CacheHandle \<Rightarrow> 'r \<Rightarrow> 'r RuleCache" where
  "insert_rule c handle r =
     c\<lparr>entries := (entries c)[unat (handle_slot handle) :=
         Some \<lparr>entry_address = handle_address handle, entry_generation = handle_generation handle,
               entry_rule = r\<rparr>]\<rparr>"

section \<open>The invariant\<close>

text \<open>The table has its fixed size, and an entry sits in the slot of its address.\<close>

definition cache_wf :: "'r RuleCache \<Rightarrow> bool" where
  "cache_wf c \<longleftrightarrow> length (entries c) = CACHE_ENTRY_COUNT \<and>
     (\<forall>i < CACHE_ENTRY_COUNT. \<forall>e. entries c ! i = Some e \<longrightarrow> unat (slot_of (entry_address e)) = i)"

lemma slot_in_range: "unat (slot_of a) < CACHE_ENTRY_COUNT"
proof -
  have "unat (a mod of_nat CACHE_ENTRY_COUNT) = unat a mod 509"
    by (simp add: unat_mod_distrib CACHE_ENTRY_COUNT_def)
  then show ?thesis
    by (simp add: slot_of_def unsigned_ucast_eq take_bit_nat_eq_self_iff CACHE_ENTRY_COUNT_def
        take_bit_nat_def)
qed

text \<open>The map the table holds.\<close>

definition cached :: "'r RuleCache \<Rightarrow> u64 \<Rightarrow> u64 \<Rightarrow> 'r option" where
  "cached c address generation =
     (case entries c ! unat (slot_of address) of
        Some e \<Rightarrow> if entry_address e = address \<and> entry_generation e = generation
                  then Some (entry_rule e) else None
      | None \<Rightarrow> None)"

lemma lookup_entries: "entries (snd (lookup c a g)) = entries c"
  by (simp add: lookup_def Let_def split: option.splits)

lemma lookup_result:
  "fst (lookup c a g) =
     (case cached c a g of
        Some r \<Rightarrow> Hit r
      | None \<Rightarrow> Miss \<lparr>handle_slot = slot_of a, handle_address = a, handle_generation = g\<rparr>)"
  by (auto simp: lookup_def cached_def Let_def split: option.splits)

lemma lookup_counts:
  "total_lookups (stats (snd (lookup c a g))) = total_lookups (stats c) + 1 \<and>
   hits (stats (snd (lookup c a g))) =
     hits (stats c) + (case fst (lookup c a g) of Hit _ \<Rightarrow> 1 | Miss _ \<Rightarrow> 0)"
  by (auto simp: lookup_def Let_def total_lookups_def hits_def misses_def algebra_simps split: option.splits)

lemma cached_insert:
  assumes "cache_wf c"
  shows "cached (insert_rule c \<lparr>handle_slot = slot_of a, handle_address = a, handle_generation = g\<rparr> r) a' g' =
    (if a' = a \<and> g' = g then Some r else if slot_of a' = slot_of a then None else cached c a' g')"
proof (cases "slot_of a' = slot_of a")
  case True
  then show ?thesis
    using assms slot_in_range [of a] by (auto simp: cached_def insert_rule_def cache_wf_def)
next
  case False
  then have "unat (slot_of a) \<noteq> unat (slot_of a')" by (simp add: word_unat_eq_iff)
  with False show ?thesis by (auto simp: cached_def insert_rule_def)
qed

lemma insert_rule_wf:
  "cache_wf c \<Longrightarrow>
     cache_wf (insert_rule c \<lparr>handle_slot = slot_of a, handle_address = a, handle_generation = g\<rparr> r)"
  using slot_in_range [of a] by (auto simp: cache_wf_def insert_rule_def nth_list_update)

section \<open>The interface\<close>

text \<open>
  What the unwinder relies on. A lookup hits exactly on the pairs the cache holds, its handle
  records the pair it missed, and inserting through that handle makes the pair hit and
  changes no other pair, except that it may be forgotten.
\<close>

locale unwind_cache =
  fixes new :: 'c
    and look :: "'c \<Rightarrow> u64 \<Rightarrow> u64 \<Rightarrow> 'r CacheResult \<times> 'c"
    and ins :: "'c \<Rightarrow> CacheHandle \<Rightarrow> 'r \<Rightarrow> 'c"
    and held :: "'c \<Rightarrow> u64 \<Rightarrow> u64 \<Rightarrow> 'r option"
    and wf :: "'c \<Rightarrow> bool"
  assumes wf_new: "wf new" and held_new: "held new a g = None"
    and wf_look: "wf c \<Longrightarrow> wf (snd (look c a g))"
    and held_look: "wf c \<Longrightarrow> held (snd (look c a g)) = held c"
    and look_hit: "wf c \<Longrightarrow> fst (look c a g) = Hit r \<longleftrightarrow> held c a g = Some r"
    and wf_ins: "wf c \<Longrightarrow> fst (look c a g) = Miss h \<Longrightarrow> wf c' \<Longrightarrow> wf (ins c' h r)"
    and held_ins: "wf c \<Longrightarrow> fst (look c a g) = Miss h \<Longrightarrow> wf c' \<Longrightarrow> held (ins c' h r) a g = Some r"
    and held_ins_other: "wf c \<Longrightarrow> fst (look c a g) = Miss h \<Longrightarrow> wf c' \<Longrightarrow> (a', g') \<noteq> (a, g) \<Longrightarrow>
      held (ins c' h r) a' g' = None \<or> held (ins c' h r) a' g' = held c' a' g'"
begin

text \<open>A property of every cached rule is kept by looking up and by inserting a rule that has it.\<close>

definition sound :: "(u64 \<Rightarrow> u64 \<Rightarrow> 'r \<Rightarrow> bool) \<Rightarrow> 'c \<Rightarrow> bool" where
  "sound P c \<longleftrightarrow> wf c \<and> (\<forall>a g r. held c a g = Some r \<longrightarrow> P a g r)"

lemma sound_new: "sound P new"
  by (simp add: sound_def wf_new held_new)

lemma sound_look: "sound P c \<Longrightarrow> sound P (snd (look c a g))"
  by (simp add: sound_def wf_look held_look)

lemma sound_hit: "sound P c \<Longrightarrow> fst (look c a g) = Hit r \<Longrightarrow> P a g r"
  by (simp add: sound_def look_hit)

lemma sound_ins:
  assumes "sound P c" "fst (look c a g) = Miss h" "P a g r"
  shows "sound P (ins (snd (look c a g)) h r)"
proof -
  let ?c = "snd (look c a g)"
  have wf: "wf c" "wf ?c" "held ?c = held c" using assms(1) by (simp_all add: sound_def wf_look held_look)
  have "P a' g' r'" if "held (ins ?c h r) a' g' = Some r'" for a' g' r'
    using held_ins [OF wf(1) assms(2) wf(2), of r] held_ins_other [OF wf(1) assms(2) wf(2), of a' g' r]
      that assms(1,3) wf(3)
    by (cases "(a', g') = (a, g)") (auto simp: sound_def)
  with wf_ins [OF wf(1) assms(2) wf(2)] show ?thesis by (simp add: sound_def)
qed

end

interpretation rule_cache: unwind_cache cache_new lookup insert_rule cached cache_wf
proof
  show "cache_wf cache_new" by (auto simp: cache_wf_def cache_new_def)
  show "cached cache_new a g = None" for a g
    using slot_in_range [of a] by (simp add: cached_def cache_new_def)
  fix c c' :: "'a RuleCache" and a g a' g' h r
  show "cache_wf c \<Longrightarrow> cache_wf (snd (lookup c a g))" by (simp add: cache_wf_def lookup_entries)
  show "cache_wf c \<Longrightarrow> cached (snd (lookup c a g)) = cached c"
    by (intro ext) (simp add: cached_def lookup_entries)
  show "cache_wf c \<Longrightarrow> fst (lookup c a g) = Hit r \<longleftrightarrow> cached c a g = Some r"
    by (simp add: lookup_result split: option.splits)
  assume m: "fst (lookup c a g) = Miss h" and wf: "cache_wf c'"
  then have h: "h = \<lparr>handle_slot = slot_of a, handle_address = a, handle_generation = g\<rparr>"
    by (simp add: lookup_result split: option.splits)
  show "cache_wf (insert_rule c' h r)" unfolding h by (rule insert_rule_wf [OF wf])
  show "cached (insert_rule c' h r) a g = Some r" unfolding h cached_insert [OF wf] by simp
  show "(a', g') \<noteq> (a, g) \<Longrightarrow> cached (insert_rule c' h r) a' g' = None \<or>
      cached (insert_rule c' h r) a' g' = cached c' a' g'"
    unfolding h cached_insert [OF wf] by auto
qed

text \<open>
  The rule cache never answers with a rule that was not stored for exactly that address
  and module generation. After storing a rule through the handle of a miss, a lookup of that
  pair hits with that rule, a lookup of any other pair gives what it gave before or a miss,
  and every lookup adds one to the statistics.
\<close>

theorem rule_cache_insert_lookup:
  assumes "cache_wf c" "lookup c a g = (Miss h, c1)"
  shows "cache_wf (insert_rule c1 h r) \<and>
    fst (lookup (insert_rule c1 h r) a g) = Hit r \<and>
    (fst (lookup (insert_rule c1 h r) a' g') = Hit r' \<longrightarrow>
       (a', g', r') = (a, g, r) \<or> fst (lookup c a' g') = Hit r') \<and>
    total_lookups (stats c1) = total_lookups (stats c) + 1"
proof -
  from assms have m: "fst (lookup c a g) = Miss h" "c1 = snd (lookup c a g)"
    and wf1: "cache_wf c1" using rule_cache.wf_look [OF assms(1), of a g] by auto
  note wf2 = rule_cache.wf_ins [OF assms(1) m(1) wf1, of r]
  have h: "h = \<lparr>handle_slot = slot_of a, handle_address = a, handle_generation = g\<rparr>"
    using m(1) by (simp add: lookup_result split: option.splits)
  have eq: "cached (insert_rule c1 h r) x y =
      (if x = a \<and> y = g then Some r else if slot_of x = slot_of a then None else cached c x y)" for x y
    using cached_insert [OF wf1] rule_cache.held_look [OF assms(1), of a g] by (simp add: h m(2))
  have hit: "fst (lookup (insert_rule c1 h r) x y) = Hit s \<longleftrightarrow> cached (insert_rule c1 h r) x y = Some s" for x y s
    by (rule rule_cache.look_hit [OF wf2])
  show ?thesis
    using wf2 lookup_counts [of c a g] unfolding hit eq rule_cache.look_hit [OF assms(1)] m(2) [symmetric]
    by (auto split: if_splits)
qed

theorem rule_cache_insert_lookup_witness:
  "\<exists>h c1. lookup (cache_new :: nat RuleCache) 0x1000 7 = (Miss h, c1) \<and>
     fst (lookup (insert_rule c1 h 5) 0x1000 7) = Hit 5"
proof -
  obtain h c1 where l: "lookup (cache_new :: nat RuleCache) 0x1000 7 = (Miss h, c1)"
    using lookup_result [of "cache_new :: nat RuleCache" "0x1000" 7]
    by (cases "lookup (cache_new :: nat RuleCache) 0x1000 7") (simp add: rule_cache.held_new)
  from rule_cache_insert_lookup [OF rule_cache.wf_new l] l show ?thesis by blast
qed

end
