(* ===== verification/Unwinder.thy ===== *)
theory Unwinder
  imports Unwind_Rule Module_List Rule_Cache Dwarf
begin

text \<open>
  The unwinder itself (\<^verbatim>\<open>vendor/framehop/src/unwinder.rs\<close>): the generation of the module list,
  the choice of a module's unwind data, unwinding one frame through the rule cache, and the
  iterator over frames. The theory is generic in the architecture, whose operations are
  arguments.
\<close>

section \<open>Module generations\<close>

text \<open>
  \<open>next_modules_generation\<close> run alone: the counter's value is handed out and the counter
  advances; \<open>None\<close> is the panic on an exhausted counter, which leaves it as it is.
\<close>

definition next_modules_generation :: "u64 \<Rightarrow> (u64 \<times> u64) option" where
  "next_modules_generation counter = map_option (\<lambda>next. (counter, next)) (checked_add counter 1)"

text \<open>
  The same loop run by many threads. A thread is idle, or holds the value it loaded or last
  saw; a load or a failed exchange may give it any value the counter has had, a successful
  exchange needs the current one and returns it.
\<close>

record gen_state =
  gen_counter :: u64
  gen_local :: "nat \<Rightarrow> u64 option"
  gen_returned :: "u64 list"

inductive gen_step :: "gen_state \<Rightarrow> gen_state \<Rightarrow> bool" where
  gen_load: "gen_local s t = None \<Longrightarrow> v \<le> gen_counter s \<Longrightarrow>
    gen_step s (s\<lparr>gen_local := (gen_local s)(t \<mapsto> v)\<rparr>)"
| gen_fail: "gen_local s t = Some g \<Longrightarrow> checked_add g 1 \<noteq> None \<Longrightarrow> v \<le> gen_counter s \<Longrightarrow>
    gen_step s (s\<lparr>gen_local := (gen_local s)(t \<mapsto> v)\<rparr>)"
| gen_exchange: "gen_local s t = Some g \<Longrightarrow> checked_add g 1 = Some next \<Longrightarrow> gen_counter s = g \<Longrightarrow>
    gen_step s (s\<lparr>gen_counter := next, gen_local := (gen_local s)(t := None),
                  gen_returned := g # gen_returned s\<rparr>)"


definition gen_start :: gen_state where
  "gen_start = \<lparr>gen_counter = 0, gen_local = (\<lambda>_. None), gen_returned = []\<rparr>"

definition gen_inv :: "gen_state \<Rightarrow> bool" where
  "gen_inv s \<longleftrightarrow> sorted_wrt (>) (gen_returned s) \<and> (\<forall>g \<in> set (gen_returned s). g < gen_counter s)"

lemma gen_step_inv:
  assumes "gen_step s s'" "gen_inv s"
  shows "gen_inv s'"
  using assms(1)
proof (cases rule: gen_step.cases)
  case (gen_exchange t g v)
  then have "g < v" by (auto dest: checked_add_less)
  with assms(2) gen_exchange show ?thesis by (auto simp: gen_inv_def)
qed (use assms(2) in \<open>auto simp: gen_inv_def\<close>)

lemma gen_reachable_inv: "gen_step\<^sup>*\<^sup>* gen_start s \<Longrightarrow> gen_inv s"
proof (induction rule: rtranclp_induct)
  case base
  show ?case by (simp add: gen_inv_def gen_start_def)
next
  case (step s s')
  then show ?case by (blast intro: gen_step_inv)
qed

section \<open>The unwinder's module list\<close>

record 'd UnwinderInternal =
  modules :: "'d Module list list"
  modules_generation :: u64

text \<open>
  The operations take the global counter and return it; \<open>None\<close> is the panic when it is
  exhausted.
\<close>

definition unwinder_new :: "u64 \<Rightarrow> ('d UnwinderInternal \<times> u64) option" where
  "unwinder_new counter =
     map_option (\<lambda>(generation, counter'). (\<lparr>modules = [], modules_generation = generation\<rparr>, counter'))
       (next_modules_generation counter)"

definition add_module :: "'d UnwinderInternal \<Rightarrow> 'd Module \<Rightarrow> u64 \<Rightarrow>
    ('d UnwinderInternal \<times> u64) option" where
  "add_module u m counter =
     map_option (\<lambda>(generation, counter').
         (u\<lparr>modules := add_chunked (modules u) m, modules_generation := generation\<rparr>, counter'))
       (next_modules_generation counter)"

definition remove_module :: "'d UnwinderInternal \<Rightarrow> u64 \<Rightarrow> u64 \<Rightarrow>
    ('d UnwinderInternal \<times> u64) option" where
  "remove_module u start counter =
     (case remove_chunked (modules u) start of
        None \<Rightarrow> Some (u, counter)
      | Some chunks \<Rightarrow>
          map_option (\<lambda>(generation, counter').
              (u\<lparr>modules := chunks, modules_generation := generation\<rparr>, counter'))
            (next_modules_generation counter))"

definition max_known_code_address :: "'d UnwinderInternal \<Rightarrow> u64" where
  "max_known_code_address u = max_known_chunked (modules u)"

definition find_module_for_address :: "'d UnwinderInternal \<Rightarrow> u64 \<Rightarrow> ('d Module \<times> u32) option" where
  "find_module_for_address u address = find_chunked (modules u) address"

section \<open>Unwinding a frame through the cache\<close>

type_synonym ('rule, 'regs) exec_fn =
  "'rule \<Rightarrow> bool \<Rightarrow> 'regs \<Rightarrow> read_stack \<Rightarrow> (Error + u64 option) \<times> 'regs"

type_synonym ('d, 'rule, 'regs, 'e) callback_fn =
  "'d Module \<Rightarrow> FrameAddress \<Rightarrow> u32 \<Rightarrow> 'regs \<Rightarrow> read_stack \<Rightarrow> ('e + 'rule UnwindResult) \<times> 'regs"

definition not_interrupted :: "Error + u64 option \<Rightarrow> Error + (u64 \<times> bool) option" where
  "not_interrupted result =
     bind_res result (\<lambda>r. Inr (map_option (\<lambda>address. (address, False)) r))"

definition exec_rule :: "('rule, 'regs) exec_fn \<Rightarrow> 'rule \<Rightarrow> bool \<Rightarrow> 'regs \<Rightarrow> read_stack \<Rightarrow>
    (Error + (u64 \<times> bool) option) \<times> 'regs" where
  "exec_rule exec rule is_first_frame regs read =
     (case exec rule is_first_frame regs read of (r, regs') \<Rightarrow> (not_interrupted r, regs'))"

text \<open>
  \<open>with_cache\<close>: the cache's entry for the address and generation is executed if there is one;
  otherwise the callback decides, and a rule, also the fallback rule for an unknown module or
  a failed callback, is stored and executed.
\<close>

definition with_cache :: "('rule, 'regs) exec_fn \<Rightarrow> 'rule \<Rightarrow> 'd UnwinderInternal \<Rightarrow>
    ('d, 'rule, 'regs, 'e) callback_fn \<Rightarrow> FrameAddress \<Rightarrow> 'regs \<Rightarrow> 'rule RuleCache \<Rightarrow> read_stack \<Rightarrow>
    ((Error + (u64 \<times> bool) option) \<times> 'regs) \<times> 'rule RuleCache" where
  "with_cache exec fallback u callback address regs cache read =
     (let lookup_address = address_for_lookup address;
          is_first_frame = \<not> is_return_address address in
      case lookup cache lookup_address (modules_generation u) of
        (Hit rule, cache') \<Rightarrow> (exec_rule exec rule is_first_frame regs read, cache')
      | (Miss handle, cache') \<Rightarrow>
          (let run = (\<lambda>rule regs. (exec_rule exec rule is_first_frame regs read,
                                   insert_rule cache' handle rule)) in
           case find_module_for_address u lookup_address of
             None \<Rightarrow> run fallback regs
           | Some (m, relative_lookup_address) \<Rightarrow>
               (case callback m address relative_lookup_address regs read of
                  (Inr (ExecRule rule), regs') \<Rightarrow> run rule regs'
                | (Inr (Uncacheable return_address), regs') \<Rightarrow>
                    ((Inr (Some (return_address, False)), regs'), cache')
                | (Inr (Interrupted a), regs') \<Rightarrow> ((Inr (Some (a, True)), regs'), cache')
                | (Inl _, regs') \<Rightarrow> run fallback regs')))"

text \<open>
  What the cache should not change: the frame unwound by the callback each time.
\<close>

definition without_cache :: "('rule, 'regs) exec_fn \<Rightarrow> 'rule \<Rightarrow> 'd UnwinderInternal \<Rightarrow>
    ('d, 'rule, 'regs, 'e) callback_fn \<Rightarrow> FrameAddress \<Rightarrow> 'regs \<Rightarrow> read_stack \<Rightarrow>
    (Error + (u64 \<times> bool) option) \<times> 'regs" where
  "without_cache exec fallback u callback address regs read =
     (let is_first_frame = \<not> is_return_address address in
      case find_module_for_address u (address_for_lookup address) of
        None \<Rightarrow> exec_rule exec fallback is_first_frame regs read
      | Some (m, rel) \<Rightarrow>
          (case callback m address rel regs read of
             (Inr (ExecRule rule), regs') \<Rightarrow> exec_rule exec rule is_first_frame regs' read
           | (Inr (Uncacheable ra), regs') \<Rightarrow> (Inr (Some (ra, False)), regs')
           | (Inr (Interrupted a), regs') \<Rightarrow> (Inr (Some (a, True)), regs')
           | (Inl _, regs') \<Rightarrow> exec_rule exec fallback is_first_frame regs' read))"

text \<open>\<open>unwind_frame\<close> drops the flag that \<open>unwind_frame_signal_aware\<close> adds.\<close>

definition unwind_frame_signal_aware :: "('rule, 'regs) exec_fn \<Rightarrow> 'rule \<Rightarrow>
    ('d, 'rule, 'regs, 'e) callback_fn \<Rightarrow> 'd UnwinderInternal \<Rightarrow> FrameAddress \<Rightarrow> 'regs \<Rightarrow>
    'rule RuleCache \<Rightarrow> read_stack \<Rightarrow>
    ((Error + (u64 \<times> bool) option) \<times> 'regs) \<times> 'rule RuleCache" where
  "unwind_frame_signal_aware exec fallback impl u address regs cache read =
     with_cache exec fallback u impl address regs cache read"

definition unwind_frame :: "('rule, 'regs) exec_fn \<Rightarrow> 'rule \<Rightarrow>
    ('d, 'rule, 'regs, 'e) callback_fn \<Rightarrow> 'd UnwinderInternal \<Rightarrow> FrameAddress \<Rightarrow> 'regs \<Rightarrow>
    'rule RuleCache \<Rightarrow> read_stack \<Rightarrow> ((Error + u64 option) \<times> 'regs) \<times> 'rule RuleCache" where
  "unwind_frame exec fallback impl u address regs cache read =
     (case unwind_frame_signal_aware exec fallback impl u address regs cache read of
        ((r, regs'), cache') \<Rightarrow> ((bind_res r (\<lambda>x. Inr (map_option fst x)), regs'), cache'))"

text \<open>
  The default of the trait \<open>Unwinder\<close>, for an unwinder that does not say which frames are signal
  trampolines: every address is a return address. The aarch64 unwinder relies on it.
\<close>

definition signal_aware_default ::
    "(FrameAddress \<Rightarrow> 'regs \<Rightarrow> 'rule RuleCache \<Rightarrow> read_stack \<Rightarrow> ((Error + u64 option) \<times> 'regs) \<times> 'rule RuleCache) \<Rightarrow>
     FrameAddress \<Rightarrow> 'regs \<Rightarrow> 'rule RuleCache \<Rightarrow> read_stack \<Rightarrow>
     ((Error + (u64 \<times> bool) option) \<times> 'regs) \<times> 'rule RuleCache" where
  "signal_aware_default frame address regs cache read =
     (case frame address regs cache read of ((r, regs'), cache') \<Rightarrow> ((not_interrupted r, regs'), cache'))"

section \<open>The frame iterator\<close>

datatype UnwindIteratorState = Initial u64 | Unwinding FrameAddress | Done

record ('rule, 'regs) UnwindIterator =
  iter_state :: UnwindIteratorState
  iter_regs :: 'regs
  iter_cache :: "'rule RuleCache"

definition iterator_new :: "u64 \<Rightarrow> 'regs \<Rightarrow> 'rule RuleCache \<Rightarrow> ('rule, 'regs) UnwindIterator" where
  "iterator_new pc regs cache = \<lparr>iter_state = Initial pc, iter_regs = regs, iter_cache = cache\<rparr>"

text \<open>
  \<open>next\<close>, over the unwinder's \<open>unwind_frame\<close>. An error leaves the state, so a further call
  tries the same frame again with the registers as they are.
\<close>

definition iterator_next ::
    "(FrameAddress \<Rightarrow> 'regs \<Rightarrow> 'rule RuleCache \<Rightarrow> ((Error + u64 option) \<times> 'regs) \<times> 'rule RuleCache) \<Rightarrow>
     ('rule, 'regs) UnwindIterator \<Rightarrow>
     (Error + FrameAddress option) \<times> ('rule, 'regs) UnwindIterator" where
  "iterator_next frame it =
     (case iter_state it of
        Initial pc \<Rightarrow>
          (Inr (Some (InstructionPointer pc)), it\<lparr>iter_state := Unwinding (InstructionPointer pc)\<rparr>)
      | Done \<Rightarrow> (Inr None, it)
      | Unwinding address \<Rightarrow>
          (case frame address (iter_regs it) (iter_cache it) of
             ((r, regs), cache) \<Rightarrow>
               (let it' = it\<lparr>iter_regs := regs, iter_cache := cache\<rparr> in
                case r of
                  Inl e \<Rightarrow> (Inl e, it')
                | Inr None \<Rightarrow> (Inr None, it'\<lparr>iter_state := Done\<rparr>)
                | Inr (Some return_address) \<Rightarrow>
                    (case from_return_address return_address of
                       None \<Rightarrow> (Inl ReturnAddressIsNull, it')
                     | Some fa \<Rightarrow> (Inr (Some fa), it'\<lparr>iter_state := Unwinding fa\<rparr>)))))"

section \<open>The cache is transparent\<close>

text \<open>
  A callback whose rule is determined by the module and the lookup address: whatever the
  registers and the stack, it gives that rule and leaves the registers alone, or it always
  answers directly. An error counts as the fallback rule.
\<close>

fun answers_with :: "'rule \<Rightarrow> 'rule option \<Rightarrow> 'regs \<Rightarrow> ('e + 'rule UnwindResult) \<times> 'regs \<Rightarrow> bool" where
  "answers_with fallback r regs (Inr (ExecRule rule), regs') = (regs' = regs \<and> r = Some rule)"
| "answers_with fallback r regs (Inl e, regs') = (regs' = regs \<and> r = Some fallback)"
| "answers_with fallback r regs (Inr _, regs') = (r = None)"

definition rule_determined :: "'rule \<Rightarrow> ('d, 'rule, 'regs, 'e) callback_fn \<Rightarrow>
    ('d Module \<Rightarrow> u64 \<Rightarrow> u32 \<Rightarrow> 'rule option) \<Rightarrow> bool" where
  "rule_determined fallback callback rule_of \<longleftrightarrow>
     (\<forall>m address rel regs read.
        answers_with fallback (rule_of m (address_for_lookup address) rel) regs
          (callback m address rel regs read))"

text \<open>At one frame only the module found for its address matters.\<close>

definition determined_at :: "'rule \<Rightarrow> ('d, 'rule, 'regs, 'e) callback_fn \<Rightarrow>
    ('d Module \<Rightarrow> u64 \<Rightarrow> u32 \<Rightarrow> 'rule option) \<Rightarrow> 'd UnwinderInternal \<Rightarrow> FrameAddress \<Rightarrow> 'regs \<Rightarrow> read_stack \<Rightarrow>
    bool" where
  "determined_at fallback callback rule_of u address regs read \<longleftrightarrow>
     (\<forall>m rel. find_module_for_address u (address_for_lookup address) = Some (m, rel) \<longrightarrow>
        answers_with fallback (rule_of m (address_for_lookup address) rel) regs
          (callback m address rel regs read))"

lemma rule_determined_at:
  "rule_determined fallback callback rule_of \<Longrightarrow> determined_at fallback callback rule_of u address regs read"
  by (simp add: rule_determined_def determined_at_def)

text \<open>
  The rule an unwinder with these modules would compute for an address, and the caches that
  hold only such rules for the module lists of their generations.
\<close>

definition rule_for :: "'rule \<Rightarrow> ('d Module \<Rightarrow> u64 \<Rightarrow> u32 \<Rightarrow> 'rule option) \<Rightarrow>
    'd Module list list \<Rightarrow> u64 \<Rightarrow> 'rule option" where
  "rule_for fallback rule_of chunks a =
     (case find_chunked chunks a of None \<Rightarrow> Some fallback | Some (m, rel) \<Rightarrow> rule_of m a rel)"

definition cache_sound :: "'rule \<Rightarrow> ('d Module \<Rightarrow> u64 \<Rightarrow> u32 \<Rightarrow> 'rule option) \<Rightarrow>
    (u64 \<Rightarrow> 'd Module list list) \<Rightarrow> 'rule RuleCache \<Rightarrow> bool" where
  "cache_sound fallback rule_of module_lists cache \<longleftrightarrow>
     rule_cache.sound (\<lambda>a g r. rule_for fallback rule_of (module_lists g) a = Some r) cache"

lemma cache_sound_new: "cache_sound fallback rule_of module_lists cache_new"
  by (simp add: cache_sound_def rule_cache.sound_new)

lemma without_cache_rule:
  assumes "determined_at fallback callback rule_of u address regs read"
    and "rule_for fallback rule_of (modules u) (address_for_lookup address) = Some rule"
  shows "without_cache exec fallback u callback address regs read =
    exec_rule exec rule (\<not> is_return_address address) regs read"
proof (cases "find_module_for_address u (address_for_lookup address)")
  case None
  with assms(2) show ?thesis
    by (simp add: without_cache_def rule_for_def find_module_for_address_def)
next
  case (Some p)
  obtain m rel where p: "p = (m, rel)" by fastforce
  obtain r regs' where c: "callback m address rel regs read = (r, regs')" by fastforce
  have "answers_with fallback (rule_of m (address_for_lookup address) rel) regs (r, regs')"
    using assms(1) Some p unfolding c [symmetric] by (simp add: determined_at_def)
  with assms(2) Some p c show ?thesis
    by (cases "(fallback, rule_of m (address_for_lookup address) rel, regs, r, regs')"
        rule: answers_with.cases)
      (auto simp: without_cache_def rule_for_def find_module_for_address_def)
qed

text \<open>Unwinding through a sound cache gives what unwinding without one gives.\<close>

lemma with_cache_transparent_step:
  assumes det: "determined_at fallback callback rule_of u address regs read"
    and sound: "cache_sound fallback rule_of module_lists cache"
    and world: "module_lists (modules_generation u) = modules u"
  shows "fst (with_cache exec fallback u callback address regs cache read) =
      without_cache exec fallback u callback address regs read \<and>
    cache_sound fallback rule_of module_lists
      (snd (with_cache exec fallback u callback address regs cache read))"
proof -
  let ?a = "address_for_lookup address" and ?g = "modules_generation u"
  obtain res cache' where l: "lookup cache ?a ?g = (res, cache')" by fastforce
  note s = sound [unfolded cache_sound_def]
  have s': "cache_sound fallback rule_of module_lists cache'"
    using rule_cache.sound_look [OF s, of ?a ?g] l by (simp add: cache_sound_def)
  have ins: "cache_sound fallback rule_of module_lists (insert_rule cache' h rule)"
    if "res = Miss h" "rule_for fallback rule_of (modules u) ?a = Some rule" for h rule
    using rule_cache.sound_ins [OF s, of ?a ?g h rule] that l world by (simp add: cache_sound_def)
  show ?thesis
  proof (cases res)
    case (Hit rule)
    then have "rule_for fallback rule_of (modules u) ?a = Some rule"
      using rule_cache.sound_hit [OF s, of ?a ?g rule] l world by simp
    from without_cache_rule [OF det this] Hit l s' show ?thesis by (simp add: with_cache_def)
  next
    case (Miss h)
    show ?thesis
    proof (cases "find_module_for_address u ?a")
      case None
      then have r: "rule_for fallback rule_of (modules u) ?a = Some fallback"
        by (simp add: rule_for_def find_module_for_address_def)
      from ins [OF Miss r] None Miss l show ?thesis
        by (simp add: with_cache_def without_cache_def)
    next
      case (Some p)
      obtain m rel where p: "p = (m, rel)" by fastforce
      obtain r regs' where c: "callback m address rel regs read = (r, regs')" by fastforce
      have d: "answers_with fallback (rule_of m ?a rel) regs (r, regs')"
        using det Some p unfolding c [symmetric] by (simp add: determined_at_def)
      have rf: "rule_for fallback rule_of (modules u) ?a = rule_of m ?a rel"
        using Some p by (simp add: rule_for_def find_module_for_address_def)
      from d ins [OF Miss] rf Some p c Miss l s' show ?thesis
        by (cases r) (auto simp: with_cache_def without_cache_def split: UnwindResult.splits)
    qed
  qed
qed

section \<open>A module's unwind data\<close>

text \<open>
  Section contents are lists of bytes. \<open>ModuleSectionInfo\<close> asks for each name at most once per
  answer, so the functions that move the data out are modelled as functions of the name.
\<close>

type_synonym bytes = "u8 list"
type_synonym svma_range = "u64 \<times> u64"

record BaseAddresses =
  ba_eh_frame :: u64
  ba_eh_frame_hdr :: u64
  ba_text :: u64
  ba_got :: u64

record ModuleSectionInfo =
  si_base_svma :: u64
  si_section_svma_range :: "string \<Rightarrow> svma_range option"
  si_section_data :: "string \<Rightarrow> bytes option"
  si_segment_svma_range :: "string \<Rightarrow> svma_range option"
  si_segment_data :: "string \<Rightarrow> bytes option"

record ExplicitModuleSectionInfo =
  x_base_svma :: u64
  x_text_svma :: "svma_range option"
  x_text :: "bytes option"
  x_stubs_svma :: "svma_range option"
  x_stub_helper_svma :: "svma_range option"
  x_got_svma :: "svma_range option"
  x_unwind_info :: "bytes option"
  x_eh_frame_svma :: "svma_range option"
  x_eh_frame :: "bytes option"
  x_eh_frame_hdr_svma :: "svma_range option"
  x_eh_frame_hdr :: "bytes option"
  x_debug_frame :: "bytes option"
  x_text_segment_svma :: "svma_range option"
  x_text_segment :: "bytes option"

definition explicit_section_info :: "ExplicitModuleSectionInfo \<Rightarrow> ModuleSectionInfo" where
  "explicit_section_info x =
     \<lparr>si_base_svma = x_base_svma x,
      si_section_svma_range = (\<lambda>name.
        if name \<in> {''__text'', ''.text''} then x_text_svma x
        else if name = ''__stubs'' then x_stubs_svma x
        else if name = ''__stub_helper'' then x_stub_helper_svma x
        else if name \<in> {''__eh_frame'', ''.eh_frame''} then x_eh_frame_svma x
        else if name \<in> {''__eh_frame_hdr'', ''.eh_frame_hdr''} then x_eh_frame_hdr_svma x
        else if name \<in> {''__got'', ''.got''} then x_got_svma x
        else None),
      si_section_data = (\<lambda>name.
        if name \<in> {''__text'', ''.text''} then x_text x
        else if name = ''__unwind_info'' then x_unwind_info x
        else if name \<in> {''__eh_frame'', ''.eh_frame''} then x_eh_frame x
        else if name \<in> {''__eh_frame_hdr'', ''.eh_frame_hdr''} then x_eh_frame_hdr x
        else if name \<in> {''__debug_frame'', ''.debug_frame''} then x_debug_frame x
        else None),
      si_segment_svma_range = (\<lambda>name. if name = ''__TEXT'' then x_text_segment_svma x else None),
      si_segment_data = (\<lambda>name. if name = ''__TEXT'' then x_text_segment x else None)\<rparr>"

text \<open>\<open>base_addresses_for_sections\<close>: the first of the names that has a range, or zero.\<close>

definition start_addr :: "ModuleSectionInfo \<Rightarrow> string list \<Rightarrow> u64" where
  "start_addr si names =
     (case List.find (\<lambda>r. r \<noteq> None) (map (si_section_svma_range si) names) of
        Some (Some (start, _)) \<Rightarrow> start
      | _ \<Rightarrow> 0)"

definition base_addresses_for_sections :: "ModuleSectionInfo \<Rightarrow> BaseAddresses" where
  "base_addresses_for_sections si =
     \<lparr>ba_eh_frame = start_addr si [''__eh_frame'', ''.eh_frame''],
      ba_eh_frame_hdr = start_addr si [''__eh_frame_hdr'', ''.eh_frame_hdr''],
      ba_text = start_addr si [''__text'', ''.text''],
      ba_got = start_addr si [''__got'', ''.got'']\<rparr>"

text \<open>\<open>DataAtRvaRange\<close> and \<open>TextByteData\<close>: bytes with the range they come from.\<close>

type_synonym rva_data = "bytes \<times> (u32 \<times> u32)"
type_synonym text_data = "bytes \<times> svma_range"

datatype ModuleUnwindDataInternal =
    CompactUnwindInfoAndEhFrame bytes "bytes option" "svma_range option" "svma_range option"
      BaseAddresses "text_data option"
  | EhFrameHdrAndEhFrame bytes bytes BaseAddresses
  | DwarfCfiIndexAndEhFrame DwarfCfiIndex bytes BaseAddresses
  | DwarfCfiIndexAndDebugFrame DwarfCfiIndex bytes BaseAddresses
  | PeUnwindInfo bytes "rva_data option" "rva_data option" "rva_data option"
  | NoUnwindData

definition range_and_data :: "ModuleSectionInfo \<Rightarrow> string \<Rightarrow> rva_data option" where
  "range_and_data si name =
     Option.bind (si_section_svma_range si name) (\<lambda>(a, b).
     Option.bind (try_unsigned (uint (a - si_base_svma si))) (\<lambda>start.
     Option.bind (try_unsigned (uint (b - si_base_svma si))) (\<lambda>end.
     map_option (\<lambda>data. (data, (start, end))) (si_section_data si name))))"

definition macho_text_data :: "ModuleSectionInfo \<Rightarrow> text_data option" where
  "macho_text_data si =
     (case (si_segment_data si ''__TEXT'', si_segment_svma_range si ''__TEXT'') of
        (Some bs, Some r) \<Rightarrow> Some (bs, r)
      | _ \<Rightarrow>
          (case (si_section_data si ''__text'', si_section_svma_range si ''__text'') of
             (Some bs, Some r) \<Rightarrow> Some (bs, r)
           | _ \<Rightarrow> None))"

definition first_section :: "ModuleSectionInfo \<Rightarrow> string \<Rightarrow> string \<Rightarrow> bytes option" where
  "first_section si a b =
     (case si_section_data si a of Some d \<Rightarrow> Some d | None \<Rightarrow> si_section_data si b)"

text \<open>
  \<open>ModuleUnwindDataInternal::new\<close> with both the Mach-O and the PE feature, as the crate enables
  them. \<open>section_entries\<close> is gimli's iterator over the entries of a section.
\<close>

definition unwind_data_new ::
    "(UnwindSectionType \<Rightarrow> bytes \<Rightarrow> BaseAddresses \<Rightarrow> 'g Entry list) \<Rightarrow> ModuleSectionInfo \<Rightarrow>
     ModuleUnwindDataInternal" where
  "unwind_data_new section_entries si =
     (let bases = base_addresses_for_sections si in
      case si_section_data si ''__unwind_info'' of
        Some unwind_info \<Rightarrow>
          CompactUnwindInfoAndEhFrame unwind_info (si_section_data si ''__eh_frame'')
            (si_section_svma_range si ''__stubs'') (si_section_svma_range si ''__stub_helper'')
            bases (macho_text_data si)
      | None \<Rightarrow>
      (case si_section_data si ''.pdata'' of
        Some pdata \<Rightarrow>
          PeUnwindInfo pdata (range_and_data si ''.rdata'') (range_and_data si ''.xdata'')
            (range_and_data si ''.text'')
      | None \<Rightarrow>
      (case first_section si ''.eh_frame'' ''__eh_frame'' of
        Some eh_frame \<Rightarrow>
          (case first_section si ''.eh_frame_hdr'' ''__eh_frame_hdr'' of
             Some eh_frame_hdr \<Rightarrow> EhFrameHdrAndEhFrame eh_frame_hdr eh_frame bases
           | None \<Rightarrow>
               (case try_new (si_base_svma si) (section_entries EhFrame eh_frame bases) of
                  Inr index \<Rightarrow> DwarfCfiIndexAndEhFrame index eh_frame bases
                | Inl _ \<Rightarrow> NoUnwindData))
      | None \<Rightarrow>
      (case si_section_data si ''.debug_frame'' of
        Some debug_frame \<Rightarrow>
          (case try_new (si_base_svma si) (section_entries DebugFrame debug_frame bases) of
             Inr index \<Rightarrow> DwarfCfiIndexAndDebugFrame index debug_frame bases
           | Inl _ \<Rightarrow> NoUnwindData)
      | None \<Rightarrow> NoUnwindData))))"

definition module_new ::
    "(UnwindSectionType \<Rightarrow> bytes \<Rightarrow> BaseAddresses \<Rightarrow> 'g Entry list) \<Rightarrow> string \<Rightarrow> u64 \<times> u64 \<Rightarrow> u64 \<Rightarrow>
     ModuleSectionInfo \<Rightarrow> ModuleUnwindDataInternal Module" where
  "module_new section_entries name avma_range base si =
     \<lparr>mod_name = name, avma_start = fst avma_range, avma_end = snd avma_range, base_avma = base,
      base_svma = si_base_svma si, unwind_data = unwind_data_new section_entries si\<rparr>"

section \<open>Unwinding with a module's data\<close>

datatype ('g, 'c, 'p) UnwinderError =
    CompactUnwindInfo 'c
  | DwarfError "'g DwarfUnwinderError"
  | PeError 'p
  | NoDwarfData
  | NoModuleUnwindData
  | EhFrameHdrCouldNotFindAddress
  | DwarfCfiIndexCouldNotFindAddress

datatype 'rule CuiUnwindResult = CuiExecRule 'rule | NeedDwarf u32

record TextBytes =
  offset_from_base_address :: u32
  text_bytes :: bytes

text \<open>
  What an architecture provides to \<open>unwind_frame_impl\<close>: DWARF, compact unwind info (with the
  ranges of the stubs and the text bytes) and PE unwinding; and gimli on a section's bytes.
\<close>

record ('rule, 'regs, 'x, 'f, 'g, 'c, 'p) ArchOps =
  op_dwarf :: "'x gimli_expr \<Rightarrow> 'x UnwindTableRow \<Rightarrow> 'regs \<Rightarrow> bool \<Rightarrow> bool \<Rightarrow> read_stack \<Rightarrow>
    ('g DwarfUnwinderError + 'rule UnwindResult) \<times> 'regs"
  op_rule_if_uncovered_by_fde :: 'rule
  op_cui :: "bytes \<Rightarrow> TextBytes option \<Rightarrow> u32 \<times> u32 \<Rightarrow> u32 \<times> u32 \<Rightarrow> u32 \<Rightarrow> bool \<Rightarrow>
    'c + 'rule CuiUnwindResult"
  op_pe :: "bytes \<Rightarrow> rva_data option \<Rightarrow> rva_data option \<Rightarrow> rva_data option \<Rightarrow> u32 \<Rightarrow> 'regs \<Rightarrow> bool \<Rightarrow>
    read_stack \<Rightarrow> ('p + 'rule UnwindResult) \<times> 'regs"
  op_gimli :: "bytes \<Rightarrow> bytes option \<Rightarrow> BaseAddresses \<Rightarrow> ('x, 'f, 'g) Gimli"

text \<open>The stubs ranges are cut to 32 bits without a check.\<close>

definition relative_range :: "u64 \<Rightarrow> svma_range option \<Rightarrow> u32 \<times> u32" where
  "relative_range base r =
     (case r of Some (a, b) \<Rightarrow> (ucast (a - base), ucast (b - base)) | None \<Rightarrow> (0, 0))"

definition module_text_bytes :: "u64 \<Rightarrow> text_data option \<Rightarrow> TextBytes option" where
  "module_text_bytes base data =
     Option.bind data (\<lambda>(bs, (start, _)).
     Option.bind (checked_sub start base) (\<lambda>off.
     map_option (\<lambda>o32. \<lparr>offset_from_base_address = o32, text_bytes = bs\<rparr>)
       (try_unsigned (uint off))))"

definition dwarf_impl :: "('rule, 'regs, 'x, 'f, 'g, 'c, 'p) ArchOps \<Rightarrow> bytes \<Rightarrow> bytes option \<Rightarrow>
    BaseAddresses \<Rightarrow> UnwindSectionType \<Rightarrow> u64 \<Rightarrow> 'regs \<Rightarrow> bool \<Rightarrow> u32 \<Rightarrow> u32 \<Rightarrow> read_stack \<Rightarrow>
    (('g, 'c, 'p) UnwinderError + 'rule UnwindResult) \<times> 'regs" where
  "dwarf_impl ops section_data hdr bases ty base regs is_first_frame rel fde_offset read =
     (case unwind_frame_with_fde (op_dwarf ops) (op_rule_if_uncovered_by_fde ops)
             (op_gimli ops section_data hdr bases) ty base regs is_first_frame rel fde_offset read of
        (Inl e, regs') \<Rightarrow> (Inl (DwarfError e), regs')
      | (Inr r, regs') \<Rightarrow> (Inr r, regs'))"

fun unwind_frame_impl :: "('rule, 'regs, 'x, 'f, 'g, 'c, 'p) ArchOps \<Rightarrow>
    ModuleUnwindDataInternal Module \<Rightarrow> FrameAddress \<Rightarrow> u32 \<Rightarrow> 'regs \<Rightarrow> read_stack \<Rightarrow>
    (('g, 'c, 'p) UnwinderError + 'rule UnwindResult) \<times> 'regs" where
  "unwind_frame_impl ops m address rel regs read =
     (let first = \<not> is_return_address address; base = base_svma m in
      case unwind_data m of
        CompactUnwindInfoAndEhFrame unwind_info eh_frame stubs stub_helper bases text_data \<Rightarrow>
          (case op_cui ops unwind_info (module_text_bytes base text_data)
                  (relative_range base stubs) (relative_range base stub_helper) rel first of
             Inl e \<Rightarrow> (Inl (CompactUnwindInfo e), regs)
           | Inr (CuiExecRule rule) \<Rightarrow> (Inr (ExecRule rule), regs)
           | Inr (NeedDwarf fde_offset) \<Rightarrow>
               (case eh_frame of
                  None \<Rightarrow> (Inl NoDwarfData, regs)
                | Some data \<Rightarrow> dwarf_impl ops data None bases EhFrame base regs first rel fde_offset read))
      | EhFrameHdrAndEhFrame hdr eh_frame bases \<Rightarrow>
          (case get_fde_offset_for_relative_address (op_gimli ops eh_frame (Some hdr) bases) base rel of
             None \<Rightarrow> (Inl EhFrameHdrCouldNotFindAddress, regs)
           | Some fde_offset \<Rightarrow>
               dwarf_impl ops eh_frame (Some hdr) bases EhFrame base regs first rel fde_offset read)
      | DwarfCfiIndexAndEhFrame index eh_frame bases \<Rightarrow>
          (case fde_offset_for_relative_address index rel of
             None \<Rightarrow> (Inl DwarfCfiIndexCouldNotFindAddress, regs)
           | Some fde_offset \<Rightarrow>
               dwarf_impl ops eh_frame None bases EhFrame base regs first rel fde_offset read)
      | DwarfCfiIndexAndDebugFrame index debug_frame bases \<Rightarrow>
          (case fde_offset_for_relative_address index rel of
             None \<Rightarrow> (Inl DwarfCfiIndexCouldNotFindAddress, regs)
           | Some fde_offset \<Rightarrow>
               dwarf_impl ops debug_frame None bases DebugFrame base regs first rel fde_offset read)
      | PeUnwindInfo pdata rdata xdata text \<Rightarrow>
          (case op_pe ops pdata rdata xdata text rel regs first read of
             (Inl e, regs') \<Rightarrow> (Inl (PeError e), regs')
           | (Inr r, regs') \<Rightarrow> (Inr r, regs'))
      | NoUnwindData \<Rightarrow> (Inl NoModuleUnwindData, regs))"

section \<open>Sessions\<close>

text \<open>
  A session interleaves changes of the module list with frames to unwind, all with one cache.
  The result is the list of the frames' results, \<open>None\<close> when the generation counter runs out.
\<close>

datatype ('d, 'regs) session_op =
    AddModule "'d Module"
  | RemoveModule u64
  | UnwindFrame FrameAddress 'regs read_stack

definition change_modules :: "'d UnwinderInternal \<Rightarrow> u64 \<Rightarrow> ('d, 'regs) session_op \<Rightarrow>
    ('d UnwinderInternal \<times> u64) option" where
  "change_modules u counter change =
     (case change of
        AddModule m \<Rightarrow> add_module u m counter
      | RemoveModule start \<Rightarrow> remove_module u start counter
      | UnwindFrame _ _ _ \<Rightarrow> Some (u, counter))"

fun session :: "('rule, 'regs) exec_fn \<Rightarrow> 'rule \<Rightarrow> ('d, 'rule, 'regs, 'e) callback_fn \<Rightarrow>
    'd UnwinderInternal \<Rightarrow> u64 \<Rightarrow> 'rule RuleCache \<Rightarrow> ('d, 'regs) session_op list \<Rightarrow>
    ((Error + (u64 \<times> bool) option) \<times> 'regs) list option" where
  "session exec fallback callback u counter cache [] = Some []"
| "session exec fallback callback u counter cache (UnwindFrame address regs read # sops) =
     (case with_cache exec fallback u callback address regs cache read of
        (r, cache') \<Rightarrow>
          map_option (Cons r) (session exec fallback callback u counter cache' sops))"
| "session exec fallback callback u counter cache (change # sops) =
     Option.bind (change_modules u counter change) (\<lambda>(u', counter').
       session exec fallback callback u' counter' cache sops)"

fun session_uncached :: "('rule, 'regs) exec_fn \<Rightarrow> 'rule \<Rightarrow> ('d, 'rule, 'regs, 'e) callback_fn \<Rightarrow>
    'd UnwinderInternal \<Rightarrow> u64 \<Rightarrow> ('d, 'regs) session_op list \<Rightarrow>
    ((Error + (u64 \<times> bool) option) \<times> 'regs) list option" where
  "session_uncached exec fallback callback u counter [] = Some []"
| "session_uncached exec fallback callback u counter (UnwindFrame address regs read # sops) =
     map_option (Cons (without_cache exec fallback u callback address regs read))
       (session_uncached exec fallback callback u counter sops)"
| "session_uncached exec fallback callback u counter (change # sops) =
     Option.bind (change_modules u counter change) (\<lambda>(u', counter').
       session_uncached exec fallback callback u' counter' sops)"

text \<open>
  The invariant of a session: every cached rule is the one its generation's module list gives,
  and only generations that were handed out are cached.
\<close>

definition session_inv :: "'rule \<Rightarrow> ('d Module \<Rightarrow> u64 \<Rightarrow> u32 \<Rightarrow> 'rule option) \<Rightarrow>
    'd UnwinderInternal \<Rightarrow> u64 \<Rightarrow> 'rule RuleCache \<Rightarrow> bool" where
  "session_inv fallback rule_of u counter cache \<longleftrightarrow> modules_generation u < counter \<and>
     (\<exists>lists. lists (modules_generation u) = modules u \<and>
        cache_sound fallback rule_of lists cache \<and>
        rule_cache.sound (\<lambda>a g r. g < counter) cache)"

lemma next_modules_generation_less:
  "next_modules_generation counter = Some (g, counter') \<Longrightarrow> g = counter \<and> counter < counter'"
  by (auto simp: next_modules_generation_def dest: checked_add_less)

lemma change_modules_generation:
  assumes "change_modules u counter change = Some (u', counter')"
  shows "(u', counter') = (u, counter) \<or> modules_generation u' = counter \<and> counter < counter'"
  using assms
  by (auto simp: change_modules_def add_module_def remove_module_def dest: next_modules_generation_less
      split: session_op.splits option.splits)

lemma session_inv_new_list:
  assumes "session_inv fallback rule_of u counter cache"
    and "modules_generation u' = counter" "counter < counter'"
  shows "session_inv fallback rule_of u' counter' cache"
proof -
  from assms(1) obtain lists where l: "cache_sound fallback rule_of lists cache"
    "rule_cache.sound (\<lambda>a g r. g < counter) cache" by (auto simp: session_inv_def)
  let ?lists = "lists(counter := modules u')"
  have "cache_sound fallback rule_of ?lists cache" "rule_cache.sound (\<lambda>a g r. g < counter') cache"
    using l assms(3) unfolding cache_sound_def rule_cache.sound_def by fastforce+
  with assms(2,3) show ?thesis unfolding session_inv_def by (intro conjI exI [of _ ?lists]) auto
qed

lemma with_cache_generations:
  assumes "rule_cache.sound (\<lambda>a g r. g < counter) cache" "modules_generation u < counter"
  shows "rule_cache.sound (\<lambda>a g r. g < counter)
    (snd (with_cache exec fallback u callback address regs cache read))"
proof -
  let ?a = "address_for_lookup address" and ?g = "modules_generation u"
  obtain res cache' where l: "lookup cache ?a ?g = (res, cache')" by fastforce
  have look: "rule_cache.sound (\<lambda>a g r. g < counter) cache'"
    using rule_cache.sound_look [OF assms(1), of ?a ?g] l by simp
  have ins: "rule_cache.sound (\<lambda>a g r. g < counter) (insert_rule cache' h rule)" if "res = Miss h" for h rule
    using rule_cache.sound_ins [OF assms(1), of ?a ?g h rule] assms(2) that l by simp
  show ?thesis
    using l look ins
    by (auto simp: with_cache_def Let_def split: CacheResult.splits option.splits prod.splits sum.splits
        UnwindResult.splits)
qed

text \<open>
  In a session whose rules are determined, at every frame the module found answers with the rule
  of its relative address: an error counts as the fallback rule, and an answer that is not cached
  as no rule. Only modules the session adds and addresses in their range matter.
\<close>

definition session_determined :: "'rule \<Rightarrow> ('d, 'rule, 'regs, 'e) callback_fn \<Rightarrow>
    ('d Module \<Rightarrow> u64 \<Rightarrow> u32 \<Rightarrow> 'rule option) \<Rightarrow> 'd Module set \<Rightarrow> ('d, 'regs) session_op list \<Rightarrow> bool" where
  "session_determined fallback callback rule_of ms sops \<longleftrightarrow>
     (\<forall>address regs read m rel. UnwindFrame address regs read \<in> set sops \<longrightarrow>
        m \<in> ms \<union> {m. AddModule m \<in> set sops} \<longrightarrow> may_answer m (address_for_lookup address) rel \<longrightarrow>
        answers_with fallback (rule_of m (address_for_lookup address) rel) regs
          (callback m address rel regs read))"

lemma change_modules_listed:
  assumes "chunks_wf (modules u)" "change_modules u counter change = Some (u', counter')"
  shows "chunks_wf (modules u') \<and>
    set (concat (modules u')) \<subseteq> set (concat (modules u)) \<union> {m. AddModule m = change}"
proof (cases change)
  case (AddModule m)
  obtain xs ys where "concat (modules u) = xs @ ys" "concat (add_chunked (modules u) m) = xs @ m # ys"
    by (rule concat_add_chunked [OF assms(1)])
  with AddModule assms add_chunked_wf [OF assms(1)] show ?thesis
    by (auto simp: change_modules_def add_module_def simp del: set_concat)
next
  case (RemoveModule start)
  show ?thesis
  proof (cases "remove_chunked (modules u) start")
    case (Some chunks)
    from remove_chunked_Some [OF assms(1) Some] obtain xs m ys where
      "concat (modules u) = xs @ m # ys" "concat chunks = xs @ ys" "chunks_wf chunks" .
    with RemoveModule Some assms(2) show ?thesis
      by (auto simp: change_modules_def remove_module_def simp del: set_concat)
  qed (use RemoveModule assms in \<open>auto simp: change_modules_def remove_module_def\<close>)
qed (use assms in \<open>auto simp: change_modules_def\<close>)

lemma session_transparent:
  shows "session_inv fallback rule_of u counter cache \<Longrightarrow> chunks_wf (modules u) \<Longrightarrow>
    session_determined fallback callback rule_of (set (concat (modules u))) sops \<Longrightarrow>
    session exec fallback callback u counter cache sops =
    session_uncached exec fallback callback u counter sops"
proof (induction sops arbitrary: u counter cache)
  case (Cons sop sops)
  show ?case
  proof (cases "\<exists>address regs read. sop = UnwindFrame address regs read")
    case True
    then obtain address regs read where sop: "sop = UnwindFrame address regs read" by blast
    obtain r cache' where w: "with_cache exec fallback u callback address regs cache read = (r, cache')"
      by fastforce
    from Cons.prems obtain lists where l: "lists (modules_generation u) = modules u"
      "cache_sound fallback rule_of lists cache" "rule_cache.sound (\<lambda>a g r. g < counter) cache"
      and g: "modules_generation u < counter" by (auto simp: session_inv_def)
    have det: "determined_at fallback callback rule_of u address regs read"
      using find_chunked_may_answer [OF Cons.prems(2)] Cons.prems(3) sop
      by (fastforce simp: find_module_for_address_def session_determined_def determined_at_def simp del: set_concat)
    from with_cache_transparent_step [OF det l(2,1), of exec]
      with_cache_generations [OF l(3) g, of exec fallback callback address regs read] l(1) g w
    have "r = without_cache exec fallback u callback address regs read"
      "session_inv fallback rule_of u counter cache'"
      by (auto simp: session_inv_def)
    moreover have "session_determined fallback callback rule_of (set (concat (modules u))) sops"
      using Cons.prems(3) by (auto simp: session_determined_def simp del: set_concat)
    ultimately show ?thesis using Cons.IH [of u counter cache'] Cons.prems(2) sop w by simp
  next
    case False
    have "session_inv fallback rule_of u' counter' cache" "chunks_wf (modules u')"
      "session_determined fallback callback rule_of (set (concat (modules u'))) sops"
      if "change_modules u counter sop = Some (u', counter')" for u' counter'
    proof -
      note listed = change_modules_listed [OF Cons.prems(2) that]
      show "session_inv fallback rule_of u' counter' cache"
        using change_modules_generation [OF that] Cons.prems(1) session_inv_new_list [OF Cons.prems(1)] by blast
      show "chunks_wf (modules u')" using listed by blast
      show "session_determined fallback callback rule_of (set (concat (modules u'))) sops"
        using listed Cons.prems(3) unfolding session_determined_def by (fastforce simp del: set_concat)
    qed
    with Cons.IH False show ?thesis
      by (cases sop; cases "change_modules u counter sop") auto
  qed
qed simp

lemma new_session_transparent:
  assumes "session_determined fallback callback rule_of {} sops" "unwinder_new counter = Some (u, counter')"
  shows "session exec fallback callback u counter' cache_new sops =
    session_uncached exec fallback callback u counter' sops"
proof (rule session_transparent)
  from assms(2) have u: "modules_generation u < counter'" "modules u = []"
    by (auto simp: unwinder_new_def dest: next_modules_generation_less)
  then show "session_inv fallback rule_of u counter' cache_new"
    unfolding session_inv_def
    by (intro conjI exI [of _ "\<lambda>_. modules u"]) (simp_all add: cache_sound_new rule_cache.sound_new)
  show "chunks_wf (modules u)" "session_determined fallback callback rule_of (set (concat (modules u))) sops"
    using u assms(1) by (simp_all add: chunks_wf_def)
qed

section \<open>Properties\<close>

text \<open>
  C7: no module generation is ever handed out twice. However the threads' loads, failed and
  successful exchanges interleave, the generations returned so far are strictly increasing in
  the order of the exchanges, all below the counter.
\<close>

theorem generations_never_reused:
  assumes "gen_step\<^sup>*\<^sup>* gen_start s"
  shows "distinct (gen_returned s) \<and> sorted_wrt (>) (gen_returned s) \<and>
    (\<forall>g \<in> set (gen_returned s). g < gen_counter s)"
proof -
  from gen_reachable_inv [OF assms]
  have inv: "sorted_wrt (>) (gen_returned s)" "\<forall>g \<in> set (gen_returned s). g < gen_counter s"
    by (auto simp: gen_inv_def)
  have "distinct xs" if "sorted_wrt (>) xs" for xs :: "u64 list"
    using that by (induction xs) auto
  with inv show ?thesis by blast
qed

definition gen_two :: gen_state where
  "gen_two = \<lparr>gen_counter = 2, gen_local = (\<lambda>_. None), gen_returned = [1, 0]\<rparr>"

theorem generations_never_reused_witness:
  "gen_step\<^sup>*\<^sup>* gen_start gen_two \<and> distinct (gen_returned gen_two)"
proof -
  let ?s1 = "\<lparr>gen_counter = 0, gen_local = (\<lambda>_. None)(0 \<mapsto> 0), gen_returned = []\<rparr>"
  let ?s2 = "\<lparr>gen_counter = 0, gen_local = (\<lambda>_. None)(0 \<mapsto> 0, 1 \<mapsto> 0), gen_returned = []\<rparr>"
  let ?s3 = "\<lparr>gen_counter = 1, gen_local = (\<lambda>_. None)(1 \<mapsto> 0), gen_returned = [0]\<rparr>"
  let ?s4 = "\<lparr>gen_counter = 1, gen_local = (\<lambda>_. None)(1 \<mapsto> 1), gen_returned = [0]\<rparr>"
  have 1: "gen_step gen_start ?s1"
    using gen_load [of gen_start 0 0] by (simp add: gen_start_def)
  have 2: "gen_step ?s1 ?s2" using gen_load [of ?s1 1 0] by simp
  have 3: "gen_step ?s2 ?s3"
    using gen_exchange [of ?s2 0 0 1] by (simp add: checked_add_def fun_upd_twist)
  have 4: "gen_step ?s3 ?s4" using gen_fail [of ?s3 1 0 1] by (simp add: checked_add_def)
  have 5: "gen_step ?s4 gen_two"
    using gen_exchange [of ?s4 1 1 2] by (simp add: checked_add_def gen_two_def)
  note run = rtranclp.rtrancl_into_rtrancl [where r = gen_step]
  have "gen_step\<^sup>*\<^sup>* gen_start gen_two"
    by (rule run [OF run [OF run [OF run [OF r_into_rtranclp [where r = gen_step, OF 1] 2] 3] 4] 5])
  with generations_never_reused [OF this] show ?thesis by blast
qed



text \<open>
  The frame iterator yields the instruction pointer first and after it only non-null
  return addresses, reports the end of the stack or an error otherwise, and after the end
  stays at the end.
\<close>

theorem iterator_next_frames:
  "case iterator_next frame it of
     (Inr (Some fa), it') \<Rightarrow> frame_address_wf fa \<and> iter_state it' = Unwinding fa \<and>
       (is_return_address fa \<longleftrightarrow> (\<nexists>pc. iter_state it = Initial pc))
   | (Inr None, it') \<Rightarrow> iter_state it' = Done \<and> iterator_next frame it' = (Inr None, it')
   | (Inl e, it') \<Rightarrow> iter_state it' = iter_state it \<and> iter_state it \<noteq> Done"
proof (cases "iter_state it")
  case (Unwinding address)
  obtain r regs cache where f: "frame address (iter_regs it) (iter_cache it) = ((r, regs), cache)"
    by (metis prod.exhaust)
  show ?thesis
  proof (cases r)
    case (Inr x)
    with Unwinding f show ?thesis
      by (cases x) (auto simp: iterator_next_def from_return_address_def)
  qed (use Unwinding f in \<open>simp add: iterator_next_def\<close>)
qed (simp_all add: iterator_next_def)

text \<open>
  A failure is remembered. When the callback fails once for an address of a known module,
  the fallback rule is stored for that address and generation, and the next frame there is
  unwound by the fallback rule whatever the callback would answer for its registers and stack.
\<close>

theorem failure_caches_fallback:
  assumes "cache_wf cache" "cached cache (address_for_lookup address) (modules_generation u) = None"
    and "find_module_for_address u (address_for_lookup address) = Some (m, rel)"
    and "callback m address rel regs read = (Inl e, regs1)"
    and "with_cache exec fallback u callback address regs cache read = (r, cache')"
  shows "fst (with_cache exec fallback u callback address regs2 cache' read2) =
    exec_rule exec fallback (\<not> is_return_address address) regs2 read2"
proof -
  let ?a = "address_for_lookup address" and ?g = "modules_generation u"
  obtain res cache1 where l: "lookup cache ?a ?g = (res, cache1)" by fastforce
  then obtain h where h: "res = Miss h"
    using lookup_result [of cache ?a ?g] assms(2) by (cases res) auto
  with assms(3,4,5) l have c': "cache' = insert_rule cache1 h fallback" by (simp add: with_cache_def)
  have wf1: "cache_wf cache1" using rule_cache.wf_look [OF assms(1), of ?a ?g] l by simp
  have m: "fst (lookup cache ?a ?g) = Miss h" using l h by simp
  note wf' = rule_cache.wf_ins [OF assms(1) m wf1, of fallback]
  have "fst (lookup cache' ?a ?g) = Hit fallback"
    unfolding c' rule_cache.look_hit [OF wf'] by (rule rule_cache.held_ins [OF assms(1) m wf1])
  then show ?thesis by (cases "lookup cache' ?a ?g") (simp add: with_cache_def)
qed

text \<open>
  A callback that fails while the word at 8 is unreadable and answers directly once it is
  readable: the second call would give \<open>0x77\<close>, the cached fallback gives 1.
\<close>

definition reads_8 :: "(unit, u64, unit, unit) callback_fn" where
  "reads_8 m address rel regs read =
     (case read 8 of None \<Rightarrow> (Inl (), regs) | Some v \<Rightarrow> (Inr (Uncacheable v), regs))"

theorem failure_caches_fallback_witness:
  "let u = \<lparr>modules = [[unit_module 0x1000]], modules_generation = 0\<rparr>;
       exec = (\<lambda>r _ regs _. (Inr (Some r), regs));
       fa = InstructionPointer 0x1010;
       cache' = snd (with_cache exec 1 u reads_8 fa () cache_new (\<lambda>_. None))
   in fst (with_cache exec 1 u reads_8 fa () cache' (\<lambda>_. Some 0x77)) = (Inr (Some (1, False)), ()) \<and>
      without_cache exec 1 u reads_8 fa () (\<lambda>_. Some 0x77) = (Inr (Some (0x77, False)), ())"
proof -
  define u where "u = \<lparr>modules = [[unit_module 0x1000]], modules_generation = 0\<rparr>"
  define exec :: "(u64, unit) exec_fn" where "exec = (\<lambda>r _ regs _. (Inr (Some r), regs))"
  define fa where "fa = InstructionPointer 0x1010"
  have find: "find_module_for_address u (address_for_lookup fa) = Some (unit_module 0x1000, 0x10)"
    by (simp add: u_def fa_def find_module_for_address_def find_chunked_def chunk_index_for_def
        candidate_in_chunk_def binary_search_def bsearch_loop.simps unit_module_def try_unsigned_def)
  obtain r cache' where w: "with_cache exec 1 u reads_8 fa () cache_new (\<lambda>_. None) = (r, cache')"
    by fastforce
  have "fst (with_cache exec 1 u reads_8 fa () cache' (\<lambda>_. Some 0x77)) =
      exec_rule exec 1 (\<not> is_return_address fa) () (\<lambda>_. Some 0x77)"
    by (rule failure_caches_fallback [OF rule_cache.wf_new rule_cache.held_new find _ w])
      (simp add: reads_8_def)
  moreover have "without_cache exec 1 u reads_8 fa () (\<lambda>_. Some 0x77) = (Inr (Some (0x77, False)), ())"
    using find by (simp add: without_cache_def reads_8_def)
  ultimately show ?thesis
    unfolding u_def [symmetric] exec_def [symmetric] fa_def [symmetric] Let_def w
    by (simp add: exec_rule_def exec_def not_interrupted_def)
qed

end
