(* ===== verification/Compact_Unwind.thy ===== *)
theory Compact_Unwind
  imports Unwinder Instruction_Analysis
begin

text \<open>
  Unwinding with Apple's compact unwind info, the part every architecture shares
  (\<^verbatim>\<open>vendor/framehop/src/macho.rs\<close>). The crate \<^verbatim>\<open>macho_unwind_info\<close>, which parses the
  \<^verbatim>\<open>__unwind_info\<close> section and looks up functions in it, is a parameter.
\<close>

section \<open>Errors\<close>

text \<open>
  The source's errors; \<open>'m\<close> is the error type of \<^verbatim>\<open>macho_unwind_info\<close>, \<open>'g\<close> that of gimli.
  \<open>CuiPanicked\<close> stands for a panic, which the source does not return.
\<close>

datatype ('m, 'g) CompactUnwindInfoUnwinderError =
    BadFormat 'm
  | AddressOutsideRange u32
  | CallerCannotBeFrameless
  | FunctionHasNoInfo
  | BpOffsetDoesNotFit
  | BadOpcodeKind u8
  | BadDwarfUnwinding "'g DwarfUnwinderError"
  | NoTextBytesToLookUpIndirectStackOffset
  | IndirectStackOffsetOutOfBounds
  | StackAdjustOverflow
  | StackSizeDoesNotFit
  | StubFunctionCannotBeCaller
  | InvalidFrameless
  | CuiPanicked

section \<open>The unwind info crate\<close>

text \<open>\<open>macho_unwind_info::Function\<close>, and \<open>UnwindInfo::parse\<close> with \<open>UnwindInfo::lookup\<close>.\<close>

record MachoFunction =
  start_address :: u32
  end_address :: u32
  function_opcode :: u32

record ('m, 'info) MachoUnwindInfo =
  mui_parse :: "bytes \<Rightarrow> 'm + 'info"
  mui_lookup :: "'info \<Rightarrow> u32 \<Rightarrow> 'm + MachoFunction option"

text \<open>What the crate documents of a lookup: the function that it returns contains the address.\<close>

definition lookup_in_range :: "('m, 'info) MachoUnwindInfo \<Rightarrow> bool" where
  "lookup_in_range mui \<longleftrightarrow>
     (\<forall>info address f. mui_lookup mui info address = Inr (Some f) \<longrightarrow>
        start_address f \<le> address \<and> address < end_address f)"

section \<open>What an architecture provides\<close>

record ('rule, 'm, 'g) CuiArch =
  cui_unwind_function :: "MachoFunction \<Rightarrow> bool \<Rightarrow> usize \<Rightarrow> bytes option \<Rightarrow>
    ('m, 'g) CompactUnwindInfoUnwinderError + 'rule CuiUnwindResult"
  cui_rule_for_stub_helper :: "u32 \<Rightarrow>
    ('m, 'g) CompactUnwindInfoUnwinderError + 'rule CuiUnwindResult"
  cui_rule_for_stub_functions :: 'rule
  cui_rule_for_function_start :: 'rule

section \<open>The unwinder\<close>

definition function_for_address :: "('m, 'info) MachoUnwindInfo \<Rightarrow> bytes \<Rightarrow> u32 \<Rightarrow>
    ('m, 'g) CompactUnwindInfoUnwinderError + MachoFunction" where
  "function_for_address mui unwind_info_data address =
     (case mui_parse mui unwind_info_data of
        Inl e \<Rightarrow> Inl (BadFormat e)
      | Inr unwind_info \<Rightarrow>
          (case mui_lookup mui unwind_info address of
             Inl e \<Rightarrow> Inl (BadFormat e)
           | Inr function \<Rightarrow> ok_or (AddressOutsideRange address) function))"

definition function_text :: "TextBytes option \<Rightarrow> MachoFunction \<Rightarrow> bytes option" where
  "function_text text function =
     Option.bind text (\<lambda>t.
     Option.bind (checked_sub (start_address function) (offset_from_base_address t)) (\<lambda>function_start.
     Option.bind (checked_sub (end_address function) (offset_from_base_address t)) (\<lambda>function_end.
     slice_get (text_bytes t) (unat function_start) (unat function_end))))"

definition cui_unwind_frame :: "('m, 'info) MachoUnwindInfo \<Rightarrow> ('rule, 'm, 'g) CuiArch \<Rightarrow>
    bytes \<Rightarrow> TextBytes option \<Rightarrow> u32 \<times> u32 \<Rightarrow> u32 \<times> u32 \<Rightarrow> u32 \<Rightarrow> bool \<Rightarrow>
    ('m, 'g) CompactUnwindInfoUnwinderError + 'rule CuiUnwindResult" where
  "cui_unwind_frame mui arch unwind_info_data text stubs_range stub_helper_range
     rel_lookup_address is_first_frame =
     (if fst stubs_range \<le> rel_lookup_address \<and> rel_lookup_address < snd stubs_range then
        (if \<not> is_first_frame then Inl StubFunctionCannotBeCaller
         else Inr (CuiExecRule (cui_rule_for_stub_functions arch)))
      else if fst stub_helper_range \<le> rel_lookup_address \<and> rel_lookup_address < snd stub_helper_range then
        (if \<not> is_first_frame then Inl StubFunctionCannotBeCaller
         else cui_rule_for_stub_helper arch (rel_lookup_address - fst stub_helper_range))
      else
        (case function_for_address mui unwind_info_data rel_lookup_address of
           Inl (AddressOutsideRange a) \<Rightarrow>
             if is_first_frame then Inr (CuiExecRule (cui_rule_for_stub_functions arch))
             else Inl (AddressOutsideRange a)
         | Inl e \<Rightarrow> Inl e
         | Inr function \<Rightarrow>
             if is_first_frame \<and> rel_lookup_address = start_address function
             then Inr (CuiExecRule (cui_rule_for_function_start arch))
             else cui_unwind_function arch function is_first_frame
                    (unat (rel_lookup_address - start_address function)) (function_text text function)))"

section \<open>The contract of the trait\<close>

text \<open>
  What the trait's implementations promise: well-formed rules, and no panic when the offset
  lies within the function's bytes, if there are any.
\<close>

locale compact_unwinding =
  fixes arch :: "('rule, 'm, 'g) CuiArch" and wf :: "'rule \<Rightarrow> bool"
  assumes function_wf:
    "cui_unwind_function arch function first off text = Inr (CuiExecRule rule) \<Longrightarrow> wf rule"
    and function_no_panic:
    "pred_option (\<lambda>bs. off \<le> length bs) text \<Longrightarrow>
       cui_unwind_function arch function first off text \<noteq> Inl CuiPanicked"
    and stub_helper_wf: "cui_rule_for_stub_helper arch offset = Inr (CuiExecRule rule) \<Longrightarrow> wf rule"
    and stub_helper_no_panic: "cui_rule_for_stub_helper arch offset \<noteq> Inl CuiPanicked"
    and stub_wf: "wf (cui_rule_for_stub_functions arch)"
    and start_wf: "wf (cui_rule_for_function_start arch)"
begin

lemma unwind_frame_wf:
  "cui_unwind_frame mui arch data text stubs helper address first = Inr (CuiExecRule rule) \<Longrightarrow> wf rule"
  by (auto simp: cui_unwind_frame_def function_wf stub_helper_wf stub_wf start_wf
      split: if_splits sum.splits CompactUnwindInfoUnwinderError.splits)

lemma unwind_frame_no_panic:
  assumes "lookup_in_range mui"
  shows "cui_unwind_frame mui arch data text stubs helper address first \<noteq> Inl CuiPanicked"
proof -
  define res :: "('m, 'g) CompactUnwindInfoUnwinderError + MachoFunction" where
    "res = function_for_address mui data address"
  have "res \<noteq> Inl CuiPanicked"
    by (auto simp: res_def function_for_address_def ok_or_def split: sum.splits option.splits)
  moreover have called: "cui_unwind_function arch f first (unat (address - start_address f)) (function_text text f)
      \<noteq> Inl CuiPanicked" if f: "res = Inr f" for f
  proof (rule function_no_panic)
    from f assms have r: "start_address f \<le> address" "address < end_address f"
      by (auto simp: res_def function_for_address_def lookup_in_range_def ok_or_def split: sum.splits option.splits)
    show "pred_option (\<lambda>bs. unat (address - start_address f) \<le> length bs) (function_text text f)"
    proof (cases "function_text text f")
      case (Some bs)
      then obtain o32 where "o32 \<le> start_address f"
          "length bs = unat (end_address f - o32) - unat (start_address f - o32)" "o32 \<le> end_address f"
        by (auto simp: function_text_def bind_eq_Some_conv checked_simps dest!: slice_get_length)
      with r show ?thesis using Some
        by (simp add: unat_sub_no_underflow word_le_nat_alt word_less_nat_alt)
    qed simp
  qed
  ultimately show ?thesis
    using stub_helper_no_panic called
    unfolding cui_unwind_frame_def res_def [symmetric]
    by (cases res) (simp_all add: cui_unwind_frame_def split: CompactUnwindInfoUnwinderError.split)
qed

end

text \<open>
  When the section cannot serve an address: a caller in the stubs is refused, and an address
  that no function covers is taken for a stub in the first frame only.
\<close>

lemma cui_unwind_frame_uncovered:
  assumes "\<not> (fst stubs \<le> address \<and> address < snd stubs)" "\<not> (fst helper \<le> address \<and> address < snd helper)"
    "mui_parse mui data = Inr info" "mui_lookup mui info address = Inr None"
  shows "cui_unwind_frame mui arch data text stubs helper address first =
    (if first then Inr (CuiExecRule (cui_rule_for_stub_functions arch)) else Inl (AddressOutsideRange address))"
  using assms by (auto simp: cui_unwind_frame_def function_for_address_def)

text \<open>DWARF errors are told apart from those of the other two sources.\<close>

lemma dwarf_impl_errors:
  "dwarf_impl ops data hdr bases ty base regs first rel fde read \<noteq> (Inl (CompactUnwindInfo c), regs')"
  "dwarf_impl ops data hdr bases ty base regs first rel fde read \<noteq> (Inl (PeError p), regs')"
  by (auto simp: dwarf_impl_def split: prod.splits sum.splits)

end
