(* ===== verification/A64_Macho.thy ===== *)
theory A64_Macho
  imports A64_Analysis Compact_Unwind
begin

text \<open>
  Compact unwind info on aarch64 (\<^verbatim>\<open>vendor/framehop/src/aarch64/macho.rs\<close>). Decoding an opcode is
  a parameter; the opcodes have the constructors the code matches on.
\<close>

datatype OpcodeArm64 =
    Null
  | Frameless u16 \<comment> \<open>\<open>stack_size_in_bytes\<close>\<close>
  | Dwarf u32 \<comment> \<open>\<open>eh_frame_fde\<close>\<close>
  | FrameBased
  | UnrecognizedKind u8

definition body_rule_a64 :: "OpcodeArm64 \<Rightarrow> bool \<Rightarrow>
    ('m, 'g) CompactUnwindInfoUnwinderError + UnwindRuleAarch64 CuiUnwindResult" where
  "body_rule_a64 opcode is_first_frame =
     (case opcode of
        Null \<Rightarrow> Inl FunctionHasNoInfo
      | Frameless stack_size_in_bytes \<Rightarrow>
          if is_first_frame then
            (if stack_size_in_bytes = 0 then Inr (CuiExecRule NoOp)
             else Inr (CuiExecRule (OffsetSp (stack_size_in_bytes div 16))))
          else Inl CallerCannotBeFrameless
      | Dwarf eh_frame_fde \<Rightarrow> Inr (NeedDwarf eh_frame_fde)
      | FrameBased \<Rightarrow> Inr (CuiExecRule UseFramePointer)
      | UnrecognizedKind kind \<Rightarrow> Inl (BadOpcodeKind kind))"

definition cui_unwind_function_a64 :: "(u32 \<Rightarrow> OpcodeArm64) \<Rightarrow> MachoFunction \<Rightarrow> bool \<Rightarrow> usize \<Rightarrow>
    bytes option \<Rightarrow> ('m, 'g) CompactUnwindInfoUnwinderError + UnwindRuleAarch64 CuiUnwindResult" where
  "cui_unwind_function_a64 parse function is_first_frame address_offset_within_function function_bytes =
     (let opcode = parse (function_opcode function); body = body_rule_a64 opcode is_first_frame in
      if \<not> is_first_frame then body
      else if opcode = Null then Inr (CuiExecRule NoOp)
      else
        case function_bytes of
          None \<Rightarrow> body
        | Some bs \<Rightarrow>
            (case rule_from_instruction_analysis_a64 bs address_offset_within_function of
               None \<Rightarrow> Inl CuiPanicked
             | Some (Some rule) \<Rightarrow> Inr (CuiExecRule rule)
             | Some None \<Rightarrow> body))"

definition rule_for_stub_helper_a64 :: "u32 \<Rightarrow>
    ('m, 'g) CompactUnwindInfoUnwinderError + UnwindRuleAarch64 CuiUnwindResult" where
  "rule_for_stub_helper_a64 offset =
     Inr (CuiExecRule
       (if offset < 0xc then NoOp else if offset < 0x18 then OffsetSp 1 else NoOp))"

definition cui_arch_a64 :: "(u32 \<Rightarrow> OpcodeArm64) \<Rightarrow> (UnwindRuleAarch64, 'm, 'g) CuiArch" where
  "cui_arch_a64 parse =
     \<lparr>cui_unwind_function = cui_unwind_function_a64 parse,
      cui_rule_for_stub_helper = rule_for_stub_helper_a64,
      cui_rule_for_stub_functions = rule_for_stub_functions_a64,
      cui_rule_for_function_start = rule_for_function_start_a64\<rparr>"

lemma body_rule_a64_no_panic: "body_rule_a64 oc first \<noteq> Inl CuiPanicked"
  by (simp add: body_rule_a64_def split: OpcodeArm64.splits)

interpretation a64_cui: compact_unwinding "cui_arch_a64 parse" "\<lambda>_. True"
proof
  fix f :: MachoFunction and first off and bs :: "bytes option"
  show "pred_option (\<lambda>b. off \<le> length b) bs \<Longrightarrow>
      cui_unwind_function (cui_arch_a64 parse) f first off bs \<noteq> Inl CuiPanicked"
    using a64_analysis.analysis_total [of off "the bs"]
    by (auto simp: cui_arch_a64_def cui_unwind_function_a64_def Let_def body_rule_a64_no_panic
        rule_from_instruction_analysis_a64_def split: option.splits)
qed (auto simp: cui_arch_a64_def rule_for_stub_helper_a64_def)

section \<open>Properties\<close>

text \<open>
  The aarch64 unwinder only follows the link register in the first frame: for a caller, a
  function without unwind information or without a frame is refused, and otherwise the frame
  pointer or DWARF is used, whatever the function's bytes.
\<close>

theorem compact_unwinding_caller_a64:
  "cui_unwind_function_a64 parse f False off bs =
     (case parse (function_opcode f) of
        Null \<Rightarrow> Inl FunctionHasNoInfo
      | Frameless _ \<Rightarrow> Inl CallerCannotBeFrameless
      | Dwarf fde \<Rightarrow> Inr (NeedDwarf fde)
      | FrameBased \<Rightarrow> Inr (CuiExecRule UseFramePointer)
      | UnrecognizedKind kind \<Rightarrow> Inl (BadOpcodeKind kind))"
  by (simp add: cui_unwind_function_a64_def body_rule_a64_def split: OpcodeArm64.split)

text \<open>
  Compact unwind info on aarch64 never panics when lookups return functions that contain
  the address.
\<close>

theorem compact_unwinding_safe_a64:
  "lookup_in_range mui \<Longrightarrow>
     cui_unwind_frame mui (cui_arch_a64 parse) data text stubs helper address first \<noteq> Inl CuiPanicked"
  by (rule a64_cui.unwind_frame_no_panic)

text \<open>
  The stub helper on aarch64, from the listing in the source: \<open>stp x16, x17, [sp, #-16]!\<close> at offset
  8 is the only instruction that moves the stack pointer; the link register keeps the return
  address throughout. \<open>stub_helper_lowered\<close> is by how much the stack pointer is lowered at an offset.
\<close>

definition stub_helper_lowered :: "u32 \<Rightarrow> u64" where
  "stub_helper_lowered offset = (if 0xc \<le> offset \<and> offset < 0x18 then 16 else 0)"

theorem stub_helper_rule_a64:
  assumes "a64_lr regs \<noteq> 0" "strip_ptr_auth (a64_lr_mask regs) (a64_lr regs) = a64_lr regs"
    and "unat (a64_sp regs) + 16 < 2 ^ 64"
  shows "\<exists>rule regs'. (rule_for_stub_helper_a64 offset :: ('m, 'g) CompactUnwindInfoUnwinderError + _) =
      Inr (CuiExecRule rule) \<and>
    exec_a64 rule True regs mem = (Inr (Some (a64_lr regs)), regs') \<and>
    a64_sp regs' = a64_sp regs + stub_helper_lowered offset \<and> a64_fp regs' = a64_fp regs"
proof -
  have "exec_a64 NoOp True regs mem =
      (Inr (Some (a64_lr regs)), a64_set_fp (a64_fp regs) (a64_set_sp (a64_sp regs) (a64_set_lr (a64_lr regs) regs)))"
    "exec_a64 (OffsetSp 1) True regs mem = (Inr (Some (a64_lr regs)),
      a64_set_fp (a64_fp regs) (a64_set_sp (a64_sp regs + 16) (a64_set_lr (a64_lr regs) regs)))"
    using assms by (simp_all add: exec_a64_Some_iff offset_sp_a64_Inr checked_add_def)
  then show ?thesis
    by (auto simp: rule_for_stub_helper_a64_def stub_helper_lowered_def not_less)
qed

end
