(* ===== verification/X86_Regs.thy ===== *)
theory X86_Regs
  imports Prelude "HOL-Library.Multiset"
begin

text \<open>
  The x86_64 register file (\<^verbatim>\<open>vendor/framehop/src/x86_64/unwindregs.rs\<close>) and the compressed
  register orderings that an unwind rule carries (\<^verbatim>\<open>x86_64/register_ordering.rs\<close>). The
  sixteen-element register array is a function from the register enum, whose discriminants
  are exactly the indices of the array.
\<close>

section \<open>The register file\<close>

datatype Reg = RAX | RDX | RCX | RBX | RSI | RDI | RBP | RSP
  | R8 | R9 | R10 | R11 | R12 | R13 | R14 | R15

text \<open>\<open>reg as usize\<close>; the source derives \<open>Ord\<close> from these discriminants.\<close>

fun reg_index :: "Reg \<Rightarrow> nat" where
  "reg_index RAX = 0" | "reg_index RDX = 1" | "reg_index RCX = 2" | "reg_index RBX = 3"
| "reg_index RSI = 4" | "reg_index RDI = 5" | "reg_index RBP = 6" | "reg_index RSP = 7"
| "reg_index R8 = 8" | "reg_index R9 = 9" | "reg_index R10 = 10" | "reg_index R11 = 11"
| "reg_index R12 = 12" | "reg_index R13 = 13" | "reg_index R14 = 14" | "reg_index R15 = 15"

lemma reg_index_inject [simp]: "reg_index r = reg_index s \<longleftrightarrow> r = s"
  by (cases r; cases s) simp_all

lemma reg_index_less: "reg_index r < 16"
  by (cases r) simp_all

instantiation Reg :: linorder
begin

definition less_eq_Reg :: "Reg \<Rightarrow> Reg \<Rightarrow> bool" where
  "less_eq_Reg r s \<longleftrightarrow> reg_index r \<le> reg_index s"

definition less_Reg :: "Reg \<Rightarrow> Reg \<Rightarrow> bool" where
  "less_Reg r s \<longleftrightarrow> reg_index r < reg_index s"

instance
  by standard (auto simp: less_eq_Reg_def less_Reg_def)

end

record UnwindRegsX86_64 =
  x86_ip :: u64
  x86_regs :: "Reg \<Rightarrow> u64"

definition x86_get :: "UnwindRegsX86_64 \<Rightarrow> Reg \<Rightarrow> u64" where
  "x86_get r reg = x86_regs r reg"

definition x86_set :: "Reg \<Rightarrow> u64 \<Rightarrow> UnwindRegsX86_64 \<Rightarrow> UnwindRegsX86_64" where
  "x86_set reg value r = r\<lparr>x86_regs := (x86_regs r)(reg := value)\<rparr>"

definition x86_set_ip :: "u64 \<Rightarrow> UnwindRegsX86_64 \<Rightarrow> UnwindRegsX86_64" where
  "x86_set_ip ip r = r\<lparr>x86_ip := ip\<rparr>"

definition x86_sp :: "UnwindRegsX86_64 \<Rightarrow> u64" where
  "x86_sp r = x86_get r RSP"

definition x86_set_sp :: "u64 \<Rightarrow> UnwindRegsX86_64 \<Rightarrow> UnwindRegsX86_64" where
  "x86_set_sp sp = x86_set RSP sp"

definition x86_bp :: "UnwindRegsX86_64 \<Rightarrow> u64" where
  "x86_bp r = x86_get r RBP"

definition x86_set_bp :: "u64 \<Rightarrow> UnwindRegsX86_64 \<Rightarrow> UnwindRegsX86_64" where
  "x86_set_bp bp = x86_set RBP bp"

definition x86_new :: "u64 \<Rightarrow> u64 \<Rightarrow> u64 \<Rightarrow> UnwindRegsX86_64" where
  "x86_new ip sp bp = x86_set_bp bp (x86_set_sp sp \<lparr>x86_ip = ip, x86_regs = (\<lambda>_. 0)\<rparr>)"

text \<open>
  Reads after writes. The whole register file follows these equations, so later proofs never
  unfold the record.
\<close>

lemma x86_get_set [simp]:
  "x86_get (x86_set reg v r) reg' = (if reg' = reg then v else x86_get r reg')"
  by (simp add: x86_get_def x86_set_def)

lemma x86_get_set_ip [simp]: "x86_get (x86_set_ip v r) reg = x86_get r reg"
  by (simp add: x86_get_def x86_set_ip_def)

lemma x86_ip_set [simp]: "x86_ip (x86_set reg v r) = x86_ip r" "x86_ip (x86_set_ip v r) = v"
  by (simp_all add: x86_set_def x86_set_ip_def)

lemma x86_sp_bp_set [simp]:
  "x86_sp (x86_set_ip v r) = x86_sp r" "x86_bp (x86_set_ip v r) = x86_bp r"
  "x86_sp (x86_set_sp v r) = v" "x86_bp (x86_set_sp v r) = x86_bp r"
  "x86_sp (x86_set_bp v r) = x86_sp r" "x86_bp (x86_set_bp v r) = v"
  "x86_ip (x86_set_sp v r) = x86_ip r" "x86_ip (x86_set_bp v r) = x86_ip r"
  by (simp_all add: x86_sp_def x86_bp_def x86_set_sp_def x86_set_bp_def)

lemma x86_get_set_sp_bp [simp]:
  "x86_get (x86_set_sp v r) reg = (if reg = RSP then v else x86_get r reg)"
  "x86_get (x86_set_bp v r) reg = (if reg = RBP then v else x86_get r reg)"
  by (simp_all add: x86_set_sp_def x86_set_bp_def)

lemma x86_sp_set_other: "reg \<noteq> RSP \<Longrightarrow> x86_sp (x86_set reg v r) = x86_sp r"
  by (simp add: x86_sp_def)

lemma x86_new_simps [simp]:
  "x86_ip (x86_new ip sp bp) = ip" "x86_sp (x86_new ip sp bp) = sp"
  "x86_bp (x86_new ip sp bp) = bp"
  by (simp_all add: x86_new_def)

section \<open>Register orderings\<close>

definition ENCODE_REGISTERS :: "Reg list" where
  "ENCODE_REGISTERS = [RBX, RBP, RDI, RSI, R12, R13, R14, R15]"

text \<open>
  The loop of \<open>decode\<close>. \<open>r % n\<close> and \<open>r / n\<close> panic for \<open>n = 0\<close>, which is the value \<open>None\<close>;
  \<open>n\<close> counts down from 8, so the loop ends.
\<close>

function decode_loop :: "Reg list \<Rightarrow> u16 \<Rightarrow> u16 \<Rightarrow> Reg list option" where
  "decode_loop regs r n =
     (if r = 0 then Some regs
      else if n = 0 then None
      else let index = r mod n;
               regs' = (if index \<noteq> 0
                        then swap regs (8 - unat n + unat index) (8 - unat n) else regs)
           in decode_loop regs' (r div n) (n - 1))"
  by pat_completeness auto
termination
  by (relation "measure (\<lambda>(regs, r, n). unat n)") (auto simp: unat_minus_one unat_gt_0)

declare decode_loop.simps [simp del]

definition decode :: "u8 \<Rightarrow> u16 \<Rightarrow> Reg list option" where
  "decode register_count encoded_ordering =
     map_option (take (unat register_count)) (decode_loop ENCODE_REGISTERS encoded_ordering 8)"

fun encode_loop :: "nat \<Rightarrow> Reg list \<Rightarrow> Reg list \<Rightarrow> u16 \<Rightarrow> u16 \<Rightarrow> u16 option" where
  "encode_loop i [] reg_order r scale = Some r"
| "encode_loop i (reg # regs) reg_order r scale =
     (case position (\<lambda>x. x = reg) (drop i reg_order) of
        None \<Rightarrow> None
      | Some index \<Rightarrow>
          encode_loop (Suc i) regs
            (if (of_nat index :: u16) \<noteq> 0 then swap reg_order (i + index) i else reg_order)
            (r + of_nat index * scale) (scale * (8 - of_nat i)))"

definition encode :: "Reg list \<Rightarrow> (u8 \<times> u16) option" where
  "encode registers =
     (if length registers > length ENCODE_REGISTERS then None
      else map_option (\<lambda>r. (of_nat (length registers), r))
             (encode_loop 0 registers ENCODE_REGISTERS 0 1))"

subsection \<open>Encoding and decoding are inverse\<close>

text \<open>
  The encoding is a number in a mixed radix: digit \<open>i\<close> has radix \<open>8 - i\<close> and says which of
  the registers not yet used comes next. \<open>radix i\<close> is the weight of digit \<open>i\<close>.
\<close>

fun radix :: "nat \<Rightarrow> nat" where
  "radix 0 = 1"
| "radix (Suc i) = radix i * (8 - i)"

lemma radix_pos: "i \<le> 8 \<Longrightarrow> 0 < radix i"
  by (induction i) auto

lemma radix_mono: "i \<le> j \<Longrightarrow> j \<le> 8 \<Longrightarrow> radix i \<le> radix j"
proof (induction j)
  case (Suc j)
  show ?case
  proof (cases "i = Suc j")
    case False
    with Suc have "radix i \<le> radix j" by simp
    also have "\<dots> \<le> radix j * (8 - j)"
      using Suc.prems by (cases "8 - j") auto
    finally show ?thesis by simp
  qed simp
qed simp

lemma radix_8: "radix 8 = 40320"
  using radix.simps(2) [of 7] radix.simps(2) [of 6] radix.simps(2) [of 5] radix.simps(2) [of 4]
    radix.simps(2) [of 3] radix.simps(2) [of 2] radix.simps(2) [of "Suc 0"]
  by (simp add: numeral_2_eq_2 [symmetric])

lemma radix_le: "i \<le> 8 \<Longrightarrow> radix i \<le> 40320"
  using radix_mono [of i 8] by (simp add: radix_8)

lemma decode_loop_0 [simp]: "decode_loop regs 0 n = Some regs"
  by (simp add: decode_loop.simps [of regs 0])

text \<open>One turn of the decoder on a number whose lowest digit is \<open>index\<close>.\<close>

lemma decode_loop_digit:
  assumes "0 < n" "n \<le> 8" "index < n" "index + n * q < 2 ^ 16"
  shows "decode_loop ord (of_nat (index + n * q)) (of_nat n) =
    decode_loop (swap ord (8 - n + index) (8 - n)) (of_nat q) (of_nat (n - 1))"
proof (cases "index + n * q = 0")
  case True
  with assms(1) have "index = 0" "q = 0" by auto
  then show ?thesis by simp
next
  case False
  define r :: u16 where "r = of_nat (index + n * q)"
  define m :: u16 where "m = of_nat n"
  have ur: "unat r = index + n * q" and um: "unat m = n"
    using assms unat_of_nat_small [of "index + n * q", where 'a = 16]
    by (simp_all add: r_def m_def unat_of_nat_small)
  have "r \<noteq> 0" using False ur by (metis unat_0)
  moreover have "m \<noteq> 0" using assms(1) um by (metis unat_0 less_irrefl)
  moreover have md: "unat (r mod m) = index" "unat (r div m) = q"
    using assms by (simp_all add: unat_mod_distrib unat_div_distrib ur um)
  moreover have "r div m = of_nat q" unfolding md(2) [symmetric] by simp
  moreover have "m - 1 = of_nat (n - 1)"
    using assms(1) by (simp add: m_def of_nat_diff)
  moreover have "r mod m = 0 \<longleftrightarrow> index = 0" using md(1) by (metis unat_0 unat_eq_0)
  ultimately show ?thesis
    unfolding r_def [symmetric] m_def [symmetric]
    by (simp add: decode_loop.simps [of ord r m] Let_def um)
qed

text \<open>One turn of the encoder puts the wanted register in place and adds its digit.\<close>

lemma encode_decode_loop:
  assumes "length ord = 8" "i + length regs \<le> 8" "unat scale = radix i" "unat r < radix i"
    and "encode_loop i regs ord r scale = Some r'"
  shows "\<exists>q ord'. unat r' = unat r + radix i * q \<and> unat r' < radix (i + length regs) \<and>
    decode_loop ord (of_nat q) (of_nat (8 - i)) = Some ord' \<and>
    take (i + length regs) ord' = take i ord @ regs"
  using assms
proof (induction regs arbitrary: i ord r scale)
  case Nil
  then show ?case by (intro exI [of _ 0] exI [of _ ord]) simp
next
  case (Cons reg regs)
  obtain index where pos: "position (\<lambda>x. x = reg) (drop i ord) = Some index"
    using Cons.prems(5) by (auto split: option.splits)
  define ord1 where "ord1 = swap ord (i + index) i"
  have index: "index < 8 - i" "ord ! (i + index) = reg"
    using position_Some [OF pos] Cons.prems(1,2) by auto
  have i: "i < 8" "Suc i \<le> 8" using Cons.prems(2) by auto
  have idx0: "(of_nat index :: u16) \<noteq> 0 \<longleftrightarrow> index \<noteq> 0"
    using index(1) of_nat_eq_0_small [of index, where 'a = 16] by simp
  have w8: "unat (8 - of_nat i :: u16) = 8 - i"
    using i by (simp add: unat_sub word_le_nat_alt unat_of_nat_small)
  have digit: "unat r + index * radix i < radix (Suc i)"
  proof -
    have "unat r + index * radix i < Suc index * radix i" using Cons.prems(4) by simp
    also have "\<dots> \<le> (8 - i) * radix i" using index(1) by (intro mult_le_mono) simp_all
    finally show ?thesis by (simp add: mult.commute)
  qed
  have r1: "unat (r + of_nat index * scale) = unat r + index * radix i"
    using digit radix_le [OF i(2)] index(1) Cons.prems(3)
    by (simp add: unat_word_ariths unat_of_nat_small)
  have s1: "unat (scale * (8 - of_nat i)) = radix (Suc i)"
    using radix_le [OF i(2)] Cons.prems(3) w8 by (simp add: unat_word_ariths(2))
  have ord_eq: "(if (of_nat index :: u16) \<noteq> 0 then swap ord (i + index) i else ord) = ord1"
    using idx0 by (simp add: ord1_def)
  have enc: "encode_loop (Suc i) regs ord1 (r + of_nat index * scale) (scale * (8 - of_nat i)) = Some r'"
    using Cons.prems(5) pos by (simp add: ord_eq del: of_nat_eq_0_iff)
  have "length ord1 = 8" "Suc i + length regs \<le> 8"
    using Cons.prems(1,2) by (simp_all add: ord1_def)
  from Cons.IH [OF this s1 digit [folded r1] enc, unfolded r1] obtain q ord' where
    q: "unat r' = unat r + index * radix i + radix (Suc i) * q"
      "unat r' < radix (Suc i + length regs)"
      "decode_loop ord1 (of_nat q) (of_nat (8 - Suc i)) = Some ord'"
      "take (Suc i + length regs) ord' = take (Suc i) ord1 @ regs"
    by blast
  have "take (Suc i) ord1 = take i ord @ [reg]"
    using i(1) index Cons.prems(1)
    by (auto simp: ord1_def take_Suc_conv_app_nth) (auto simp: swap_def nth_list_update)
  moreover have "index + (8 - i) * q < 2 ^ 16"
  proof -
    have "index + (8 - i) * q \<le> radix i * (index + (8 - i) * q)"
      using radix_pos [of i] i(1) by simp
    also have "\<dots> \<le> unat r'" using q(1) by (simp add: algebra_simps)
    also have "\<dots> < 2 ^ 16"
      using q(2) radix_le [of "Suc i + length regs"] Cons.prems(2) by simp
    finally show ?thesis .
  qed
  then have "decode_loop ord (of_nat (index + (8 - i) * q)) (of_nat (8 - i)) = Some ord'"
    using decode_loop_digit [of "8 - i" index q ord] index(1) i(1) q(3)
    by (simp add: ord1_def)
  moreover have "unat r' = unat r + radix i * (index + (8 - i) * q)"
    using q(1) by (simp add: algebra_simps)
  ultimately show ?case using q(2,4) by (intro exI conjI) auto
qed

text \<open>The registers left after a swap are those left before, without the one just placed.\<close>

lemma set_drop_swap:
  assumes "i + index < length ord" "ord ! (i + index) = reg"
  shows "set (drop i ord) - {reg} \<subseteq> set (drop (Suc i) (swap ord (i + index) i))"
proof -
  have "drop i (swap ord (i + index) i) = swap (drop i ord) index 0"
    using assms(1) by (simp add: swap_def drop_update_swap)
  moreover have "mset (swap (drop i ord) index 0) = mset (drop i ord)"
    unfolding swap_def using assms(1) by (intro mset_swap) simp_all
  ultimately have "set (drop i (swap ord (i + index) i)) = set (drop i ord)"
    by (metis set_mset_mset)
  moreover have "drop i (swap ord (i + index) i) = reg # drop (Suc i) (swap ord (i + index) i)"
    using assms by (simp add: Cons_nth_drop_Suc [symmetric] swap_def nth_list_update)
  ultimately show ?thesis by auto
qed

lemma encode_loop_total:
  assumes "distinct regs" "set regs \<subseteq> set (drop i ord)" "i + length regs \<le> 8" "length ord = 8"
  shows "\<exists>r'. encode_loop i regs ord r scale = Some r'"
  using assms
proof (induction regs arbitrary: i ord r scale)
  case (Cons reg regs)
  from Cons.prems(2) obtain index where
    pos: "position (\<lambda>x. x = reg) (drop i ord) = Some index"
    by (cases "position (\<lambda>x. x = reg) (drop i ord)") (auto simp: position_None_iff)
  define ord1 where
    "ord1 = (if (of_nat index :: u16) \<noteq> 0 then swap ord (i + index) i else ord)"
  from position_Some [OF pos] Cons.prems(3,4)
  have index: "i + index < length ord" "ord ! (i + index) = reg" by auto
  have "(of_nat index :: u16) \<noteq> 0 \<longleftrightarrow> index \<noteq> 0"
    using index(1) Cons.prems(4) of_nat_eq_0_small [of index, where 'a = 16] by simp
  then have "ord1 = swap ord (i + index) i" by (simp add: ord1_def)
  with set_drop_swap [OF index] Cons.prems
  have "set regs \<subseteq> set (drop (Suc i) ord1)" "length ord1 = 8" by auto
  with Cons.prems(1,3) have
    "\<exists>r'. encode_loop (Suc i) regs ord1 (r + of_nat index * scale) (scale * (8 - of_nat i)) = Some r'"
    by (intro Cons.IH) auto
  with pos show ?case by (simp add: ord1_def)
qed simp

lemma encode_Some_bound: "encode regs = Some (cnt, e) \<Longrightarrow> unat cnt = length regs \<and> length regs \<le> 8"
  by (auto simp: encode_def ENCODE_REGISTERS_def unat_of_nat_small split: if_splits)

lemma encode_loop_start:
  assumes "encode regs = Some (cnt, e)"
  shows "encode_loop 0 regs ENCODE_REGISTERS 0 1 = Some e"
  using assms by (auto simp: encode_def split: if_splits)

text \<open>Decoding any number permutes the encodable registers; it never invents one.\<close>

lemma decode_loop_mset:
  assumes "decode_loop regs r n = Some regs'" "length regs = 8" "unat n \<le> 8"
  shows "mset regs' = mset regs"
  using assms
proof (induction regs r n rule: decode_loop.induct)
  case (1 regs r n)
  show ?case
  proof (cases "r = 0 \<or> n = 0")
    case True
    with "1.prems" show ?thesis by (auto simp: decode_loop.simps [of regs r n] split: if_splits)
  next
    case False
    define regs1 where "regs1 = (if r mod n \<noteq> 0
      then swap regs (8 - unat n + unat (r mod n)) (8 - unat n) else regs)"
    have "unat (r mod n) < unat n" using False by (simp add: unat_mod_distrib unat_gt_0)
    then have "mset regs1 = mset regs" "length regs1 = 8"
      using "1.prems"(2,3) by (auto simp: regs1_def swap_def intro!: mset_swap)
    moreover have "decode_loop regs1 (r div n) (n - 1) = Some regs'"
      using "1.prems"(1) False by (simp add: decode_loop.simps [of regs r n] regs1_def Let_def)
    moreover have "unat (n - 1) \<le> 8" using False "1.prems"(3) by (simp add: unat_minus_one)
    ultimately show ?thesis
      using "1.IH" False by (simp add: regs1_def Let_def)
  qed
qed

lemma ENCODE_REGISTERS_distinct [simp]: "distinct ENCODE_REGISTERS" "length ENCODE_REGISTERS = 8"
  by (simp_all add: ENCODE_REGISTERS_def)

lemma decode_registers:
  assumes "decode cnt e = Some regs"
  shows "distinct regs" "set regs \<subseteq> set ENCODE_REGISTERS" "length regs \<le> 8"
proof -
  from assms obtain ord where ord: "decode_loop ENCODE_REGISTERS e 8 = Some ord"
    and regs: "regs = take (unat cnt) ord" by (auto simp: decode_def)
  from decode_loop_mset [OF ord] have m: "mset ord = mset ENCODE_REGISTERS" by simp
  from mset_eq_imp_distinct_iff [OF m] mset_eq_setD [OF m] mset_eq_length [OF m]
  show "distinct regs" "set regs \<subseteq> set ENCODE_REGISTERS" "length regs \<le> 8"
    by (auto simp: regs dest: in_set_takeD)
qed

lemma decode_not_RSP: "decode cnt e = Some regs \<Longrightarrow> RSP \<notin> set regs"
  using decode_registers(2) [of cnt e regs] by (auto simp: ENCODE_REGISTERS_def)

lemma decode_encode:
  assumes "encode regs = Some (cnt, e)"
  shows "decode cnt e = Some regs"
proof -
  have "\<exists>q ord'. unat e = unat (0 :: u16) + radix 0 * q \<and> unat e < radix (0 + length regs) \<and>
      decode_loop ENCODE_REGISTERS (of_nat q) (of_nat (8 - 0)) = Some ord' \<and>
      take (0 + length regs) ord' = take 0 ENCODE_REGISTERS @ regs"
    using encode_Some_bound [OF assms] encode_loop_start [OF assms]
    by (intro encode_decode_loop [where scale = 1]) simp_all
  then obtain ord' where "decode_loop ENCODE_REGISTERS e 8 = Some ord'"
    "take (length regs) ord' = regs" by auto
  then show ?thesis using encode_Some_bound [OF assms] by (simp add: decode_def)
qed

text \<open>
  C24: register orderings round-trip. \<open>encode\<close> accepts exactly the sequences of distinct
  callee-saved registers (any other register, or a repetition, is refused), the count it
  returns is the number of registers, and \<open>decode\<close>, which then never divides by zero, gives
  the sequence back.
\<close>

theorem register_ordering_roundtrip:
  "case encode regs of
     None \<Rightarrow> \<not> (distinct regs \<and> set regs \<subseteq> set ENCODE_REGISTERS)
   | Some (cnt, e) \<Rightarrow> distinct regs \<and> set regs \<subseteq> set ENCODE_REGISTERS \<and>
       unat cnt = length regs \<and> decode cnt e = Some regs"
proof (cases "encode regs")
  case None
  have False if "distinct regs" "set regs \<subseteq> set ENCODE_REGISTERS"
  proof -
    from that have "length regs \<le> 8"
      by (metis ENCODE_REGISTERS_distinct List.finite_set card_mono distinct_card)
    with that None encode_loop_total [of regs 0 ENCODE_REGISTERS 0 1] show False
      by (auto simp: encode_def)
  qed
  with None show ?thesis by auto
next
  case (Some p)
  then obtain cnt e where "p = (cnt, e)" "encode regs = Some (cnt, e)" by (cases p) auto
  with decode_encode [of regs cnt e] decode_registers [of cnt e regs] encode_Some_bound [of regs cnt e]
  show ?thesis by auto
qed

end
