(* ===== verification/X86_Rule.thy ===== *)
theory X86_Rule
  imports X86_Regs Unwind_Rule
begin

text \<open>
  The x86_64 unwind rules and their execution (\<^verbatim>\<open>vendor/framehop/src/x86_64/unwind_rule.rs\<close>).
  \<open>exec_x86\<close> returns the result and the registers, because the code mutates the registers
  in place: they are kept on every path but success, except that popped registers are already
  written when a later read of \<open>OffsetSpAndPopRegisters\<close> fails.
\<close>

section \<open>Rules\<close>

datatype UnwindRuleX86_64 =
    EndOfStack
  | JustReturn
  | JustReturnIfFirstFrameOtherwiseFp
  | OffsetSp u16 \<comment> \<open>\<open>sp_offset_by_8\<close>\<close>
  | OffsetSpAndRestoreBp u16 i16 \<comment> \<open>\<open>sp_offset_by_8\<close>, \<open>bp_storage_offset_from_sp_by_8\<close>\<close>
  | UseFramePointer
  | OffsetSpAndPopRegisters u16 u8 u16
      \<comment> \<open>\<open>sp_offset_by_8\<close>, \<open>register_count\<close>, \<open>encoded_registers_to_pop\<close>\<close>

datatype OffsetOrPop = NoOffsetOrPop | OffsetBy8 u16 | Pop Reg

text \<open>
  \<open>for_sequence_of_offset_or_pop\<close>: an optional leading offset, then pops only; the array
  vector holds at most eight registers.
\<close>

fun collect_pops :: "OffsetOrPop list \<Rightarrow> Reg list \<Rightarrow> Reg list option" where
  "collect_pops [] regs = Some regs"
| "collect_pops (Pop reg # ops) regs =
     (if length regs < 8 then collect_pops ops (regs @ [reg]) else None)"
| "collect_pops (_ # ops) regs = None"

definition for_sequence_of_offset_or_pop :: "OffsetOrPop list \<Rightarrow> UnwindRuleX86_64 option" where
  "for_sequence_of_offset_or_pop ops =
     (let (sp_offset_by_8, rest) =
            (case ops of OffsetBy8 off # rest \<Rightarrow> (off, rest) | _ \<Rightarrow> (0, ops))
      in case collect_pops rest [] of
           None \<Rightarrow> None
         | Some regs \<Rightarrow>
             if regs = [] \<and> sp_offset_by_8 = 0 then Some JustReturn
             else map_option (\<lambda>(register_count, encoded).
                    OffsetSpAndPopRegisters sp_offset_by_8 register_count encoded) (encode regs))"

definition rule_for_stub_functions_x86 :: UnwindRuleX86_64 where
  "rule_for_stub_functions_x86 = JustReturn"

definition rule_for_function_start_x86 :: UnwindRuleX86_64 where
  "rule_for_function_start_x86 = JustReturn"

definition fallback_rule_x86 :: UnwindRuleX86_64 where
  "fallback_rule_x86 = UseFramePointer"

section \<open>Execution\<close>

text \<open>The pop loop of \<open>OffsetSpAndPopRegisters\<close>.\<close>

fun pop_registers :: "Reg list \<Rightarrow> u64 \<Rightarrow> UnwindRegsX86_64 \<Rightarrow> read_stack \<Rightarrow>
    (Error + u64) \<times> UnwindRegsX86_64" where
  "pop_registers [] sp regs read = (Inr sp, regs)"
| "pop_registers (reg # rs) sp regs read =
     (case read sp of
        None \<Rightarrow> (Inl (CouldNotReadStack sp), regs)
      | Some v \<Rightarrow>
          (case checked_add sp 8 of
             None \<Rightarrow> (Inl IntegerOverflow, regs)
           | Some sp' \<Rightarrow> pop_registers rs sp' (x86_set reg v regs) read))"

text \<open>
  The match of \<open>exec\<close>: the new stack and frame pointer, \<open>Inr None\<close> where the code returns
  \<open>Ok(None)\<close>. The offset of \<open>bp_location\<close> is \<open>i64::from(off) * 8\<close>, which cannot overflow.
\<close>

definition frame_pointer_step_x86 ::
    "UnwindRegsX86_64 \<Rightarrow> read_stack \<Rightarrow> Error + (u64 \<times> u64) option" where
  "frame_pointer_step_x86 regs read =
     (let sp = x86_sp regs; bp = x86_bp regs in
      bind_res (ok_or IntegerOverflow (checked_add bp 16)) (\<lambda>new_sp.
      if new_sp \<le> sp then Inl FramepointerUnwindingMovedBackwards
      else bind_res (read_or_err read bp) (\<lambda>new_bp. Inr (Some (new_sp, new_bp)))))"

definition offset_sp_x86 :: "u64 \<Rightarrow> u64 \<Rightarrow> u64 \<Rightarrow> Error + (u64 \<times> u64) option" where
  "offset_sp_x86 sp off bp =
     bind_res (ok_or IntegerOverflow (checked_add sp off)) (\<lambda>new_sp. Inr (Some (new_sp, bp)))"

fun rule_frame_x86 :: "UnwindRuleX86_64 \<Rightarrow> bool \<Rightarrow> UnwindRegsX86_64 \<Rightarrow> read_stack \<Rightarrow>
    (Error + (u64 \<times> u64) option) \<times> UnwindRegsX86_64" where
  "rule_frame_x86 EndOfStack is_first_frame regs read = (Inr None, regs)"
| "rule_frame_x86 JustReturn is_first_frame regs read =
     (offset_sp_x86 (x86_sp regs) 8 (x86_bp regs), regs)"
| "rule_frame_x86 JustReturnIfFirstFrameOtherwiseFp is_first_frame regs read =
     ((if is_first_frame then offset_sp_x86 (x86_sp regs) 8 (x86_bp regs)
       else frame_pointer_step_x86 regs read), regs)"
| "rule_frame_x86 (OffsetSp sp_offset_by_8) is_first_frame regs read =
     (offset_sp_x86 (x86_sp regs) (ucast sp_offset_by_8 * 8) (x86_bp regs), regs)"
| "rule_frame_x86 (OffsetSpAndRestoreBp sp_offset_by_8 bp_storage_offset_from_sp_by_8)
     is_first_frame regs read =
     (let sp = x86_sp regs in
      bind_res (ok_or IntegerOverflow (checked_add sp (ucast sp_offset_by_8 * 8))) (\<lambda>new_sp.
      bind_res (ok_or IntegerOverflow
          (checked_add_signed sp (scast bp_storage_offset_from_sp_by_8 * 8))) (\<lambda>bp_location.
      case read bp_location of
        Some new_bp \<Rightarrow> Inr (Some (new_sp, new_bp))
      | None \<Rightarrow>
          if is_first_frame \<and> bp_location < sp then Inr (Some (new_sp, x86_bp regs))
          else Inl (CouldNotReadStack bp_location))), regs)"
| "rule_frame_x86 UseFramePointer is_first_frame regs read =
     ((if x86_bp regs = 0 then Inr None else frame_pointer_step_x86 regs read), regs)"
| "rule_frame_x86 (OffsetSpAndPopRegisters sp_offset_by_8 register_count encoded)
     is_first_frame regs read =
     (case checked_add (x86_sp regs) (ucast sp_offset_by_8 * 8) of
        None \<Rightarrow> (Inl IntegerOverflow, regs)
      | Some sp \<Rightarrow>
          (case decode register_count encoded of
             None \<Rightarrow> (Inl Panicked, regs)
           | Some to_pop \<Rightarrow>
               (case pop_registers to_pop sp regs read of
                  (Inl e, regs') \<Rightarrow> (Inl e, regs')
                | (Inr sp', regs') \<Rightarrow> (offset_sp_x86 sp' 8 (x86_bp regs'), regs'))))"

text \<open>
  \<open>exec\<close>: run the match, then read the return address below the new stack pointer. The
  subtraction \<open>new_sp - 8\<close> is unchecked in the source and wraps.
\<close>

definition finish_x86 :: "u64 \<Rightarrow> u64 \<Rightarrow> u64 \<Rightarrow> UnwindRegsX86_64 \<Rightarrow> read_stack \<Rightarrow>
    (Error + u64 option) \<times> UnwindRegsX86_64" where
  "finish_x86 sp new_sp new_bp regs read =
     (case read (new_sp - 8) of
        None \<Rightarrow> (Inl (CouldNotReadStack (new_sp - 8)), regs)
      | Some return_address \<Rightarrow>
          if return_address = 0 then (Inr None, regs)
          else if new_sp = sp \<and> return_address = x86_ip regs then (Inl DidNotAdvance, regs)
          else (Inr (Some return_address),
                x86_set_bp new_bp (x86_set_sp new_sp (x86_set_ip return_address regs))))"

definition exec_x86 :: "UnwindRuleX86_64 \<Rightarrow> bool \<Rightarrow> UnwindRegsX86_64 \<Rightarrow> read_stack \<Rightarrow>
    (Error + u64 option) \<times> UnwindRegsX86_64" where
  "exec_x86 rule is_first_frame regs read =
     (case rule_frame_x86 rule is_first_frame regs read of
        (Inl e, regs') \<Rightarrow> (Inl e, regs')
      | (Inr None, regs') \<Rightarrow> (Inr None, regs')
      | (Inr (Some (new_sp, new_bp)), regs') \<Rightarrow>
          finish_x86 (x86_sp regs) new_sp new_bp regs' read)"

section \<open>What a successful step did\<close>

lemma pop_registers_sp:
  "pop_registers to_pop sp regs read = (Inr sp', regs') \<Longrightarrow>
     unat sp' = unat sp + 8 * length to_pop \<and> x86_ip regs' = x86_ip regs \<and>
     (RSP \<notin> set to_pop \<longrightarrow> x86_sp regs' = x86_sp regs)"
proof (induction to_pop arbitrary: sp regs)
  case (Cons reg to_pop)
  then show ?case
    by (auto simp: x86_sp_set_other split: option.splits dest!: checked_add_unat Cons.IH)
qed simp

lemma offset_sp_x86_Inr:
  "offset_sp_x86 sp off bp = Inr (Some (new_sp, new_bp)) \<longleftrightarrow>
     checked_add sp off = Some new_sp \<and> new_bp = bp"
  by (auto simp: offset_sp_x86_def bind_res_Inr_iff)

lemma offset_sp_x86_not_None [simp]: "offset_sp_x86 sp off bp \<noteq> Inr None"
  by (simp add: offset_sp_x86_def bind_res_Inr_iff)

lemma frame_pointer_step_x86_Inr:
  "frame_pointer_step_x86 regs read = Inr (Some (new_sp, new_bp)) \<longleftrightarrow>
     checked_add (x86_bp regs) 16 = Some new_sp \<and> x86_sp regs < new_sp \<and>
     read (x86_bp regs) = Some new_bp"
  by (cases "checked_add (x86_bp regs) 16"; cases "read (x86_bp regs)")
    (auto simp: frame_pointer_step_x86_def Let_def read_or_err_def)

lemma rule_frame_x86_ip: "rule_frame_x86 rule f regs read = (r, regs') \<Longrightarrow> x86_ip regs' = x86_ip regs"
proof (cases rule)
  case (OffsetSpAndPopRegisters off cnt enc)
  have "x86_ip (snd (pop_registers to_pop sp regs read)) = x86_ip regs" for to_pop sp regs
    by (induction to_pop arbitrary: sp regs) (auto split: option.splits)
  then have *: "pop_registers to_pop sp regs read = (r', regs'') \<Longrightarrow> x86_ip regs'' = x86_ip regs"
    for to_pop sp r' regs'' by (metis snd_conv)
  assume "rule_frame_x86 rule f regs read = (r, regs')"
  with OffsetSpAndPopRegisters show ?thesis
    by (auto split: option.splits prod.splits sum.splits dest: *)
qed auto

text \<open>The new stack pointer never lies below the old one.\<close>

lemma rule_frame_x86_sp:
  assumes "rule_frame_x86 rule f regs read = (Inr (Some (new_sp, new_bp)), regs')"
  shows "x86_sp regs \<le> new_sp"
proof (cases rule)
  case (OffsetSpAndPopRegisters off cnt enc)
  with assms show ?thesis
    by (auto simp: offset_sp_x86_Inr word_le_nat_alt split: option.splits prod.splits sum.splits
        dest!: checked_add_unat pop_registers_sp)
qed (use assms in \<open>auto simp: offset_sp_x86_Inr frame_pointer_step_x86_Inr bind_res_Inr_iff Let_def
      split: if_splits option.splits intro: checked_add_le\<close>)

lemma exec_x86_Some_iff:
  "exec_x86 rule f regs read = (Inr (Some ra), regs') \<longleftrightarrow>
     (\<exists>new_sp new_bp regs1. rule_frame_x86 rule f regs read = (Inr (Some (new_sp, new_bp)), regs1) \<and>
        read (new_sp - 8) = Some ra \<and> ra \<noteq> 0 \<and>
        \<not> (new_sp = x86_sp regs \<and> ra = x86_ip regs) \<and>
        regs' = x86_set_bp new_bp (x86_set_sp new_sp (x86_set_ip ra regs1)))"
  by (auto simp: exec_x86_def finish_x86_def rule_frame_x86_ip
      split: prod.splits sum.splits option.splits if_splits)

lemma exec_x86_SomeE:
  assumes "exec_x86 rule f regs read = (Inr (Some ra), regs')"
  shows "x86_ip regs' = ra" "ra \<noteq> 0" "read (x86_sp regs' - 8) = Some ra"
    "x86_sp regs \<le> x86_sp regs'" "x86_sp regs' = x86_sp regs \<Longrightarrow> ra \<noteq> x86_ip regs"
  using assms by (auto simp: exec_x86_Some_iff dest: rule_frame_x86_sp)

text \<open>
  The laws of the trait. A step that keeps the stack pointer reads its return address from
  the same word as a second such step would, so the second one is refused as
  \<open>DidNotAdvance\<close>.
\<close>

interpretation x86: unwind_rule exec_x86 x86_sp
proof
  fix rule rule' :: UnwindRuleX86_64 and f regs regs' regs1 regs2 and read :: read_stack and ra ra'
  show "exec_x86 rule f regs read = (Inr (Some ra), regs') \<Longrightarrow> ra \<noteq> 0"
    by (rule exec_x86_SomeE)
  show "exec_x86 rule f regs read = (Inr (Some ra), regs') \<Longrightarrow> x86_sp regs \<le> x86_sp regs'"
    by (rule exec_x86_SomeE)
  assume 1: "exec_x86 rule False regs read = (Inr (Some ra), regs1)"
    and 2: "exec_x86 rule' False regs1 read = (Inr (Some ra'), regs2)"
  show "x86_sp regs < x86_sp regs2"
  proof (rule ccontr)
    assume "\<not> x86_sp regs < x86_sp regs2"
    with exec_x86_SomeE(4) [OF 1] exec_x86_SomeE(4) [OF 2]
    have eq: "x86_sp regs2 = x86_sp regs1" by auto
    then have "ra' = x86_ip regs1"
      using exec_x86_SomeE(1,3) [OF 1] exec_x86_SomeE(3) [OF 2] by simp
    with exec_x86_SomeE(5) [OF 2 eq] show False by simp
  qed
qed

section \<open>Rules that are built never panic\<close>

text \<open>
  A rule is well formed when its register ordering came out of \<open>encode\<close>; the constructor of
  such rules, \<open>for_sequence_of_offset_or_pop\<close>, makes no other.
\<close>

fun rule_wf_x86 :: "UnwindRuleX86_64 \<Rightarrow> bool" where
  "rule_wf_x86 (OffsetSpAndPopRegisters off cnt e) = (decode cnt e \<noteq> None)"
| "rule_wf_x86 _ = True"

lemma pop_registers_not_Panicked: "fst (pop_registers to_pop sp regs read) \<noteq> Inl Panicked"
  by (induction to_pop arbitrary: sp regs) (auto split: option.splits)

lemma for_sequence_wf:
  "for_sequence_of_offset_or_pop ops = Some rule \<Longrightarrow> rule_wf_x86 rule"
  by (auto simp: for_sequence_of_offset_or_pop_def Let_def decode_encode
      split: prod.splits option.splits if_splits list.splits)

lemma collect_pops_eq:
  "length regs \<le> 8 \<Longrightarrow> collect_pops ops regs = Some out \<Longrightarrow>
     (\<exists>rs. ops = map Pop rs \<and> out = regs @ rs \<and> length out \<le> 8)"
proof (induction ops regs rule: collect_pops.induct)
  case (2 reg ops regs)
  then obtain rs where "ops = map Pop rs" "out = (regs @ [reg]) @ rs" "length out \<le> 8"
    by (auto split: if_splits)
  then show ?case by (intro exI [of _ "reg # rs"]) simp
qed (auto intro: exI [of _ "[]"])

lemma pop_registers_keeps_sp:
  "RSP \<notin> set to_pop \<Longrightarrow> x86_sp (snd (pop_registers to_pop sp regs read)) = x86_sp regs"
  by (induction to_pop arbitrary: sp regs) (auto simp: x86_sp_set_other split: option.splits)

lemma rule_frame_x86_keeps_sp:
  "rule_frame_x86 rule f regs read = (r, regs') \<Longrightarrow> x86_sp regs' = x86_sp regs"
proof (cases rule)
  case (OffsetSpAndPopRegisters off cnt enc)
  have *: "decode cnt enc = Some to_pop \<Longrightarrow> pop_registers to_pop sp regs read = (r', regs'') \<Longrightarrow>
      x86_sp regs'' = x86_sp regs" for to_pop sp r' regs''
    using pop_registers_keeps_sp [of to_pop sp regs read] decode_not_RSP [of cnt enc to_pop] by simp
  assume "rule_frame_x86 rule f regs read = (r, regs')"
  with OffsetSpAndPopRegisters show ?thesis
    by (auto split: option.splits prod.splits sum.splits dest: *)
qed auto

lemma rule_frame_x86_not_Panicked:
  "rule_wf_x86 rule \<Longrightarrow> fst (rule_frame_x86 rule f regs read) \<noteq> Inl Panicked"
proof (cases rule)
  case (OffsetSpAndPopRegisters off cnt enc)
  assume "rule_wf_x86 rule"
  moreover have "pop_registers to_pop sp regs read = (Inl e, regs'') \<Longrightarrow> e \<noteq> Panicked"
    for to_pop sp e regs'' using pop_registers_not_Panicked [of to_pop sp regs read] by auto
  ultimately show ?thesis using OffsetSpAndPopRegisters
    by (auto simp: offset_sp_x86_def ok_or_def bind_res_def split: option.splits prod.splits sum.splits)
qed (auto simp: offset_sp_x86_def frame_pointer_step_x86_def ok_or_def bind_res_def read_or_err_def
    Let_def split: option.splits)

section \<open>Properties\<close>

text \<open>
  Every successful step of an x86_64 rule yields a non-null return address that it read
  from the word directly below the new stack pointer and stored as the new instruction
  pointer; the stack pointer never moves down, and a step that leaves it in place moves the
  instruction pointer.
\<close>

theorem exec_x86_success:
  assumes "exec_x86 rule is_first_frame regs read = (Inr (Some ra), regs')"
  shows "ra \<noteq> 0 \<and> x86_ip regs' = ra \<and> read (x86_sp regs' - 8) = Some ra \<and>
    x86_sp regs \<le> x86_sp regs' \<and> (x86_sp regs', x86_ip regs') \<noteq> (x86_sp regs, x86_ip regs)"
  using exec_x86_SomeE [OF assms] by auto

theorem exec_x86_success_witness:
  "let regs = x86_new 0x100400 0x10 0x20; read = (\<lambda>a. if a = 0x10 then Some 0x100300 else None);
       (r, regs') = exec_x86 (OffsetSp 1) True regs read
   in r = Inr (Some 0x100300) \<and> x86_ip regs' = 0x100300 \<and> x86_sp regs' = 0x18"
proof -
  define regs where "regs = x86_new 0x100400 0x10 0x20"
  define read :: read_stack where "read = (\<lambda>a. if a = 0x10 then Some 0x100300 else None)"
  obtain r regs' where e: "exec_x86 (OffsetSp 1) True regs read = (r, regs')" by fastforce
  then have r: "r = Inr (Some 0x100300)" and sp: "x86_sp regs' = 0x18"
    by (auto simp: exec_x86_def offset_sp_x86_def checked_add_def finish_x86_def regs_def read_def)
  from e r exec_x86_success [of "OffsetSp 1" True regs read "0x100300" regs']
  have "x86_ip regs' = 0x100300" by simp
  with r sp e show ?thesis unfolding regs_def read_def by (simp add: Let_def)
qed

text \<open>
  A rule that framehop can build never panics, and when a step does not produce a return
  address (the end of the stack or any error) the instruction and stack pointers are left as
  they were.
\<close>

theorem exec_x86_failure:
  assumes "rule_wf_x86 rule" and "exec_x86 rule is_first_frame regs read = (r, regs')"
    and "\<nexists>ra. r = Inr (Some ra)"
  shows "r \<noteq> Inl Panicked \<and> x86_ip regs' = x86_ip regs \<and> x86_sp regs' = x86_sp regs"
  using assms rule_frame_x86_not_Panicked [of rule is_first_frame regs read]
  by (auto simp: exec_x86_def finish_x86_def split: prod.splits sum.splits option.splits if_splits
      dest: rule_frame_x86_ip rule_frame_x86_keeps_sp)

theorem exec_x86_failure_witness:
  "rule_wf_x86 UseFramePointer \<and>
   x86_sp (snd (exec_x86 UseFramePointer False (x86_new 1 8 (- 1)) (\<lambda>_. None))) = 8"
proof -
  have "exec_x86 UseFramePointer False (x86_new 1 8 (- 1)) (\<lambda>_. None) =
      (Inl IntegerOverflow, x86_new 1 8 (- 1))"
    by (simp add: exec_x86_def frame_pointer_step_x86_def checked_add_def Let_def unat_minus_one_max)
  with exec_x86_failure [of UseFramePointer False "x86_new 1 8 (- 1)" "\<lambda>_. None"]
  show ?thesis by simp
qed

text \<open>
  A list of frame records in memory as the frame-pointer prologue leaves them: at \<open>bp\<close> the
  caller's frame pointer, in the next word the return address, each record above the last.
\<close>

fun frame_records :: "read_stack \<Rightarrow> u64 \<Rightarrow> (u64 \<times> u64) list \<Rightarrow> bool" where
  "frame_records read bp [] = True"
| "frame_records read bp ((caller_bp, ra) # frames) =
     (bp \<noteq> 0 \<and> unat bp + 16 < 2 ^ 64 \<and> read bp = Some caller_bp \<and> read (bp + 8) = Some ra \<and>
      ra \<noteq> 0 \<and> (frames = [] \<or> bp < caller_bp) \<and> frame_records read caller_bp frames)"

lemma exec_x86_use_frame_pointer:
  assumes "x86_bp regs \<noteq> 0" "unat (x86_bp regs) + 16 < 2 ^ 64" "x86_sp regs < x86_bp regs + 16"
    and "read (x86_bp regs) = Some caller_bp" "read (x86_bp regs + 8) = Some ra" "ra \<noteq> 0"
  shows "exec_x86 UseFramePointer f regs read =
    (Inr (Some ra), x86_set_bp caller_bp (x86_set_sp (x86_bp regs + 16) (x86_set_ip ra regs)))"
proof -
  have "read (x86_bp regs + 16 - 8) = Some ra" using assms(5) by (simp add: add.commute)
  with assms(3,6) have "finish_x86 (x86_sp regs) (x86_bp regs + 16) caller_bp regs read =
      (Inr (Some ra), x86_set_bp caller_bp (x86_set_sp (x86_bp regs + 16) (x86_set_ip ra regs)))"
    unfolding finish_x86_def by auto
  moreover have "frame_pointer_step_x86 regs read = Inr (Some (x86_bp regs + 16, caller_bp))"
    using assms(2,3,4) by (simp add: frame_pointer_step_x86_Inr checked_add_def)
  ultimately show ?thesis using assms(1) by (simp add: exec_x86_def)
qed

text \<open>
  Frame-pointer unwinding recovers the whole call chain. When memory holds a list of
  frame records starting at the frame pointer and the stack pointer is below the first
  record's end, executing \<open>UseFramePointer\<close> once per record returns exactly the return
  addresses of the list, in order, and ends in the last caller's frame pointer.
\<close>

theorem frame_pointer_walk_x86:
  assumes "frame_records read (x86_bp regs) frames" "x86_sp regs < x86_bp regs + 16"
  shows "\<exists>regs'. exec_chain exec_x86 (replicate (length frames) UseFramePointer) regs read =
      Some (map snd frames, regs') \<and> x86_bp regs' = last (x86_bp regs # map fst frames)"
  using assms
proof (induction frames arbitrary: regs)
  case (Cons frame frames)
  obtain caller_bp ra where frame: "frame = (caller_bp, ra)" by fastforce
  define regs1 where
    "regs1 = x86_set_bp caller_bp (x86_set_sp (x86_bp regs + 16) (x86_set_ip ra regs))"
  have step: "exec_x86 UseFramePointer False regs read = (Inr (Some ra), regs1)"
    unfolding regs1_def using Cons.prems frame by (intro exec_x86_use_frame_pointer) auto
  show ?case
  proof (cases "frames = []")
    case True
    with step frame show ?thesis by (simp add: regs1_def)
  next
    case False
    with Cons.prems frame have "frame_records read (x86_bp regs1) frames" "x86_bp regs < caller_bp"
      by (auto simp: regs1_def)
    moreover from this False obtain c r fs where "frames = (c, r) # fs" by (cases frames) auto
    ultimately have "unat (x86_bp regs1) + 16 < 2 ^ 64" "x86_bp regs < x86_bp regs1"
      by (auto simp: regs1_def)
    then have "x86_sp regs1 < x86_bp regs1 + 16"
      using Cons.prems frame by (auto simp: regs1_def word_less_nat_alt unat_word_ariths)
    with Cons.IH [of regs1] \<open>frame_records read (x86_bp regs1) frames\<close>
    show ?thesis using step frame False by (auto simp: regs1_def)
  qed
qed simp

definition two_frames :: read_stack where
  "two_frames = (\<lambda>a. if a = 0x20 then Some 0x40 else if a = 0x28 then Some 0x100200
     else if a = 0x40 then Some 0x70 else if a = 0x48 then Some 0x100100 else None)"

theorem frame_pointer_walk_x86_witness:
  "\<exists>regs'. exec_chain exec_x86 [UseFramePointer, UseFramePointer] (x86_new 1 0x18 0x20) two_frames =
      Some ([0x100200, 0x100100], regs') \<and> x86_bp regs' = 0x70"
  using frame_pointer_walk_x86 [of two_frames "x86_new 1 0x18 0x20"
      "[(0x40, 0x100200), (0x70, 0x100100)]"]
  by (simp add: two_frames_def)



end
