(* ===== verification/Pe_Unwind.thy ===== *)
theory Pe_Unwind
  imports X86_Rule A64_Rule Unwinder
begin

text \<open>
  Unwinding with PE unwind information (\<^verbatim>\<open>vendor/framehop/src/pe.rs\<close>, \<^verbatim>\<open>x86_64/pe.rs\<close> and
  \<^verbatim>\<open>aarch64/pe.rs\<close>). The crate \<^verbatim>\<open>pe_unwind_info\<close>, which parses function tables, unwind infos and
  epilogs and resolves unwind operations, is a parameter.
\<close>

section \<open>Sections and errors\<close>

text \<open>
  The source's errors, plus \<open>PePanicked\<close> for a panic (a slice out of range) and \<open>PeDiverges\<close> for a
  call that never returns.
\<close>

datatype PeUnwinderError =
    MissingUnwindInfoData u32
  | MissingInstructionData u32
  | MissingStackData "u64 option"
  | UnwindInfoParseError
  | Aarch64Unsupported
  | PePanicked
  | PeDiverges

record PeSections =
  ps_pdata :: bytes
  ps_rdata :: "rva_data option"
  ps_xdata :: "rva_data option"
  ps_text :: "rva_data option"

text \<open>
  \<open>memory_at_rva\<close>: the outer \<open>None\<close> is the panic of \<open>&data[offset..]\<close>, when the range claims more
  bytes than the data has.
\<close>

definition memory_at_rva :: "rva_data \<Rightarrow> u32 \<Rightarrow> bytes option option" where
  "memory_at_rva = (\<lambda>(data, (start, end)) address.
     if start \<le> address \<and> address < end then
       let offset = unat (address - start) in
       if offset \<le> length data then Some (Some (drop offset data)) else None
     else Some None)"

definition section_memory_at_rva :: "rva_data option \<Rightarrow> u32 \<Rightarrow> bytes option option" where
  "section_memory_at_rva sect rva = (case sect of None \<Rightarrow> Some None | Some m \<Rightarrow> memory_at_rva m rva)"

text \<open>\<open>[rdata, xdata].find_map(..)\<close>: the second section is only looked at when the first has nothing.\<close>

definition unwind_info_memory_at_rva :: "PeSections \<Rightarrow> u32 \<Rightarrow> PeUnwinderError + bytes" where
  "unwind_info_memory_at_rva sections rva =
     (case section_memory_at_rva (ps_rdata sections) rva of
        None \<Rightarrow> Inl PePanicked
      | Some (Some memory) \<Rightarrow> Inr memory
      | Some None \<Rightarrow>
          (case section_memory_at_rva (ps_xdata sections) rva of
             None \<Rightarrow> Inl PePanicked
           | Some memory \<Rightarrow> ok_or (MissingUnwindInfoData rva) memory))"

definition text_memory_at_rva :: "PeSections \<Rightarrow> u32 \<Rightarrow> PeUnwinderError + bytes" where
  "text_memory_at_rva sections rva =
     (case section_memory_at_rva (ps_text sections) rva of
        None \<Rightarrow> Inl PePanicked
      | Some memory \<Rightarrow> ok_or (MissingInstructionData rva) memory)"

section \<open>The crate\<close>

text \<open>
  The types of \<^verbatim>\<open>pe_unwind_info\<close> that the code takes apart. Offsets are unsigned and kept at the
  64 bits the code converts them to; operations other than the two that fit a rule are opaque.
\<close>

datatype Register = PE_RAX | PE_RCX | PE_RDX | PE_RBX | PE_RSP | PE_RBP | PE_RSI | PE_RDI
  | PE_R8 | PE_R9 | PE_R10 | PE_R11 | PE_R12 | PE_R13 | PE_R14 | PE_R15

datatype FunctionEpilogInstruction =
    AddSP u64
  | AddSPFromFP u64
  | EpilogPop Register

datatype 'op UnwindOperation =
    UnStackAlloc u64
  | PopNonVolatile Register
  | OtherOperation 'op

record PeFunction =
  begin_address :: u32
  pe_end_address :: u32
  unwind_info_address :: u32

text \<open>The trait \<open>UnwindState\<close>, through which an operation is resolved.\<close>

record 's UnwindState =
  us_read_register :: "Register \<Rightarrow> 's \<Rightarrow> u64"
  us_read_stack :: "u64 \<Rightarrow> u64 option"
  us_write_register :: "Register \<Rightarrow> u64 \<Rightarrow> 's \<Rightarrow> 's"
  us_write_xmm_register :: "nat \<Rightarrow> nat \<Rightarrow> 's \<Rightarrow> 's"

record ('info, 'op, 's) PeCrate =
  pe_lookup :: "bytes \<Rightarrow> u32 \<Rightarrow> PeFunction option"
    \<comment> \<open>\<open>FunctionTableEntries::parse(pdata).lookup(address)\<close>\<close>
  pe_parse :: "bytes \<Rightarrow> 'info option" \<comment> \<open>\<open>UnwindInfo::parse\<close>\<close>
  pe_frame_register :: "'info \<Rightarrow> Register option"
  pe_chained :: "'info \<Rightarrow> u32 option"
    \<comment> \<open>the \<open>unwind_info_address\<close> of a \<open>ChainedUnwindInfo\<close> trailer\<close>
  pe_operations :: "'info \<Rightarrow> (u8 \<times> 'op UnwindOperation) list"
  pe_parse_epilog :: "bytes \<Rightarrow> Register option \<Rightarrow> FunctionEpilogInstruction list option"
  pe_resolve :: "'info \<Rightarrow> 's UnwindState \<Rightarrow> 'op UnwindOperation \<Rightarrow> 's \<Rightarrow> u64 option option \<times> 's"
    \<comment> \<open>\<open>Some (Some ra)\<close> is \<open>Break(ra)\<close>, \<open>Some None\<close> is \<open>Continue\<close>, \<open>None\<close> a failed read\<close>

section \<open>Registers and operations\<close>

fun convert_pe_register :: "Register \<Rightarrow> Reg" where
  "convert_pe_register PE_RAX = RAX" | "convert_pe_register PE_RCX = RCX"
| "convert_pe_register PE_RDX = RDX" | "convert_pe_register PE_RBX = RBX"
| "convert_pe_register PE_RSP = RSP" | "convert_pe_register PE_RBP = RBP"
| "convert_pe_register PE_RSI = RSI" | "convert_pe_register PE_RDI = RDI"
| "convert_pe_register PE_R8 = R8" | "convert_pe_register PE_R9 = R9"
| "convert_pe_register PE_R10 = R10" | "convert_pe_register PE_R11 = R11"
| "convert_pe_register PE_R12 = R12" | "convert_pe_register PE_R13 = R13"
| "convert_pe_register PE_R14 = R14" | "convert_pe_register PE_R15 = R15"

definition pe_state :: "read_stack \<Rightarrow> UnwindRegsX86_64 UnwindState" where
  "pe_state read =
     \<lparr>us_read_register = (\<lambda>register regs. x86_get regs (convert_pe_register register)),
      us_read_stack = read,
      us_write_register = (\<lambda>register value regs. x86_set (convert_pe_register register) value regs),
      us_write_xmm_register = (\<lambda>_ _ regs. regs)\<rparr>"

definition offset_by_8_or_none :: "u64 \<Rightarrow> OffsetOrPop" where
  "offset_by_8_or_none offset =
     (case try_unsigned (uint (offset div 8)) of Some v \<Rightarrow> OffsetBy8 v | None \<Rightarrow> NoOffsetOrPop)"

fun offset_or_pop_of_epilog :: "FunctionEpilogInstruction \<Rightarrow> OffsetOrPop" where
  "offset_or_pop_of_epilog (AddSP offset) = offset_by_8_or_none offset"
| "offset_or_pop_of_epilog (EpilogPop reg) = Pop (convert_pe_register reg)"
| "offset_or_pop_of_epilog (AddSPFromFP offset) = NoOffsetOrPop"

fun offset_or_pop_of_operation :: "'op UnwindOperation \<Rightarrow> OffsetOrPop" where
  "offset_or_pop_of_operation (UnStackAlloc offset) = offset_by_8_or_none offset"
| "offset_or_pop_of_operation (PopNonVolatile reg) = Pop (convert_pe_register reg)"
| "offset_or_pop_of_operation (OtherOperation op) = NoOffsetOrPop"

section \<open>Unwinding\<close>

text \<open>\<open>read_stack_err\<close>, then \<open>rsp + 8\<close>: how both paths end.\<close>

definition pop_return_address :: "read_stack \<Rightarrow> UnwindRegsX86_64 \<Rightarrow>
    (PeUnwinderError + UnwindRuleX86_64 UnwindResult) \<times> UnwindRegsX86_64" where
  "pop_return_address read regs =
     (let rsp = x86_get regs RSP in
      case read rsp of
        None \<Rightarrow> (Inl (MissingStackData (Some rsp)), regs)
      | Some ra \<Rightarrow> (Inr (Uncacheable ra), x86_set RSP (rsp + 8) regs))"

text \<open>The loop over the remaining epilog instructions; registers are written as it goes.\<close>

fun epilog_steps :: "Register option \<Rightarrow> read_stack \<Rightarrow> FunctionEpilogInstruction list \<Rightarrow>
    UnwindRegsX86_64 \<Rightarrow> (PeUnwinderError + unit) \<times> UnwindRegsX86_64" where
  "epilog_steps fp read [] regs = (Inr (), regs)"
| "epilog_steps fp read (AddSP offset # instrs) regs =
     epilog_steps fp read instrs (x86_set RSP (x86_get regs RSP + offset) regs)"
| "epilog_steps fp read (AddSPFromFP offset # instrs) regs =
     (case fp of
        None \<Rightarrow> (Inl PePanicked, regs)
      | Some r \<Rightarrow> epilog_steps fp read instrs
          (x86_set RSP (x86_get regs (convert_pe_register r) + offset) regs))"
| "epilog_steps fp read (EpilogPop reg # instrs) regs =
     (let rsp = x86_get regs RSP in
      case read rsp of
        None \<Rightarrow> (Inl (MissingStackData (Some rsp)), regs)
      | Some val \<Rightarrow> epilog_steps fp read instrs
          (x86_set RSP (rsp + 8) (x86_set (convert_pe_register reg) val regs)))"

definition unwind_info_at :: "('info, 'op, 's) PeCrate \<Rightarrow> PeSections \<Rightarrow> u32 \<Rightarrow> PeUnwinderError + 'info" where
  "unwind_info_at crate sections address =
     bind_res (unwind_info_memory_at_rva sections address) (\<lambda>data.
       ok_or UnwindInfoParseError (pe_parse crate data))"

text \<open>
  \<open>core::iter::successors(..).collect::<Result<Vec<_>, _>>()\<close>: all chained unwind infos, the first
  error, or, when the chain never ends, no result.
\<close>

partial_function (option) chained_infos :: "('info, 'op, 's) PeCrate \<Rightarrow> PeSections \<Rightarrow> 'info \<Rightarrow>
    (PeUnwinderError + 'info list) option" where
  "chained_infos crate sections info =
     (case pe_chained crate info of
        None \<Rightarrow> Some (Inr [info])
      | Some address \<Rightarrow>
          (case unwind_info_at crate sections address of
             Inl e \<Rightarrow> Some (Inl e)
           | Inr info' \<Rightarrow>
               Option.bind (chained_infos crate sections info') (\<lambda>r.
                 Some (map_sum id (Cons info) r))))"

text \<open>\<open>flat_map\<close> over the enumerated infos: only the first one's operations are cut.\<close>

fun collect_operations :: "('info, 'op, 's) PeCrate \<Rightarrow> u32 \<Rightarrow> 'info list \<Rightarrow> 'op UnwindOperation list" where
  "collect_operations crate offset [] = []"
| "collect_operations crate offset (info # infos) =
     map snd (dropWhile (\<lambda>(o8, _). (ucast o8 :: u32) > offset) (pe_operations crate info)) @
     concat (map (\<lambda>i. map snd (pe_operations crate i)) infos)"

fun resolve_operations :: "('info, 'op, UnwindRegsX86_64) PeCrate \<Rightarrow> 'info \<Rightarrow> read_stack \<Rightarrow>
    'op UnwindOperation list \<Rightarrow> UnwindRegsX86_64 \<Rightarrow>
    (PeUnwinderError + UnwindRuleX86_64 UnwindResult) \<times> UnwindRegsX86_64" where
  "resolve_operations crate info read [] regs = pop_return_address read regs"
| "resolve_operations crate info read (op # ops) regs =
     (case pe_resolve crate info (pe_state read) op regs of
        (None, regs') \<Rightarrow> (Inl (MissingStackData None), regs')
      | (Some (Some ra), regs') \<Rightarrow> (Inr (Uncacheable ra), regs')
      | (Some None, regs') \<Rightarrow> resolve_operations crate info read ops regs')"

text \<open>The part for the first frame: a panic, an error, a parsed epilog, or none.\<close>

definition epilog_at :: "('info, 'op, 's) PeCrate \<Rightarrow> PeSections \<Rightarrow> PeFunction \<Rightarrow> 'info \<Rightarrow> u32 \<Rightarrow>
    PeUnwinderError + FunctionEpilogInstruction list option" where
  "epilog_at crate sections function unwind_info address =
     bind_res (text_memory_at_rva sections address) (\<lambda>memory.
       let bs = unat (pe_end_address function - address) in
       if bs \<le> length memory
       then Inr (pe_parse_epilog crate (take bs memory) (pe_frame_register crate unwind_info))
       else Inl PePanicked)"

definition unwind_epilog :: "Register option \<Rightarrow> read_stack \<Rightarrow> FunctionEpilogInstruction list \<Rightarrow>
    UnwindRegsX86_64 \<Rightarrow> (PeUnwinderError + UnwindRuleX86_64 UnwindResult) \<times> UnwindRegsX86_64" where
  "unwind_epilog fp read instrs regs =
     (case for_sequence_of_offset_or_pop (map offset_or_pop_of_epilog instrs) of
        Some rule \<Rightarrow> (Inr (ExecRule rule), regs)
      | None \<Rightarrow>
          (case epilog_steps fp read instrs regs of
             (Inl e, regs') \<Rightarrow> (Inl e, regs')
           | (Inr _, regs') \<Rightarrow> pop_return_address read regs'))"

definition unwind_body :: "('info, 'op, UnwindRegsX86_64) PeCrate \<Rightarrow> PeSections \<Rightarrow> 'info \<Rightarrow> u32 \<Rightarrow>
    read_stack \<Rightarrow> UnwindRegsX86_64 \<Rightarrow>
    ((PeUnwinderError + UnwindRuleX86_64 UnwindResult) \<times> UnwindRegsX86_64) option" where
  "unwind_body crate sections unwind_info offset read regs =
     Option.bind (chained_infos crate sections unwind_info) (\<lambda>infos. Some
       (case infos of
          Inl e \<Rightarrow> (Inl e, regs)
        | Inr chained_info \<Rightarrow>
            let operations = collect_operations crate offset chained_info in
            case for_sequence_of_offset_or_pop (map offset_or_pop_of_operation operations) of
              Some rule \<Rightarrow> (Inr (ExecRule rule), regs)
            | None \<Rightarrow> resolve_operations crate unwind_info read operations regs))"

definition pe_unwind_frame_x86 :: "('info, 'op, UnwindRegsX86_64) PeCrate \<Rightarrow> PeSections \<Rightarrow> u32 \<Rightarrow>
    UnwindRegsX86_64 \<Rightarrow> bool \<Rightarrow> read_stack \<Rightarrow>
    ((PeUnwinderError + UnwindRuleX86_64 UnwindResult) \<times> UnwindRegsX86_64) option" where
  "pe_unwind_frame_x86 crate sections address regs is_first_frame read =
     (case pe_lookup crate (ps_pdata sections) address of
        None \<Rightarrow> Some (Inr (ExecRule JustReturn), regs)
      | Some function \<Rightarrow>
          (case unwind_info_at crate sections (unwind_info_address function) of
             Inl e \<Rightarrow> Some (Inl e, regs)
           | Inr unwind_info \<Rightarrow>
               let body = unwind_body crate sections unwind_info (address - begin_address function) read regs in
               if \<not> is_first_frame then body
               else
                 case epilog_at crate sections function unwind_info address of
                   Inl e \<Rightarrow> Some (Inl e, regs)
                 | Inr None \<Rightarrow> body
                 | Inr (Some instrs) \<Rightarrow>
                     Some (unwind_epilog (pe_frame_register crate unwind_info) read instrs regs)))"

definition pe_unwind_frame_a64 :: "PeSections \<Rightarrow> u32 \<Rightarrow> UnwindRegsAarch64 \<Rightarrow> bool \<Rightarrow> read_stack \<Rightarrow>
    (PeUnwinderError + UnwindRuleAarch64 UnwindResult) \<times> UnwindRegsAarch64" where
  "pe_unwind_frame_a64 sections address regs is_first_frame read = (Inl Aarch64Unsupported, regs)"

section \<open>Cached rules and simulation agree\<close>

text \<open>
  What both kinds of sequences do when they consist of stack adjustments and pops: a reference
  for the epilog loop and for the resolution of such operations.
\<close>

datatype undo_op = Alloc u64 | Restore Reg

fun undo :: "read_stack \<Rightarrow> undo_op list \<Rightarrow> UnwindRegsX86_64 \<Rightarrow> UnwindRegsX86_64 option" where
  "undo read [] regs = Some regs"
| "undo read (Alloc n # ops) regs = undo read ops (x86_set_sp (x86_sp regs + n) regs)"
| "undo read (Restore reg # ops) regs =
     (case read (x86_sp regs) of
        None \<Rightarrow> None
      | Some v \<Rightarrow> undo read ops (x86_set_sp (x86_sp regs + 8) (x86_set reg v regs)))"

fun offset_or_pop_of_undo :: "undo_op \<Rightarrow> OffsetOrPop" where
  "offset_or_pop_of_undo (Alloc n) = offset_by_8_or_none n"
| "offset_or_pop_of_undo (Restore reg) = Pop reg"

fun undo_bytes :: "undo_op \<Rightarrow> nat" where
  "undo_bytes (Alloc n) = unat n"
| "undo_bytes (Restore reg) = 8"

lemma x86_set_set_sp:
  "reg \<noteq> RSP \<Longrightarrow> x86_set reg v (x86_set_sp sp regs) = x86_set_sp sp (x86_set reg v regs)"
  "x86_set_sp a (x86_set_sp b regs) = x86_set_sp a regs"
  by (simp_all add: x86_set_sp_def x86_set_def fun_upd_twist)

lemma x86_set_sp_same: "x86_set_sp (x86_sp regs) regs = regs"
  by (simp add: x86_set_sp_def x86_sp_def x86_set_def x86_get_def)

lemma x86_set_sp_ip: "x86_set_ip ip (x86_set_sp sp regs) = x86_set_sp sp (x86_set_ip ip regs)"
  by (simp add: x86_set_sp_def x86_set_def x86_set_ip_def)

lemma x86_set_bp_same: "x86_set_bp (x86_bp regs) regs = regs"
  by (simp add: x86_set_bp_def x86_bp_def x86_set_def x86_get_def)

lemma x86_set_bp_same_sp: "x86_set_bp (x86_bp regs) (x86_set_sp sp (x86_set_ip ip regs)) = x86_set_sp sp (x86_set_ip ip regs)"
  using x86_set_bp_same [of "x86_set_sp sp (x86_set_ip ip regs)"] by simp

lemma undo_restores:
  assumes "undo read (map Restore rs) (x86_set_sp sp regs) = Some regs'" "RSP \<notin> set rs"
    "unat sp + 8 * length rs < 2 ^ 64"
  shows "\<exists>sp' regs1. pop_registers rs sp regs read = (Inr sp', regs1) \<and> regs' = x86_set_sp sp' regs1"
  using assms
proof (induction rs arbitrary: sp regs)
  case (Cons reg rs)
  then obtain v where v: "read sp = Some v"
      "undo read (map Restore rs) (x86_set_sp (sp + 8) (x86_set reg v regs)) = Some regs'"
    by (auto simp: x86_set_set_sp split: option.splits)
  have "checked_add sp 8 = Some (sp + 8)" "unat (sp + 8) = unat sp + 8"
    using Cons.prems(3) checked_add_of_nat [of sp 8] by simp_all
  with Cons.IH [OF v(2)] Cons.prems(2,3) v(1) show ?case by simp
qed auto

lemma undo_pops_eq: "map offset_or_pop_of_undo ops = map Pop rs \<Longrightarrow> ops = map Restore rs"
proof (induction ops arbitrary: rs)
  case (Cons op ops)
  then show ?case
    by (cases op) (auto simp: map_eq_Cons_conv Cons_eq_map_conv offset_by_8_or_none_def split: option.splits)
qed simp

lemma for_sequence_undo:
  assumes "for_sequence_of_offset_or_pop (map offset_or_pop_of_undo ops) = Some rule"
  obtains off rs where
    "rule = JustReturn \<and> off = 0 \<and> rs = [] \<or>
     (\<exists>cnt e. rule = OffsetSpAndPopRegisters off cnt e \<and> decode cnt e = Some rs)"
    "ops = map Restore rs \<and> off = 0 \<or>
     (\<exists>n. ops = Alloc n # map Restore rs \<and> try_unsigned (uint (n div 8)) = Some off)"
proof -
  define xs where "xs = map offset_or_pop_of_undo ops"
  obtain off rest where split: "(off, rest) = (case xs of OffsetBy8 off # rest \<Rightarrow> (off, rest) | _ \<Rightarrow> (0, xs))"
    by (metis surj_pair)
  from assms split obtain rs where rs: "collect_pops rest [] = Some rs"
    and rule: "(if rs = [] \<and> off = 0 then Some JustReturn
      else map_option (\<lambda>(register_count, encoded).
        OffsetSpAndPopRegisters off register_count encoded) (encode rs)) = Some rule"
    unfolding for_sequence_of_offset_or_pop_def xs_def [symmetric]
    by (auto simp: Let_def split: prod.splits option.splits)
  from collect_pops_eq [OF _ rs] have pops: "rest = map Pop rs" by auto
  have "rule = JustReturn \<and> off = 0 \<and> rs = [] \<or>
     (\<exists>cnt e. rule = OffsetSpAndPopRegisters off cnt e \<and> decode cnt e = Some rs)"
    using rule by (auto simp: decode_encode split: if_splits)
  moreover have "ops = map Restore rs \<and> off = 0 \<or>
     (\<exists>n. ops = Alloc n # map Restore rs \<and> try_unsigned (uint (n div 8)) = Some off)"
  proof (cases "\<exists>o' r'. xs = OffsetBy8 o' # r'")
    case True
    with split obtain op ops' where ops: "ops = op # ops'" "offset_or_pop_of_undo op = OffsetBy8 off"
        "map offset_or_pop_of_undo ops' = rest"
      by (auto simp: xs_def map_eq_Cons_conv Cons_eq_map_conv)
    then obtain n where "op = Alloc n" "try_unsigned (uint (n div 8)) = Some off"
      by (cases op) (auto simp: offset_by_8_or_none_def split: option.splits)
    with ops pops undo_pops_eq [of ops' rs] show ?thesis by auto
  next
    case False
    with split have "off = 0" "rest = xs" by (auto split: list.splits OffsetOrPop.splits)
    with pops undo_pops_eq [of ops rs] show ?thesis by (auto simp: xs_def)
  qed
  ultimately show ?thesis by (rule that)
qed

lemma undo_rule:
  assumes seq: "for_sequence_of_offset_or_pop (map offset_or_pop_of_undo ops) = Some rule"
    and undo: "undo read ops regs = Some regs'" and ra: "read (x86_sp regs') = Some ra" "ra \<noteq> 0"
    and room: "unat (x86_sp regs) + sum_list (map undo_bytes ops) + 8 < 2 ^ 64"
    and aligned: "\<And>n. Alloc n \<in> set ops \<Longrightarrow> 8 dvd unat n"
  shows "exec_x86 rule f regs read =
    (Inr (Some ra), x86_set_ip ra (x86_set_sp (x86_sp regs' + 8) regs'))"
proof -
  obtain off rs where rule: "rule = JustReturn \<and> off = 0 \<and> rs = [] \<or>
       (\<exists>cnt e. rule = OffsetSpAndPopRegisters off cnt e \<and> decode cnt e = Some rs)"
    and ops: "ops = map Restore rs \<and> off = 0 \<or>
       (\<exists>n. ops = Alloc n # map Restore rs \<and> try_unsigned (uint (n div 8)) = Some off)"
    by (rule for_sequence_undo [OF seq])
  define n :: u64 where "n = ucast off * 8"
  have bytes: "sum_list (map undo_bytes (map Restore rs)) = 8 * length rs" by (induction rs) simp_all
  have n: "unat n + 8 * length rs = sum_list (map undo_bytes ops) \<and>
      undo read (map Restore rs) (x86_set_sp (x86_sp regs + n) regs) = Some regs'"
    using ops
  proof (elim disjE exE conjE)
    assume "ops = map Restore rs" "off = 0"
    with bytes undo show ?thesis by (simp add: n_def x86_set_sp_same)
  next
    fix m assume m: "ops = Alloc m # map Restore rs" "try_unsigned (uint (m div 8)) = Some off"
    have "m mod 8 = 0"
      using aligned [of m] m(1) by (simp add: unat_mod flip: unat_eq_zero)
    with word_mod_div_equality [of m 8] have "m div 8 * 8 = m" by simp
    with try_unsigned_ucast [OF m(2)] have "n = m" by (simp add: n_def)
    with bytes undo m(1) show ?thesis by simp
  qed
  have "RSP \<notin> set rs" using rule decode_not_RSP by auto
  moreover have add: "checked_add (x86_sp regs) n = Some (x86_sp regs + n)"
      "unat (x86_sp regs + n) = unat (x86_sp regs) + unat n"
    using n room by (simp_all add: checked_add_def unat_add_no_overflow)
  ultimately obtain sp' regs1 where pop: "pop_registers rs (x86_sp regs + n) regs read = (Inr sp', regs1)"
      "regs' = x86_set_sp sp' regs1"
    using undo_restores [of read rs "x86_sp regs + n" regs regs'] n room by auto
  from pop_registers_sp [OF pop(1)] add(2) n
  have sp': "unat sp' = unat (x86_sp regs) + sum_list (map undo_bytes ops)" by simp
  have "offset_sp_x86 sp' 8 (x86_bp regs1) = Inr (Some (sp' + 8, x86_bp regs1))"
    using checked_add_of_nat(1) [of sp' 8] sp' room by (simp add: offset_sp_x86_def)
  then have "rule_frame_x86 rule f regs read = (Inr (Some (sp' + 8, x86_bp regs1)), regs1)"
    using rule add(1) pop(1) by (auto simp: n_def)
  moreover have "sp' + 8 \<noteq> x86_sp regs"
    using checked_add_of_nat(2) [of sp' 8] sp' room by auto
  ultimately show ?thesis
    using ra pop(2) by (auto simp: exec_x86_Some_iff x86_set_sp_ip x86_set_set_sp x86_set_bp_same_sp)
qed

lemma collect_pops_no_none: "collect_pops xs rs = Some out \<Longrightarrow> NoOffsetOrPop \<notin> set xs"
  by (induction xs rs rule: collect_pops.induct) (auto split: if_splits)

lemma for_sequence_no_none:
  "for_sequence_of_offset_or_pop xs = Some rule \<Longrightarrow> NoOffsetOrPop \<notin> set xs"
  by (auto simp: for_sequence_of_offset_or_pop_def Let_def dest!: collect_pops_no_none
      split: prod.splits option.splits list.splits OffsetOrPop.splits)

fun undo_of_epilog :: "FunctionEpilogInstruction \<Rightarrow> undo_op" where
  "undo_of_epilog (AddSP offset) = Alloc offset"
| "undo_of_epilog (EpilogPop reg) = Restore (convert_pe_register reg)"
| "undo_of_epilog (AddSPFromFP offset) = Alloc 0"

fun undo_of_operation :: "'op UnwindOperation \<Rightarrow> undo_op" where
  "undo_of_operation (UnStackAlloc offset) = Alloc offset"
| "undo_of_operation (PopNonVolatile reg) = Restore (convert_pe_register reg)"
| "undo_of_operation (OtherOperation op) = Alloc 0"

lemma epilog_undo_map:
  "NoOffsetOrPop \<notin> set (map offset_or_pop_of_epilog instrs) \<Longrightarrow>
     map offset_or_pop_of_epilog instrs = map offset_or_pop_of_undo (map undo_of_epilog instrs)"
proof -
  assume *: "NoOffsetOrPop \<notin> set (map offset_or_pop_of_epilog instrs)"
  have "offset_or_pop_of_epilog i \<noteq> NoOffsetOrPop \<Longrightarrow> offset_or_pop_of_epilog i = offset_or_pop_of_undo (undo_of_epilog i)" for i
    by (cases i) simp_all
  with * show ?thesis unfolding map_map by (intro map_cong refl) force
qed

lemma operation_undo_map:
  "NoOffsetOrPop \<notin> set (map offset_or_pop_of_operation ops) \<Longrightarrow>
     map offset_or_pop_of_operation ops = map offset_or_pop_of_undo (map undo_of_operation ops)"
proof -
  assume *: "NoOffsetOrPop \<notin> set (map offset_or_pop_of_operation ops)"
  have "offset_or_pop_of_operation i \<noteq> NoOffsetOrPop \<Longrightarrow> offset_or_pop_of_operation i = offset_or_pop_of_undo (undo_of_operation i)" for i
    by (cases i) simp_all
  with * show ?thesis unfolding map_map by (intro map_cong refl) force
qed

lemma epilog_steps_undo:
  assumes "NoOffsetOrPop \<notin> set (map offset_or_pop_of_epilog instrs)"
    "epilog_steps fp read instrs regs = (Inr (), regs')"
  shows "undo read (map undo_of_epilog instrs) regs = Some regs'"
  using assms
  by (induction fp read instrs regs rule: epilog_steps.induct)
    (auto simp: x86_sp_def x86_set_sp_def Let_def split: option.splits)

text \<open>What the crate documents of resolving the two operations that fit a rule.\<close>

definition resolves_stack_operations :: "('info, 'op, 's) PeCrate \<Rightarrow> bool" where
  "resolves_stack_operations crate \<longleftrightarrow>
     (\<forall>info st s. (\<forall>n. pe_resolve crate info st (UnStackAlloc n) s =
          (Some None, us_write_register st PE_RSP (us_read_register st PE_RSP s + n) s)) \<and>
        (\<forall>reg. pe_resolve crate info st (PopNonVolatile reg) s =
          (case us_read_stack st (us_read_register st PE_RSP s) of
             None \<Rightarrow> (None, s)
           | Some v \<Rightarrow> (Some None, us_write_register st PE_RSP (us_read_register st PE_RSP s + 8)
               (us_write_register st reg v s)))))"

lemma resolve_operations_undo:
  assumes "resolves_stack_operations crate" "NoOffsetOrPop \<notin> set (map offset_or_pop_of_operation ops)"
    "resolve_operations crate info read ops regs = (Inr (Uncacheable ra), regs')"
  shows "\<exists>regs1. undo read (map undo_of_operation ops) regs = Some regs1 \<and>
    pop_return_address read regs1 = (Inr (Uncacheable ra), regs')"
  using assms(2,3)
proof (induction ops arbitrary: regs)
  case (Cons op ops)
  then show ?case using assms(1)
    by (cases op) (auto simp: resolves_stack_operations_def pe_state_def x86_sp_def x86_set_sp_def
        split: option.splits)
qed simp

section \<open>Properties\<close>

lemma pop_return_address_Inr:
  "pop_return_address read regs = (Inr (Uncacheable ra), regs') \<longleftrightarrow>
     read (x86_sp regs) = Some ra \<and> regs' = x86_set_sp (x86_sp regs + 8) regs"
  by (auto simp: pop_return_address_def x86_sp_def x86_set_sp_def Let_def split: option.splits)

text \<open>
  C21: caching an epilog does not change its meaning. When the remaining instructions of an
  epilog are turned into a rule, and simulating them one by one would return an address, then
  executing the rule returns the same address and leaves every register as the simulation
  does, besides recording the address as the instruction pointer. The stack adjustment must be a
  multiple of eight, as a rule counts words, and the stack must not wrap around.
\<close>

theorem epilog_rule_agrees:
  assumes "unwind_epilog fp read instrs regs = (Inr (ExecRule rule), r0)"
    and "epilog_steps fp read instrs regs = (Inr (), regs1)"
      "pop_return_address read regs1 = (Inr (Uncacheable ra), regs')" "ra \<noteq> 0"
    and "unat (x86_sp regs) + sum_list (map undo_bytes (map undo_of_epilog instrs)) + 8 < 2 ^ 64"
      "\<forall>n. AddSP n \<in> set instrs \<longrightarrow> 8 dvd unat n"
  shows "exec_x86 rule True regs read = (Inr (Some ra), x86_set_ip ra regs')"
proof -
  have seq: "for_sequence_of_offset_or_pop (map offset_or_pop_of_epilog instrs) = Some rule"
    using assms(1) by (auto simp: unwind_epilog_def pop_return_address_def Let_def
        split: option.splits sum.splits prod.splits)
  note none = for_sequence_no_none [OF seq]
  have "Alloc n = undo_of_epilog i \<longleftrightarrow> i = AddSP n \<or> n = 0 \<and> (\<exists>off. i = AddSPFromFP off)" for n i
    by (cases i) auto
  with assms(6) have "8 dvd unat n" if "Alloc n \<in> set (map undo_of_epilog instrs)" for n
    using that by auto
  with undo_rule [OF seq [unfolded epilog_undo_map [OF none]] epilog_steps_undo [OF none assms(2)], of ra True]
    assms(3-5)
  show ?thesis by (auto simp: pop_return_address_Inr)
qed

definition pe_stack :: read_stack where
  "pe_stack = [0x120 \<mapsto> 0x200, 0x128 \<mapsto> 0x401000]"

theorem epilog_rule_agrees_witness:
  "\<exists>rule. unwind_epilog None pe_stack [AddSP 0x20, EpilogPop PE_RBP] (x86_new 1 0x100 2) =
      (Inr (ExecRule rule), x86_new 1 0x100 2) \<and>
    exec_x86 rule True (x86_new 1 0x100 2) pe_stack = (Inr (Some 0x401000),
      x86_set_ip 0x401000 (x86_set_sp 0x130 (x86_set RSP 0x128 (x86_set RBP 0x200 (x86_set RSP 0x120 (x86_new 1 0x100 2))))))"
proof -
  define regs1 where "regs1 = x86_set RSP 0x128 (x86_set RBP 0x200 (x86_set RSP 0x120 (x86_new 1 0x100 2)))"
  have sp: "x86_get (x86_new 1 0x100 2) RSP = 0x100" by (metis x86_new_simps(2) x86_sp_def)
  have steps: "epilog_steps None pe_stack [AddSP 0x20, EpilogPop PE_RBP] (x86_new 1 0x100 2) = (Inr (), regs1)"
    by (simp add: regs1_def sp pe_stack_def Let_def)
  have sp1: "x86_sp regs1 = 0x128" by (simp add: regs1_def x86_sp_def)
  have ret: "pop_return_address pe_stack regs1 = (Inr (Uncacheable 0x401000), x86_set_sp 0x130 regs1)"
    by (simp add: pop_return_address_Inr sp1) (simp add: pe_stack_def)
  have "encode [RBP] \<noteq> None" by (simp add: encode_def ENCODE_REGISTERS_def)
  then obtain rule where "unwind_epilog None pe_stack [AddSP 0x20, EpilogPop PE_RBP] (x86_new 1 0x100 2) =
      (Inr (ExecRule rule), x86_new 1 0x100 2)"
    by (auto simp: unwind_epilog_def for_sequence_of_offset_or_pop_def offset_by_8_or_none_def
        try_unsigned_def Let_def split: option.splits)
  moreover from epilog_rule_agrees [OF this steps ret]
  have "exec_x86 rule True (x86_new 1 0x100 2) pe_stack = (Inr (Some 0x401000), x86_set_ip 0x401000 (x86_set_sp 0x130 regs1))"
    by simp
  ultimately show ?thesis unfolding regs1_def by blast
qed

text \<open>
  C22: the same for the body of a function: when the operations to undo form a rule, executing
  it agrees with resolving them one by one, for a crate that resolves stack allocations and
  register pops as documented.
\<close>

theorem operations_rule_agrees:
  assumes "resolves_stack_operations crate"
    and "for_sequence_of_offset_or_pop (map offset_or_pop_of_operation ops) = Some rule"
    and "resolve_operations crate info read ops regs = (Inr (Uncacheable ra), regs')" "ra \<noteq> 0"
    and "unat (x86_sp regs) + sum_list (map undo_bytes (map undo_of_operation ops)) + 8 < 2 ^ 64"
      "\<forall>n. UnStackAlloc n \<in> set ops \<longrightarrow> 8 dvd unat n"
  shows "exec_x86 rule is_first_frame regs read = (Inr (Some ra), x86_set_ip ra regs')"
proof -
  note none = for_sequence_no_none [OF assms(2)]
  obtain regs1 where regs1: "undo read (map undo_of_operation ops) regs = Some regs1"
      "pop_return_address read regs1 = (Inr (Uncacheable ra), regs')"
    using resolve_operations_undo [OF assms(1) none assms(3)] by blast
  have "Alloc n = undo_of_operation op \<longleftrightarrow> op = UnStackAlloc n \<or> n = 0 \<and> (\<exists>x. op = OtherOperation x)"
    for n and op :: "'b UnwindOperation" by (cases op) auto
  with assms(6) have "8 dvd unat n" if "Alloc n \<in> set (map undo_of_operation ops)" for n
    using that by auto
  with undo_rule [OF assms(2) [unfolded operation_undo_map [OF none]] regs1(1), of ra is_first_frame]
    regs1(2) assms(4,5)
  show ?thesis by (auto simp: pop_return_address_Inr)
qed

text \<open>The operations that are undone: those the prologue has executed, whose offset the address has reached.\<close>

lemma collect_operations_reached:
  fixes crate :: "('info, 'op, 's) PeCrate"
  assumes "sorted_wrt (\<lambda>a b. fst a \<ge> fst b) (pe_operations crate info)"
  shows "collect_operations crate offset [info] =
    map snd (filter (\<lambda>(o8, _). (ucast o8 :: u32) \<le> offset) (pe_operations crate info))"
  using assms
proof -
  have "dropWhile (\<lambda>(o8, _). (ucast o8 :: u32) > offset) xs = filter (\<lambda>(o8, _). (ucast o8 :: u32) \<le> offset) xs"
    if "sorted_wrt (\<lambda>a b. fst a \<ge> fst b) xs" for xs :: "(u8 \<times> 'op UnwindOperation) list"
    using that
  proof (induction xs)
    case (Cons x xs)
    have mono: "(ucast a :: u32) \<le> ucast b" if "a \<le> b" for a b :: u8
      using that by (simp add: word_le_nat_alt unat_ucast_up)
    obtain o8 op where x: "x = (o8, op)" by fastforce
    show ?case
    proof (cases "(ucast o8 :: u32) \<le> offset")
      case True
      with Cons.prems x mono have "\<forall>(p8, q) \<in> set xs. (ucast p8 :: u32) \<le> offset"
        by (fastforce intro: order.trans)
      with True x show ?thesis by (auto simp: not_less filter_id_conv)
    next
      case False
      with Cons x show ?thesis by (simp add: not_le)
    qed
  qed simp
  with assms show ?thesis by simp
qed

definition pop_crate :: "(unit, unit, UnwindRegsX86_64) PeCrate" where
  "pop_crate =
     \<lparr>pe_lookup = (\<lambda>_ address.
        if 0x1000 \<le> address \<and> address < 0x1010 then Some \<lparr>begin_address = 0x1000, pe_end_address = 0x1010, unwind_info_address = 0x2000\<rparr>
        else None),
      pe_parse = (\<lambda>_. Some ()), pe_frame_register = (\<lambda>_. None), pe_chained = (\<lambda>_. None),
      pe_operations = (\<lambda>_. [(5, UnStackAlloc 0x20), (1, PopNonVolatile PE_RBP)]),
      pe_parse_epilog = (\<lambda>_ _. None),
      pe_resolve = (\<lambda>_ st op s. case op of
          UnStackAlloc n \<Rightarrow> (Some None, us_write_register st PE_RSP (us_read_register st PE_RSP s + n) s)
        | PopNonVolatile reg \<Rightarrow>
            (case us_read_stack st (us_read_register st PE_RSP s) of
               None \<Rightarrow> (None, s)
             | Some v \<Rightarrow> (Some None, us_write_register st PE_RSP (us_read_register st PE_RSP s + 8)
                 (us_write_register st reg v s)))
        | OtherOperation _ \<Rightarrow> (None, s))\<rparr>"

lemma pop_crate_resolves: "resolves_stack_operations pop_crate"
  by (simp add: resolves_stack_operations_def pop_crate_def)

theorem operations_rule_agrees_witness:
  "\<exists>rule. for_sequence_of_offset_or_pop
      (map offset_or_pop_of_operation (map snd (pe_operations pop_crate ()))) = Some rule \<and>
    exec_x86 rule False (x86_new 1 0x100 2) pe_stack = (Inr (Some 0x401000), x86_set_ip 0x401000
      (x86_set_sp 0x130 (x86_set RSP 0x128 (x86_set RBP 0x200 (x86_set RSP 0x120 (x86_new 1 0x100 2))))))"
proof -
  define ops :: "unit UnwindOperation list" where "ops = [UnStackAlloc 0x20, PopNonVolatile PE_RBP]"
  define regs1 where "regs1 = x86_set RSP 0x128 (x86_set RBP 0x200 (x86_set RSP 0x120 (x86_new 1 0x100 2)))"
  have sp: "x86_get (x86_new 1 0x100 2) RSP = 0x100" by (metis x86_new_simps(2) x86_sp_def)
  have sp1: "x86_sp regs1 = 0x128" by (simp add: regs1_def x86_sp_def)
  have "resolve_operations pop_crate () pe_stack ops (x86_new 1 0x100 2) = pop_return_address pe_stack regs1"
    by (simp add: ops_def regs1_def sp pop_crate_def pe_state_def) (simp add: pe_stack_def)
  also have "\<dots> = (Inr (Uncacheable 0x401000), x86_set_sp 0x130 regs1)"
    by (simp add: pop_return_address_Inr sp1) (simp add: pe_stack_def)
  finally have res: "resolve_operations pop_crate () pe_stack ops (x86_new 1 0x100 2) =
      (Inr (Uncacheable 0x401000), x86_set_sp 0x130 regs1)" .
  have "encode [RBP] \<noteq> None" by (simp add: encode_def ENCODE_REGISTERS_def)
  then obtain rule where rule: "for_sequence_of_offset_or_pop (map offset_or_pop_of_operation ops) = Some rule"
    by (auto simp: ops_def for_sequence_of_offset_or_pop_def offset_by_8_or_none_def try_unsigned_def Let_def
        split: option.splits)
  from operations_rule_agrees [OF pop_crate_resolves rule res]
  have "exec_x86 rule False (x86_new 1 0x100 2) pe_stack =
      (Inr (Some 0x401000), x86_set_ip 0x401000 (x86_set_sp 0x130 regs1))"
    by (simp add: ops_def)
  with rule show ?thesis by (auto simp: ops_def regs1_def pop_crate_def)
qed

section \<open>Returning, and not\<close>

text \<open>A chain of unwind infos that gets shorter with every link.\<close>

definition chain_ends :: "('info, 'op, 's) PeCrate \<Rightarrow> PeSections \<Rightarrow> ('info \<Rightarrow> nat) \<Rightarrow> bool" where
  "chain_ends crate sections links \<longleftrightarrow>
     (\<forall>info address info'. pe_chained crate info = Some address \<longrightarrow>
        unwind_info_at crate sections address = Inr info' \<longrightarrow> links info' < links info)"

lemma chained_infos_returns:
  "chain_ends crate sections links \<Longrightarrow> \<exists>r. chained_infos crate sections info = Some r"
proof (induction "links info" arbitrary: info rule: less_induct)
  case less
  have IH: "\<exists>r. chained_infos crate sections info' = Some r" if "links info' < links info" for info'
    using less that by blast
  have "links info' < links info"
    if "pe_chained crate info = Some address" "unwind_info_at crate sections address = Inr info'"
    for address info' using that less.prems unfolding chain_ends_def by blast
  then show ?case using IH
    by (subst chained_infos.simps) (auto simp: bind_eq_Some_conv split: option.split sum.split)
qed

text \<open>The results of the collection: an error of one of the links, or the list of infos.\<close>

lemma chained_infos_error:
  "chained_infos crate sections info = Some r \<Longrightarrow>
     (case r of Inl e \<Rightarrow> \<exists>address. unwind_info_at crate sections address = Inl e | Inr _ \<Rightarrow> True)"
proof (induction rule: chained_infos.raw_induct [rotated, consumes 1])
  case (1 f crate sections info r)
  show ?case
  proof (cases "\<exists>address info'. pe_chained crate info = Some address \<and>
      unwind_info_at crate sections address = Inr info'")
    case True
    with 1(2) obtain info' y where "f crate sections info' = Some y" "r = map_sum id (Cons info) y"
      by (auto simp: bind_eq_Some_conv)
    with 1(1) [of crate sections info' y] show ?thesis by (cases y) auto
  next
    case False
    with 1(2) show ?thesis by (auto split: option.splits sum.splits)
  qed
qed

text \<open>
  An unwind info whose chain leads back to itself is never left: the collection does not
  return.
\<close>

theorem self_chained_never_returns:
  assumes "pe_chained crate info = Some address" "unwind_info_at crate sections address = Inr info"
  shows "chained_infos crate sections info = None"
proof (rule ccontr)
  assume "chained_infos crate sections info \<noteq> None"
  then obtain r where "chained_infos crate sections info = Some r" by blast
  then have "\<not> (pe_chained crate info = Some address \<and> unwind_info_at crate sections address = Inr info)"
  proof (induction rule: chained_infos.raw_induct [rotated, consumes 1])
    case (1 f crate sections info r)
    show ?case
    proof
      assume self: "pe_chained crate info = Some address \<and> unwind_info_at crate sections address = Inr info"
      with 1(2) obtain y where "f crate sections info = Some y" by (auto simp: bind_eq_Some_conv)
      with 1(1) [of crate sections info y] self show False by simp
    qed
  qed
  with assms show False by simp
qed

section \<open>Safety\<close>

text \<open>
  Sections whose data covers the range they claim; a lookup that returns functions containing
  the address; text that covers the functions; and epilogs that use the frame register only
  when there is one. These are what the code relies on.
\<close>

definition data_covers :: "rva_data option \<Rightarrow> bool" where
  "data_covers sect = pred_option (\<lambda>(data, (start, end)). unat end - unat start \<le> length data) sect"

definition sections_cover :: "PeSections \<Rightarrow> bool" where
  "sections_cover sections \<longleftrightarrow>
     data_covers (ps_rdata sections) \<and> data_covers (ps_xdata sections) \<and> data_covers (ps_text sections)"

definition pe_lookup_in_range :: "('info, 'op, 's) PeCrate \<Rightarrow> PeSections \<Rightarrow> bool" where
  "pe_lookup_in_range crate sections \<longleftrightarrow>
     (\<forall>address f. pe_lookup crate (ps_pdata sections) address = Some f \<longrightarrow>
        address < pe_end_address f \<and>
        pred_option (\<lambda>(data, (start, end)). start \<le> address \<and> address < end \<longrightarrow> pe_end_address f \<le> end)
          (ps_text sections))"

definition epilog_uses_frame_register :: "('info, 'op, 's) PeCrate \<Rightarrow> bool" where
  "epilog_uses_frame_register crate \<longleftrightarrow>
     (\<forall>bs instrs offset. pe_parse_epilog crate bs None = Some instrs \<longrightarrow> AddSPFromFP offset \<notin> set instrs)"

lemma section_memory_covered:
  "data_covers sect \<Longrightarrow> section_memory_at_rva sect rva \<noteq> None"
  by (auto simp: data_covers_def section_memory_at_rva_def memory_at_rva_def unat_sub_no_underflow
      word_le_nat_alt word_less_nat_alt Let_def split: option.splits)

lemma unwind_info_at_covered:
  "sections_cover sections \<Longrightarrow> unwind_info_at crate sections rva \<noteq> Inl PePanicked"
  using section_memory_covered [of "ps_rdata sections" rva] section_memory_covered [of "ps_xdata sections" rva]
  by (auto simp: sections_cover_def unwind_info_at_def unwind_info_memory_at_rva_def ok_or_def bind_res_def
      split: option.splits sum.splits)

lemma epilog_at_covered:
  assumes "sections_cover sections" "pe_lookup_in_range crate sections"
    "pe_lookup crate (ps_pdata sections) address = Some f"
  shows "epilog_at crate sections f info address \<noteq> Inl PePanicked"
proof -
  have "unat (pe_end_address f - address) \<le> length memory"
    if m: "text_memory_at_rva sections address = Inr memory" for memory
  proof -
    from m obtain data s e where t: "ps_text sections = Some (data, (s, e))" "s \<le> address" "address < e"
        "memory = drop (unat (address - s)) data"
      by (auto simp: text_memory_at_rva_def section_memory_at_rva_def memory_at_rva_def ok_or_def Let_def
          split: option.splits if_splits)
    have "address < pe_end_address f" "pe_end_address f \<le> e" "unat e - unat s \<le> length data"
      using assms t by (auto simp: pe_lookup_in_range_def sections_cover_def data_covers_def)
    with t show ?thesis
      by (simp add: unat_sub_no_underflow word_le_nat_alt word_less_nat_alt)
  qed
  moreover have "text_memory_at_rva sections address \<noteq> Inl PePanicked"
    using section_memory_covered [of "ps_text sections" address] assms(1)
    by (auto simp: sections_cover_def text_memory_at_rva_def ok_or_def split: option.splits)
  ultimately show ?thesis
    by (cases "text_memory_at_rva sections address") (auto simp: epilog_at_def Let_def)
qed

lemma epilog_steps_no_panic:
  "fp \<noteq> None \<or> (\<forall>offset. AddSPFromFP offset \<notin> set instrs) \<Longrightarrow>
     fst (epilog_steps fp read instrs regs) \<noteq> Inl PePanicked"
  by (induction fp read instrs regs rule: epilog_steps.induct) (auto simp: Let_def split: option.splits)

lemma pop_return_address_safe:
  "fst (pop_return_address read regs) \<noteq> Inl PePanicked" "fst (pop_return_address read regs) \<noteq> Inr (ExecRule rule)"
  by (auto simp: pop_return_address_def Let_def split: option.splits)

lemma resolve_operations_safe:
  "fst (resolve_operations crate info read ops regs) \<noteq> Inl PePanicked \<and>
   fst (resolve_operations crate info read ops regs) \<noteq> Inr (ExecRule rule)"
  by (induction ops arbitrary: regs) (auto simp: pop_return_address_safe split: prod.splits option.splits)

text \<open>Whatever the sections, the rules that come out were built by \<open>for_sequence_of_offset_or_pop\<close>.\<close>

lemma unwind_epilog_wf:
  "unwind_epilog fp read instrs regs = (Inr (ExecRule rule), regs') \<Longrightarrow> rule_wf_x86 rule"
  using pop_return_address_safe(2)
  by (auto simp: unwind_epilog_def for_sequence_wf prod_eq_iff split: option.splits sum.splits prod.splits)

lemma unwind_body_wf:
  assumes "unwind_body crate sections info offset read regs = Some (Inr (ExecRule rule), regs')"
  shows "rule_wf_x86 rule"
proof -
  obtain infos where i: "chained_infos crate sections info = Some infos"
    using assms by (auto simp: unwind_body_def bind_eq_Some_conv)
  with assms obtain cs where "infos = Inr cs" by (cases infos) (auto simp: unwind_body_def)
  with i have "chained_infos crate sections info = Some (Inr cs)" by simp
  with assms show ?thesis
    using resolve_operations_safe [of crate info read "collect_operations crate offset cs" regs rule]
    by (auto simp: unwind_body_def for_sequence_wf prod_eq_iff Let_def split: option.splits)
qed

lemma pe_unwind_frame_x86_wf:
  "pe_unwind_frame_x86 crate sections address regs first read = Some (Inr (ExecRule rule), regs') \<Longrightarrow>
     rule_wf_x86 rule"
  by (auto simp: pe_unwind_frame_x86_def Let_def split: option.splits sum.splits if_splits
      dest: unwind_epilog_wf unwind_body_wf)

text \<open>\<open>PeDiverges\<close> is not an error the code returns.\<close>

lemma unwind_info_at_no_diverge: "unwind_info_at crate sections rva \<noteq> Inl PeDiverges"
  by (auto simp: unwind_info_at_def unwind_info_memory_at_rva_def ok_or_def bind_res_def
      split: option.splits sum.splits)

lemma epilog_no_diverge:
  "epilog_at crate sections f info address \<noteq> Inl PeDiverges"
  "fst (epilog_steps fp read instrs regs) \<noteq> Inl PeDiverges"
  by (auto simp: epilog_at_def text_memory_at_rva_def ok_or_def bind_res_def Let_def
      split: option.splits sum.splits if_splits)
    (induction fp read instrs regs rule: epilog_steps.induct, auto simp: Let_def split: option.splits)

lemma pop_return_address_no_diverge: "fst (pop_return_address read regs) \<noteq> Inl PeDiverges"
  by (auto simp: pop_return_address_def Let_def split: option.splits)

lemma resolve_operations_no_diverge: "fst (resolve_operations crate info read ops regs) \<noteq> Inl PeDiverges"
  by (induction ops arbitrary: regs) (auto simp: pop_return_address_no_diverge split: prod.splits option.splits)

lemma unwind_body_no_diverge:
  "unwind_body crate sections info offset read regs \<noteq> Some (Inl PeDiverges, regs')"
proof (cases "chained_infos crate sections info")
  case (Some infos)
  show ?thesis
  proof (cases infos)
    case (Inl e)
    then show ?thesis using Some chained_infos_error [OF Some] unwind_info_at_no_diverge
      by (fastforce simp: unwind_body_def)
  next
    case (Inr cs)
    then show ?thesis
      using Some resolve_operations_no_diverge [of crate info read "collect_operations crate offset cs" regs]
      by (auto simp: unwind_body_def Let_def prod_eq_iff split: option.splits)
  qed
qed (simp add: unwind_body_def)

lemma pe_unwind_frame_x86_no_diverge:
  "pe_unwind_frame_x86 crate sections address regs first read \<noteq> Some (Inl PeDiverges, regs')"
proof -
  have "unwind_epilog fp read instrs regs \<noteq> (Inl PeDiverges, regs')" for fp instrs
    using epilog_no_diverge(2) [of fp read instrs regs] pop_return_address_no_diverge [of read]
    by (auto simp: unwind_epilog_def prod_eq_iff split: option.splits sum.splits prod.splits)
  then show ?thesis
    using unwind_info_at_no_diverge [of crate sections] epilog_no_diverge(1) [of crate sections]
      unwind_body_no_diverge [of crate sections]
    by (auto simp: pe_unwind_frame_x86_def Let_def split: option.splits sum.splits if_splits)
qed

definition pe_result_ok :: "PeUnwinderError + UnwindRuleX86_64 UnwindResult \<Rightarrow> bool" where
  "pe_result_ok r \<longleftrightarrow> r \<noteq> Inl PePanicked \<and> (\<forall>rule. r = Inr (ExecRule rule) \<longrightarrow> rule_wf_x86 rule)"

lemma unwind_epilog_ok:
  assumes "epilog_uses_frame_register crate" "pe_parse_epilog crate bs fp = Some instrs"
  shows "pe_result_ok (fst (unwind_epilog fp read instrs regs))"
proof -
  have "fst (epilog_steps fp read instrs regs) \<noteq> Inl PePanicked"
    using assms by (intro epilog_steps_no_panic) (auto simp: epilog_uses_frame_register_def)
  then show ?thesis
    using pop_return_address_safe
    by (auto simp: unwind_epilog_def pe_result_ok_def for_sequence_wf split: option.splits sum.splits prod.splits)
qed

lemma unwind_body_ok:
  assumes "sections_cover sections" "chain_ends crate sections links"
  shows "\<exists>r regs'. unwind_body crate sections info offset read regs = Some (r, regs') \<and> pe_result_ok r"
proof -
  obtain infos where i: "chained_infos crate sections info = Some infos"
    using chained_infos_returns [OF assms(2)] by blast
  show ?thesis
  proof (cases infos)
    case (Inl e)
    then have "e \<noteq> PePanicked"
      using chained_infos_error [OF i] unwind_info_at_covered [OF assms(1)] by fastforce
    with Inl i show ?thesis by (simp add: unwind_body_def pe_result_ok_def)
  next
    case (Inr cs)
    then show ?thesis using i
      by (auto simp: unwind_body_def pe_result_ok_def for_sequence_wf resolve_operations_safe Let_def
          prod_eq_iff split: option.split)
  qed
qed

lemma pe_unwind_frame_x86_ok:
  assumes "sections_cover sections" "pe_lookup_in_range crate sections" "epilog_uses_frame_register crate"
    and "chain_ends crate sections links"
  shows "\<exists>r regs'. pe_unwind_frame_x86 crate sections address regs is_first_frame read = Some (r, regs') \<and>
    pe_result_ok r"
proof (cases "pe_lookup crate (ps_pdata sections) address")
  case None
  then show ?thesis by (simp add: pe_unwind_frame_x86_def pe_result_ok_def)
next
  case (Some f)
  show ?thesis
  proof (cases "unwind_info_at crate sections (unwind_info_address f)")
    case (Inl e)
    then show ?thesis using Some unwind_info_at_covered [OF assms(1), of crate "unwind_info_address f"]
      by (simp add: pe_unwind_frame_x86_def pe_result_ok_def)
  next
    case (Inr info)
    note body = unwind_body_ok [OF assms(1,4), of info "address - begin_address f" read regs]
    have "pe_result_ok (Inl e)" if "epilog_at crate sections f info address = Inl e" for e
      using epilog_at_covered [OF assms(1,2) Some, of info] that by (auto simp: pe_result_ok_def)
    moreover have "pe_result_ok (fst (unwind_epilog (pe_frame_register crate info) read instrs regs))"
      if "epilog_at crate sections f info address = Inr (Some instrs)" for instrs
      using that by (auto simp: epilog_at_def bind_res_Inr_iff Let_def split: if_splits
          intro: unwind_epilog_ok [OF assms(3)])
    ultimately show ?thesis using Some Inr body
      by (auto simp: pe_unwind_frame_x86_def Let_def prod_eq_iff split: sum.split option.split)
  qed
qed

text \<open>
  C23: PE unwinding on x86_64 returns, does not panic, and yields only well-formed rules, for
  every frame and every stack, when the section data covers the ranges, the function table and
  the text section agree, and no chain of unwind infos leads back into itself.
\<close>

theorem pe_unwinding_safe_x86:
  assumes "sections_cover sections" "pe_lookup_in_range crate sections" "epilog_uses_frame_register crate"
    and "chain_ends crate sections links"
  shows "\<exists>r regs'. pe_unwind_frame_x86 crate sections address regs is_first_frame read = Some (r, regs') \<and>
    r \<noteq> Inl PePanicked \<and> (\<forall>rule. r = Inr (ExecRule rule) \<longrightarrow> rule_wf_x86 rule)"
  using pe_unwind_frame_x86_ok [OF assms, of address regs is_first_frame read]
  by (auto simp: pe_result_ok_def)

definition pop_sections :: PeSections where
  "pop_sections = \<lparr>ps_pdata = [], ps_rdata = Some ([1], (0x2000, 0x2001)), ps_xdata = None, ps_text = None\<rparr>"

theorem pe_unwinding_safe_x86_witness:
  "\<exists>r regs'. pe_unwind_frame_x86 pop_crate pop_sections 0x1008 (x86_new 1 0x100 2) False pe_stack = Some (r, regs') \<and>
    r \<noteq> Inl PePanicked"
proof -
  have "sections_cover pop_sections" "pe_lookup_in_range pop_crate pop_sections"
    "epilog_uses_frame_register pop_crate" "chain_ends pop_crate pop_sections (\<lambda>_. 0)"
    by (auto simp: sections_cover_def data_covers_def pop_sections_def pe_lookup_in_range_def pop_crate_def
        epilog_uses_frame_register_def chain_ends_def split: if_splits)
  from pe_unwinding_safe_x86 [OF this] show ?thesis by blast
qed

text \<open>
  A failing PE unwind keeps the registers it has already written: here the frame pointer is
  popped before the read of the next word fails. The caller of \<open>unwind_frame\<close> answers an error by
  executing the fallback rule on these registers.
\<close>

theorem failed_epilog_keeps_writes:
  "unwind_epilog None [0x100 \<mapsto> 0x200] [EpilogPop PE_RBP, AddSP 8, EpilogPop PE_RBX] (x86_new 1 0x100 2) =
     (Inl (MissingStackData (Some 0x110)),
      x86_set RSP 0x110 (x86_set RSP 0x108 (x86_set RBP 0x200 (x86_new 1 0x100 2))))"
proof -
  have "x86_get (x86_new 1 0x100 2) RSP = 0x100" by (metis x86_new_simps(2) x86_sp_def)
  then show ?thesis
    by (simp add: unwind_epilog_def for_sequence_of_offset_or_pop_def offset_by_8_or_none_def
        try_unsigned_def Let_def)
qed

end
