(* ===== verification/A64_Arch.thy ===== *)
theory A64_Arch
  imports A64_Dwarf A64_Macho Pe_Unwind
begin

text \<open>
  The aarch64 architecture as a whole (\<^verbatim>\<open>vendor/framehop/src/aarch64/arch.rs\<close>): DWARF and compact
  unwind info behind \<open>unwind_frame_impl\<close>; PE unwinding is not supported there.
\<close>

definition a64_ops :: "('m, 'info) MachoUnwindInfo \<Rightarrow> (u32 \<Rightarrow> OpcodeArm64) \<Rightarrow>
    (bytes \<Rightarrow> bytes option \<Rightarrow> BaseAddresses \<Rightarrow> ('x, 'f, 'g) Gimli) \<Rightarrow>
    (UnwindRuleAarch64, UnwindRegsAarch64, 'x, 'f, 'g, ('m, 'g) CompactUnwindInfoUnwinderError,
     PeUnwinderError) ArchOps" where
  "a64_ops mui parse gimli =
     \<lparr>op_dwarf = unwind_frame_a64,
      op_rule_if_uncovered_by_fde = rule_if_uncovered_by_fde_a64,
      op_cui = cui_unwind_frame mui (cui_arch_a64 parse),
      op_pe = (\<lambda>pdata rdata xdata text rel regs first read.
        pe_unwind_frame_a64 \<lparr>ps_pdata = pdata, ps_rdata = rdata, ps_xdata = xdata, ps_text = text\<rparr>
          rel regs first read),
      op_gimli = gimli\<rparr>"

text \<open>
  A module with PE unwind information is never used on aarch64: unwinding a frame in it
  reports an error, and the unwinder then executes the frame-pointer rule on the unchanged
  registers, with the rule cached for the address.
\<close>

theorem a64_pe_module_uses_fallback:
  assumes "lookup cache (address_for_lookup address) (modules_generation u) = (Miss h, cache')"
    and "find_module_for_address u (address_for_lookup address) = Some (m, rel)"
    and "unwind_data m = PeUnwindInfo pdata rdata xdata text"
  shows "with_cache exec_a64 fallback_rule_a64 u (unwind_frame_impl (a64_ops mui parse gimli)) address
      regs cache read =
    (exec_rule exec_a64 fallback_rule_a64 (\<not> is_return_address address) regs read,
     insert_rule cache' h fallback_rule_a64)"
  using assms
  by (simp add: with_cache_def a64_ops_def pe_unwind_frame_a64_def Let_def)

text \<open>
  Finding a frame's rule on aarch64 does not panic, for every module and address, when
  compact unwind info lookups return functions that contain the address.
\<close>

theorem a64_unwind_frame_impl_returns:
  assumes "lookup_in_range mui"
    and "unwind_frame_impl (a64_ops mui parse gimli) m address rel regs read = (r, regs')"
  shows "r \<noteq> Inl (CompactUnwindInfo CuiPanicked) \<and> r \<noteq> Inl (PeError PePanicked)"
proof -
  have cui: "op_cui (a64_ops mui parse gimli) data tx stubs hlp rel' first \<noteq> Inl CuiPanicked"
    for data tx stubs hlp rel' first
    using a64_cui.unwind_frame_no_panic [OF assms(1)] by (simp add: a64_ops_def)
  have pe: "op_pe (a64_ops mui parse gimli) pdata rdata xdata tx rel' regs first read = (Inl Aarch64Unsupported, regs)"
    for pdata rdata xdata tx rel' regs first read
    by (simp add: a64_ops_def pe_unwind_frame_a64_def)
  show ?thesis
    using assms(2)
    by (auto simp: cui pe dwarf_impl_errors Let_def split: ModuleUnwindDataInternal.splits sum.splits
        CuiUnwindResult.splits option.splits prod.splits)
qed


text \<open>
  Nothing on aarch64 reports a signal trampoline: DWARF ignores the mark of a signal frame there.
  The trait's default for \<open>unwind_frame_signal_aware\<close> therefore loses nothing.
\<close>

lemma dwarf_impl_a64_not_interrupted:
  "fst (dwarf_impl (a64_ops mui parse gimli) data hdr bases ty base regs first rel fde read) \<noteq> Inr (Interrupted a)"
  by (auto simp: dwarf_impl_def unwind_frame_with_fde_def a64_ops_def unwind_frame_a64_def
      generic_unwind_frame_a64_def Let_def simp del: translate_into_unwind_rule_a64.simps
      split: prod.splits sum.splits option.splits DwarfUnwinderError.splits if_splits)

lemma unwind_frame_impl_a64_not_interrupted:
  "fst (unwind_frame_impl (a64_ops mui parse gimli) m address rel regs read) \<noteq> Inr (Interrupted a)"
proof -
  have "op_pe (a64_ops mui parse gimli) pdata rdata xdata tx rel' regs first read = (Inl Aarch64Unsupported, regs)"
    for pdata rdata xdata tx rel' regs first read
    by (simp add: a64_ops_def pe_unwind_frame_a64_def)
  then show ?thesis
    by (auto simp: Let_def dwarf_impl_a64_not_interrupted
        split: ModuleUnwindDataInternal.split sum.split CuiUnwindResult.split option.split)
qed

lemma without_cache_a64_not_interrupted:
  "fst (without_cache exec_a64 fallback_rule_a64 u (unwind_frame_impl (a64_ops mui parse gimli)) address regs read)
     \<noteq> Inr (Some (a, True))"
proof -
  have "fst (exec_rule exec_a64 rule first regs read) \<noteq> Inr (Some (a, True))" for rule first regs
    by (auto simp: exec_rule_def not_interrupted_def bind_res_def split: prod.split sum.split)
  moreover have "unwind_frame_impl (a64_ops mui parse gimli) m address rel regs read \<noteq> (Inr (Interrupted a), regs')"
    for m rel regs'
    using unwind_frame_impl_a64_not_interrupted [of mui parse gimli m address rel regs read a] by auto
  ultimately show ?thesis
    by (auto simp: without_cache_def Let_def simp del: unwind_frame_impl.simps
        split: option.split prod.split sum.split UnwindResult.split)
qed

end
