(* ===== verification/X86_Dwarf.thy ===== *)
theory X86_Dwarf
  imports X86_Rule Dwarf
begin

text \<open>
  DWARF unwinding on x86_64 (\<^verbatim>\<open>vendor/framehop/src/x86_64/dwarf.rs\<close>): the translation of a
  table row into a cacheable rule, the generic path for the rows it refuses, and the proof
  that the two agree. The register numbers are those of the x86_64 psABI that the source's
  comments show: 6 is rbp, 7 is rsp, 16 the return address.
\<close>

definition X86_RBP :: Register where "X86_RBP = 6"
definition X86_RSP :: Register where "X86_RSP = 7"
definition X86_RA :: Register where "X86_RA = 16"

lemmas x86_numbers = X86_RBP_def X86_RSP_def X86_RA_def

definition dwarf_get_x86 :: "UnwindRegsX86_64 \<Rightarrow> Register \<Rightarrow> u64 option" where
  "dwarf_get_x86 regs register =
     (if register = X86_RA then Some (x86_ip regs)
      else if register = X86_RSP then Some (x86_sp regs)
      else if register = X86_RBP then Some (x86_bp regs)
      else None)"

fun register_rule_to_cfa_offset_x86 :: "'x RegisterRule option \<Rightarrow> ConversionError + i64 option" where
  "register_rule_to_cfa_offset_x86 None = Inr None"
| "register_rule_to_cfa_offset_x86 (Some Undefined) = Inr None"
| "register_rule_to_cfa_offset_x86 (Some SameValue) = Inr None"
| "register_rule_to_cfa_offset_x86 (Some (Offset offset)) = Inr (Some offset)"
| "register_rule_to_cfa_offset_x86 _ = Inl RegisterNotStoredRelativeToCfa"

text \<open>
  \<open>translate_into_unwind_rule\<close>: \<open>return_address_rule_x86\<close> is its first match, which returns
  early with \<open>Inr (Some rule)\<close> or falls through with \<open>Inr None\<close>. Divisions truncate towards
  zero, and the addition \<open>offset + bp_cfa_offset\<close> wraps.
\<close>

fun return_address_rule_x86 ::
    "'x RegisterRule option \<Rightarrow> ConversionError + UnwindRuleX86_64 option" where
  "return_address_rule_x86 None = Inr (Some EndOfStack)"
| "return_address_rule_x86 (Some Undefined) = Inr (Some EndOfStack)"
| "return_address_rule_x86 (Some (Offset offset)) =
     (if offset = - 8 then Inr None else Inl ReturnAddressRuleWithUnexpectedOffset)"
| "return_address_rule_x86 _ = Inl ReturnAddressRuleWasWeird"

definition translate_sp_x86 :: "i64 \<Rightarrow> 'x RegisterRule option \<Rightarrow>
    ConversionError + UnwindRuleX86_64" where
  "translate_sp_x86 offset bp_rule =
     bind_res (ok_or SpOffsetDoesNotFit (try_unsigned (sint offset sdiv 8))) (\<lambda>sp_offset_by_8.
     bind_res (register_rule_to_cfa_offset_x86 bp_rule) (\<lambda>fp_cfa_offset.
       case fp_cfa_offset of
         None \<Rightarrow> Inr (UnwindRuleX86_64.OffsetSp sp_offset_by_8)
       | Some bp_cfa_offset \<Rightarrow>
           bind_res (ok_or FpStorageOffsetDoesNotFit
               (try_signed (sint (offset + bp_cfa_offset) sdiv 8)))
             (\<lambda>bp_storage_offset_from_sp_by_8.
               Inr (OffsetSpAndRestoreBp sp_offset_by_8 bp_storage_offset_from_sp_by_8))))"

definition translate_bp_x86 :: "i64 \<Rightarrow> 'x RegisterRule option \<Rightarrow>
    ConversionError + UnwindRuleX86_64" where
  "translate_bp_x86 offset bp_rule =
     bind_res (register_rule_to_cfa_offset_x86 bp_rule) (\<lambda>cfa_offset.
     bind_res (ok_or FramePointerRuleDoesNotRestoreBp cfa_offset) (\<lambda>bp_cfa_offset.
       if offset = 16 \<and> bp_cfa_offset = - 16 then Inr UnwindRuleX86_64.UseFramePointer
       else Inl FramePointerRuleHasStrangeBpOffset))"

fun translate_into_unwind_rule_x86 ::
    "'x CfaRule \<Rightarrow> 'x RegisterRule option \<Rightarrow> 'x RegisterRule option \<Rightarrow>
     ConversionError + UnwindRuleX86_64" where
  "translate_into_unwind_rule_x86 cfa_rule bp_rule ra_rule =
     bind_res (return_address_rule_x86 ra_rule) (\<lambda>early.
       case early of
         Some rule \<Rightarrow> Inr rule
       | None \<Rightarrow>
           (case cfa_rule of
              RegisterAndOffset register offset \<Rightarrow>
                if register = X86_RSP then translate_sp_x86 offset bp_rule
                else if register = X86_RBP then translate_bp_x86 offset bp_rule
                else Inl CfaIsOffsetFromUnknownRegister
            | CfaExpression _ \<Rightarrow> Inl CfaIsExpression))"

text \<open>
  The generic path of \<open>unwind_frame\<close>, which evaluates the rules and writes the registers.
  The fallback read at \<open>cfa - 8\<close> is unchecked and wraps.
\<close>

definition return_address_x86 :: "'x gimli_expr \<Rightarrow> 'x RegisterRule option \<Rightarrow> u64 \<Rightarrow>
    UnwindRegsX86_64 \<Rightarrow> read_stack \<Rightarrow> u64 option" where
  "return_address_x86 parse ra_rule cfa regs read =
     (case eval_register_rule parse ra_rule cfa (x86_ip regs) (dwarf_get_x86 regs) read of
        Some ra \<Rightarrow> Some ra
      | None \<Rightarrow> read (cfa - 8))"

definition generic_unwind_frame_x86 :: "'x gimli_expr \<Rightarrow> 'x UnwindTableRow \<Rightarrow> UnwindRegsX86_64 \<Rightarrow>
    bool \<Rightarrow> bool \<Rightarrow> read_stack \<Rightarrow>
    ('g DwarfUnwinderError + UnwindRuleX86_64 UnwindResult) \<times> UnwindRegsX86_64" where
  "generic_unwind_frame_x86 parse row regs is_first_frame is_signal_frame read =
     (let bp_rule = row_register row X86_RBP; ra_rule = row_register row X86_RA in
      case eval_cfa_rule parse (row_cfa row) (dwarf_get_x86 regs) read of
        None \<Rightarrow> (Inl CouldNotRecoverCfa, regs)
      | Some cfa \<Rightarrow>
          (let new_bp = (case eval_register_rule parse bp_rule cfa (x86_bp regs)
                           (dwarf_get_x86 regs) read of Some v \<Rightarrow> v | None \<Rightarrow> x86_bp regs) in
           case return_address_x86 parse ra_rule cfa regs read of
             None \<Rightarrow> (Inl CouldNotRecoverReturnAddress, regs)
           | Some return_address \<Rightarrow>
               if cfa = x86_sp regs \<and> return_address = x86_ip regs
               then (Inl DwarfDidNotAdvance, regs)
               else if \<not> is_first_frame \<and> \<not> is_signal_frame \<and> cfa < x86_sp regs
               then (Inl StackPointerMovedBackwards, regs)
               else (Inr (if is_signal_frame then Interrupted return_address
                          else Uncacheable return_address),
                     x86_set_sp cfa (x86_set_bp new_bp (x86_set_ip return_address regs)))))"

definition unwind_frame_x86 :: "'x gimli_expr \<Rightarrow> 'x UnwindTableRow \<Rightarrow> UnwindRegsX86_64 \<Rightarrow>
    bool \<Rightarrow> bool \<Rightarrow> read_stack \<Rightarrow>
    ('g DwarfUnwinderError + UnwindRuleX86_64 UnwindResult) \<times> UnwindRegsX86_64" where
  "unwind_frame_x86 parse row regs is_first_frame is_signal_frame read =
     (if is_signal_frame
      then generic_unwind_frame_x86 parse row regs is_first_frame is_signal_frame read
      else case translate_into_unwind_rule_x86 (row_cfa row) (row_register row X86_RBP)
                  (row_register row X86_RA) of
             Inr rule \<Rightarrow> (Inr (ExecRule rule), regs)
           | Inl _ \<Rightarrow>
               generic_unwind_frame_x86 parse row regs is_first_frame is_signal_frame read)"

definition rule_if_uncovered_by_fde_x86 :: UnwindRuleX86_64 where
  "rule_if_uncovered_by_fde_x86 = JustReturnIfFirstFrameOtherwiseFp"

section \<open>The translated rule is the generic evaluation\<close>

lemma return_address_x86_normal:
  "return_address_x86 parse (Some (Offset (- 8))) cfa regs read = read (cfa - 8)"
  by (auto simp: return_address_x86_def bind_eq_Some_conv split: option.splits
      dest: add_cfa_offset_word)

lemma x86_set_sp_bp_commute:
  "x86_set_bp bp (x86_set_sp sp regs) = x86_set_sp sp (x86_set_bp bp regs)"
  by (simp add: x86_set_bp_def x86_set_sp_def x86_set_def fun_upd_twist)

lemma generic_of_rule_frame:
  assumes "eval_cfa_rule parse (row_cfa row) (dwarf_get_x86 regs) read = Some cfa"
    and "row_register row X86_RA = Some (Offset (- 8))"
    and "rule_frame_x86 rule f regs read = (Inr (Some (cfa, new_bp)), regs)"
    and "new_bp = (case eval_register_rule parse (row_register row X86_RBP) cfa (x86_bp regs)
                     (dwarf_get_x86 regs) read of Some v \<Rightarrow> v | None \<Rightarrow> x86_bp regs)"
    and "exec_x86 rule f regs read = (Inr (Some ra), regs')"
  shows "generic_unwind_frame_x86 parse row regs f False read = (Inr (Uncacheable ra), regs')"
proof -
  have "read (cfa - 8) = Some ra" "x86_sp regs \<le> cfa" "\<not> (cfa = x86_sp regs \<and> ra = x86_ip regs)"
    and "regs' = x86_set_bp new_bp (x86_set_sp cfa (x86_set_ip ra regs))"
    using assms(3,5) rule_frame_x86_sp [OF assms(3)] by (auto simp: exec_x86_Some_iff)
  with assms(1,2,4) show ?thesis
    by (auto simp: generic_unwind_frame_x86_def return_address_x86_normal x86_set_sp_bp_commute
        split: option.splits)
qed

text \<open>What the row says about rbp: kept, or saved at an aligned slot below the CFA.\<close>

fun bp_rule_regular :: "i64 \<Rightarrow> 'x RegisterRule option \<Rightarrow> bool" where
  "bp_rule_regular offset (Some (Offset bp_off)) = (8 dvd sint (offset + bp_off) \<and> sint bp_off \<le> 0)"
| "bp_rule_regular offset _ = True"

lemma translate_sp_x86_agrees:
  assumes t: "translate_sp_x86 offset bp_rule = Inr rule"
    and cfa: "add_cfa_offset (x86_sp regs) offset = Some cfa"
    and aligned: "8 dvd sint offset" "bp_rule_regular offset bp_rule"
    and ok: "rule_frame_x86 rule f regs read = (Inr (Some (new_sp, new_bp)), regs')"
  shows "regs' = regs \<and> new_sp = cfa \<and>
    new_bp = (case eval_register_rule parse bp_rule cfa (x86_bp regs) get read of
                Some v \<Rightarrow> v | None \<Rightarrow> x86_bp regs)"
proof -
  from t obtain w where w: "try_unsigned (sint offset sdiv 8) = Some (w :: u16)"
    by (auto simp: translate_sp_x86_def bind_res_Inr_iff)
  have off: "ucast w * 8 = offset" "0 \<le> sint offset" "sint offset < 2 ^ 16 * 8"
    using scaled_unsigned [OF w aligned(1)] by simp_all
  have sp: "x86_sp regs + offset = cfa" using add_cfa_offset_word [OF cfa] by simp
  consider (same) "register_rule_to_cfa_offset_x86 bp_rule = Inr None" "rule = UnwindRuleX86_64.OffsetSp w"
    | (saved) bp_off v where "bp_rule = Some (Offset bp_off)" "rule = OffsetSpAndRestoreBp w v"
      "try_signed (sint (offset + bp_off) sdiv 8) = Some v"
    using t w by (cases bp_rule rule: register_rule_to_cfa_offset_x86.cases)
      (auto simp: translate_sp_x86_def bind_res_Inr_iff)
  then show ?thesis
  proof cases
    case same
    then have "eval_register_rule parse bp_rule cfa (x86_bp regs) get read \<in> {None, Some (x86_bp regs)}"
      by (cases bp_rule rule: register_rule_to_cfa_offset_x86.cases) auto
    with same ok off sp show ?thesis
      by (auto simp: offset_sp_x86_Inr checked_simps split: option.splits)
  next
    case saved
    have v: "scast v * 8 = offset + bp_off" "- (2 ^ 15 * 8) \<le> sint (offset + bp_off)"
      "sint (offset + bp_off) < 2 ^ 15 * 8"
      using scaled_signed [OF saved(3)] aligned(2) saved(1) by simp_all
    have "checked_add_signed (x86_sp regs) (scast v * 8) = add_cfa_offset cfa bp_off"
      unfolding v(1) using cfa_slot_agrees [OF cfa off(2) _ v(2,3)] off(3) aligned(2) saved(1) by simp
    with saved ok off sp show ?thesis
      by (auto simp: bind_res_Inr_iff Let_def checked_simps split: option.splits if_splits)
  qed
qed

lemma translate_bp_x86_agrees:
  assumes t: "translate_bp_x86 offset bp_rule = Inr rule"
    and cfa: "add_cfa_offset (x86_bp regs) offset = Some cfa"
    and ok: "rule_frame_x86 rule f regs read = (Inr (Some (new_sp, new_bp)), regs')"
  shows "regs' = regs \<and> new_sp = cfa \<and>
    new_bp = (case eval_register_rule parse bp_rule cfa (x86_bp regs) get read of
                Some v \<Rightarrow> v | None \<Rightarrow> x86_bp regs)"
proof -
  from t have [simp]: "bp_rule = Some (Offset (- 16))" "offset = 16"
    "rule = UnwindRuleX86_64.UseFramePointer"
    by (cases bp_rule rule: register_rule_to_cfa_offset_x86.cases;
        auto simp: translate_bp_x86_def split: if_splits)+
  have cfa': "cfa = x86_bp regs + 16" using add_cfa_offset_word [OF cfa] by simp
  have fp: "checked_add (x86_bp regs) 16 = Some new_sp" "read (x86_bp regs) = Some new_bp" "regs' = regs"
    using ok by (auto simp: frame_pointer_step_x86_Inr split: if_splits)
  have "uint cfa = uint (x86_bp regs) + 16"
    using cfa uint_of_int_small [of "uint (x86_bp regs) + 16", where 'a = 64]
    by (auto simp: add_cfa_offset_Some_iff)
  then have "add_cfa_offset cfa (- 16) = Some (x86_bp regs)"
    using cfa by (auto simp: add_cfa_offset_Some_iff)
  with fp cfa' show ?thesis by (auto simp: checked_simps)
qed

text \<open>
  A row of the shape compilers emit on x86_64: the return address directly below the CFA, the
  CFA an aligned offset from its register, rbp kept or saved in an aligned slot below the CFA.
\<close>

fun row_regular_x86 :: "'x UnwindTableRow \<Rightarrow> bool" where
  "row_regular_x86 row =
     (row_register row X86_RA = Some (Offset (- 8)) \<and>
      (case row_cfa row of
         RegisterAndOffset reg offset \<Rightarrow>
           8 dvd sint offset \<and> bp_rule_regular offset (row_register row X86_RBP)
       | CfaExpression _ \<Rightarrow> True))"


text \<open>A concrete row, \<open>CFA = rsp + 16, rbp = [CFA - 16], ra = [CFA - 8]\<close>, in a small stack.\<close>

definition pushed_bp_row :: "unit UnwindTableRow" where
  "pushed_bp_row = \<lparr>row_cfa = RegisterAndOffset X86_RSP 16,
     row_register = (\<lambda>r. if r = X86_RBP then Some (Offset (- 16))
                         else if r = X86_RA then Some (Offset (- 8)) else None)\<rparr>"

definition small_stack :: read_stack where
  "small_stack = (\<lambda>a. if a = 0x40 then Some 0x90 else if a = 0x48 then Some 0x100200 else None)"


end
