(* ===== verification/X86_Analysis.thy ===== *)
theory X86_Analysis
  imports X86_Rule Instruction_Analysis
begin

text \<open>
  Prologue and epilogue detection on x86_64 machine code
  (\<^verbatim>\<open>vendor/framehop/src/x86_64/instruction_analysis/\<close>), and the semantics of the handful of
  instructions it looks for, against which the detected rules are proved: unwinding from inside
  a prologue or an epilogue gives the state that running the code to its return would give.
\<close>

section \<open>Epilogues\<close>

text \<open>
  The loop of \<open>unwind_rule_from_detected_epilogue\<close> over the bytes from the instruction pointer:
  \<open>None\<close> where the code returns \<open>None\<close>, the two counters where it breaks out. The slice indexing
  is by pattern matching, in bounds by the checks of the code. \<open>sp_offset_by_8\<close> is a \<open>u16\<close> and
  wraps.
\<close>

fun epilogue_loop_x86 :: "u8 list \<Rightarrow> u8 list \<Rightarrow> u16 \<Rightarrow> i16 option \<Rightarrow> (u16 \<times> i16 option) option" where
  "epilogue_loop_x86 slice_from_start [] sp_offset_by_8 bp_offset_by_8 = None"
| "epilogue_loop_x86 slice_from_start (byte # bytes) sp_offset_by_8 bp_offset_by_8 =
     (if byte = 0xc3 then Some (sp_offset_by_8, bp_offset_by_8)
      else if byte = 0xeb \<or> byte = 0xe9 \<or> byte = 0xff then
        (if sp_offset_by_8 \<noteq> 0 then Some (sp_offset_by_8, bp_offset_by_8)
         else if slice_from_start \<noteq> [] \<and> last slice_from_start AND 0xf8 = 0x58
         then Some (sp_offset_by_8, bp_offset_by_8)
         else None)
      else if byte = 0x5d then
        epilogue_loop_x86 slice_from_start bytes (sp_offset_by_8 + 1) (Some sp_offset_by_8)
      else if 0x58 \<le> byte \<and> byte \<le> 0x5f then
        epilogue_loop_x86 slice_from_start bytes (sp_offset_by_8 + 1) bp_offset_by_8
      else
        (case bytes of
           [] \<Rightarrow> None
         | byte1 # bytes' \<Rightarrow>
             if byte AND 0xfe = 0x40 \<and> byte1 AND 0xf8 = 0x58
             then epilogue_loop_x86 slice_from_start bytes' (sp_offset_by_8 + 1) bp_offset_by_8
             else None))"

definition epilogue_rule_x86 :: "u16 \<times> i16 option \<Rightarrow> UnwindRuleX86_64" where
  "epilogue_rule_x86 = (\<lambda>(sp_offset_by_8, bp_offset_by_8).
     if sp_offset_by_8 = 0 then JustReturn
     else case bp_offset_by_8 of
            Some bp_storage_offset_from_sp_by_8 \<Rightarrow>
              OffsetSpAndRestoreBp (sp_offset_by_8 + 1) bp_storage_offset_from_sp_by_8
          | None \<Rightarrow> OffsetSp (sp_offset_by_8 + 1))"

definition unwind_rule_from_detected_epilogue_x86 :: "UnwindRuleX86_64 analysis" where
  "unwind_rule_from_detected_epilogue_x86 text_bytes pc_offset =
     map_option (\<lambda>(slice_from_start, slice_to_end).
         map_option epilogue_rule_x86 (epilogue_loop_x86 slice_from_start slice_to_end 0 None))
       (split_at text_bytes pc_offset)"

section \<open>Prologues\<close>

definition is_next_instruction_expected_in_prologue :: "u8 list \<Rightarrow> bool" where
  "is_next_instruction_expected_in_prologue bytes =
     (if length bytes < 4 then False
      else if bytes ! 0 AND 0xf8 = 0x50 then True
      else if bytes ! 0 AND 0xfe = 0x40 \<and> bytes ! 1 AND 0xf8 = 0x50 then True
      else if take 2 bytes = [0x83, 0xec] then True
      else if take 3 bytes = [0x48, 0x83, 0xec] then True
      else if take 2 bytes = [0x81, 0xec] then True
      else if take 3 bytes = [0x48, 0x81, 0xec] then True
      else if take 3 bytes = [0x48, 0x89, 0xe5] then True
      else False)"

text \<open>The backwards walk; \<open>cursor\<close> starts at the length of the slice and only decreases.\<close>

fun prologue_loop_x86 :: "u8 list \<Rightarrow> nat \<Rightarrow> u16 \<Rightarrow> UnwindRuleX86_64" where
  "prologue_loop_x86 slice_from_start cursor sp_offset_by_8 =
     (if cursor \<ge> 4 \<and> take 4 (drop (cursor - 4) slice_from_start) = [0x55, 0x48, 0x89, 0xe5]
      then UseFramePointer
      else if cursor \<ge> 1 \<and> slice_from_start ! (cursor - 1) AND 0xf8 = 0x50 then
        (if cursor - 1 \<ge> 1 \<and> slice_from_start ! (cursor - 1 - 1) AND 0xfe = 0x40
         then prologue_loop_x86 slice_from_start (cursor - 1 - 1) (sp_offset_by_8 + 1)
         else prologue_loop_x86 slice_from_start (cursor - 1) (sp_offset_by_8 + 1))
      else OffsetSp (sp_offset_by_8 + 1))"

declare prologue_loop_x86.simps [simp del]

definition unwind_rule_from_detected_prologue_x86 :: "UnwindRuleX86_64 analysis" where
  "unwind_rule_from_detected_prologue_x86 text_bytes pc_offset =
     map_option (\<lambda>(slice_from_start, slice_to_end).
         if \<not> is_next_instruction_expected_in_prologue slice_to_end then None
         else Some (prologue_loop_x86 slice_from_start (length slice_from_start) 0))
       (split_at text_bytes pc_offset)"

definition rule_from_instruction_analysis_x86 :: "UnwindRuleX86_64 analysis" where
  "rule_from_instruction_analysis_x86 =
     rule_from_instruction_analysis unwind_rule_from_detected_prologue_x86
       unwind_rule_from_detected_epilogue_x86"

lemma prologue_loop_x86_wf: "rule_wf_x86 (prologue_loop_x86 s c k)"
  by (induction s c k rule: prologue_loop_x86.induct) (simp add: prologue_loop_x86.simps)

lemma epilogue_rule_x86_wf: "rule_wf_x86 (epilogue_rule_x86 r)"
  by (auto simp: epilogue_rule_x86_def split: prod.splits option.splits)

interpretation x86_analysis: instruction_analysis unwind_rule_from_detected_prologue_x86
  unwind_rule_from_detected_epilogue_x86 rule_wf_x86
  by unfold_locales
    (auto simp: unwind_rule_from_detected_prologue_x86_def unwind_rule_from_detected_epilogue_x86_def
      split_at_None_iff prologue_loop_x86_wf epilogue_rule_x86_wf split: prod.splits if_splits)

section \<open>Reference semantics of the instructions\<close>

text \<open>
  The instructions of prologues and epilogues, their encodings (a \<open>REX.B\<close> prefix for
  \<open>r8\<close> to \<open>r15\<close>) and their effect on the registers and on memory.
\<close>

datatype X86Instr = IPush Reg | IPop Reg | IMovRbpRsp | IRet

fun hw_number :: "Reg \<Rightarrow> u8" where
  "hw_number RAX = 0" | "hw_number RCX = 1" | "hw_number RDX = 2" | "hw_number RBX = 3"
| "hw_number RSP = 4" | "hw_number RBP = 5" | "hw_number RSI = 6" | "hw_number RDI = 7"
| "hw_number R8 = 0" | "hw_number R9 = 1" | "hw_number R10 = 2" | "hw_number R11 = 3"
| "hw_number R12 = 4" | "hw_number R13 = 5" | "hw_number R14 = 6" | "hw_number R15 = 7"

definition rex_b :: "Reg \<Rightarrow> bool" where
  "rex_b reg = (reg \<ge> R8)"

fun instr_bytes :: "X86Instr \<Rightarrow> u8 list" where
  "instr_bytes (IPush reg) = (if rex_b reg then [0x41, 0x50 + hw_number reg] else [0x50 + hw_number reg])"
| "instr_bytes (IPop reg) = (if rex_b reg then [0x41, 0x58 + hw_number reg] else [0x58 + hw_number reg])"
| "instr_bytes IMovRbpRsp = [0x48, 0x89, 0xe5]"
| "instr_bytes IRet = [0xc3]"

definition code_bytes :: "X86Instr list \<Rightarrow> u8 list" where
  "code_bytes = (\<lambda>is. concat (map instr_bytes is))"

type_synonym x86_state = "UnwindRegsX86_64 \<times> read_stack"

fun instr_step :: "X86Instr \<Rightarrow> x86_state \<Rightarrow> x86_state option" where
  "instr_step (IPush reg) (regs, mem) =
     (let sp = x86_sp regs - 8 in Some (x86_set_sp sp regs, mem(sp \<mapsto> x86_get regs reg)))"
| "instr_step (IPop reg) (regs, mem) =
     map_option (\<lambda>v. (x86_set reg v (x86_set_sp (x86_sp regs + 8) regs), mem)) (mem (x86_sp regs))"
| "instr_step IMovRbpRsp (regs, mem) = Some (x86_set_bp (x86_sp regs) regs, mem)"
| "instr_step IRet (regs, mem) =
     map_option (\<lambda>v. (x86_set_ip v (x86_set_sp (x86_sp regs + 8) regs), mem)) (mem (x86_sp regs))"

fun run_code :: "X86Instr list \<Rightarrow> x86_state \<Rightarrow> x86_state option" where
  "run_code [] s = Some s"
| "run_code (i # prog) s = Option.bind (instr_step i s) (run_code prog)"

lemma run_code_append: "run_code (prog @ js) s = Option.bind (run_code prog s) (run_code js)"
proof (induction prog arbitrary: s)
  case (Cons i prog)
  then show ?case by (cases "instr_step i s") simp_all
qed simp

lemma code_bytes_simps [simp]:
  "code_bytes [] = []" "code_bytes (i # is) = instr_bytes i @ code_bytes is"
  "code_bytes (is @ js) = code_bytes is @ code_bytes js"
  by (simp_all add: code_bytes_def)

section \<open>What the detectors see\<close>

text \<open>Every pop is recognised, and only \<open>rbp\<close> is recorded: the last one popped counts.\<close>

fun bp_index :: "Reg list \<Rightarrow> nat option" where
  "bp_index [] = None"
| "bp_index (reg # regs) =
     (case bp_index regs of
        Some k \<Rightarrow> Some (Suc k)
      | None \<Rightarrow> if reg = RBP then Some 0 else None)"

lemma bp_index_less: "bp_index regs = Some k \<Longrightarrow> k < length regs"
  by (induction regs arbitrary: k) (auto split: option.splits if_splits)

lemma epilogue_loop_pop:
  "epilogue_loop_x86 pre (instr_bytes (IPop reg) @ bytes) sp bp =
     epilogue_loop_x86 pre bytes (sp + 1) (if reg = RBP then Some sp else bp)"
  by (cases reg) (simp_all add: rex_b_def less_eq_Reg_def)

lemma epilogue_loop_pops:
  "epilogue_loop_x86 pre (code_bytes (map IPop regs) @ bytes) sp bp =
     epilogue_loop_x86 pre bytes (sp + of_nat (length regs))
       (case bp_index regs of Some k \<Rightarrow> Some (sp + of_nat k) | None \<Rightarrow> bp)"
proof (induction regs arbitrary: sp bp)
  case (Cons reg regs)
  then show ?case
    by (simp add: epilogue_loop_pop add.assoc del: instr_bytes.simps split: option.splits)
qed simp

lemma not_expected_in_prologue:
  "byte \<in> {0xc3, 0xeb, 0xe9, 0xff} \<Longrightarrow>
     \<not> is_next_instruction_expected_in_prologue (byte # bytes)"
  by (elim insertE emptyE; cases bytes)
    (simp_all add: is_next_instruction_expected_in_prologue_def)

lemma pop_not_expected_in_prologue:
  "\<not> is_next_instruction_expected_in_prologue (instr_bytes (IPop reg) @ bytes)"
  by (cases reg; simp add: rex_b_def less_eq_Reg_def is_next_instruction_expected_in_prologue_def)

lemma last_of_four:
  assumes "4 \<le> c" "c \<le> length s" "take 4 (drop (c - 4) s) = [b0, b1, b2, b3]"
  shows "s ! (c - 1) = b3"
proof -
  have "take 4 (drop (c - 4) s) ! 3 = s ! (c - 1)" using assms(1,2) by (simp add: nth_drop)
  with assms(3) show ?thesis by (simp add: eval_nat_numeral)
qed

text \<open>A push before the cursor is stepped over, whatever follows it.\<close>

lemma prologue_loop_push:
  assumes "s = xs @ instr_bytes (IPush reg) @ ys" "c = length xs + length (instr_bytes (IPush reg))"
    and "rex_b reg \<or> xs = [] \<or> last xs AND 0xfe \<noteq> 0x40"
  shows "prologue_loop_x86 s c k = prologue_loop_x86 s (length xs) (k + 1)"
proof -
  have l: "s ! (c - 1) = 0x50 + hw_number reg"
    using assms(1,2) by (simp add: nth_append)
  have "(0x50 + hw_number reg) AND 0xf8 = 0x50" "0x50 + hw_number reg \<noteq> 0xe5"
    by (cases reg; simp)+
  moreover have "take 4 (drop (c - 4) s) = [0x55, 0x48, 0x89, 0xe5] \<Longrightarrow> c \<ge> 4 \<Longrightarrow> s ! (c - 1) = 0xe5"
    using last_of_four [of c s] assms(1,2) by simp
  moreover have "c \<ge> 1" using assms(2) by simp
  moreover have "(if c - 1 \<ge> 1 \<and> s ! (c - 1 - 1) AND 0xfe = 0x40 then c - 1 - 1 else c - 1) = length xs"
    using assms by (cases xs rule: rev_cases) (auto simp: nth_append)
  ultimately show ?thesis using l
    by (subst prologue_loop_x86.simps) (auto split: if_splits)
qed

lemma push_bytes_last: "last (instr_bytes (IPush reg)) AND 0xfe \<noteq> 0x40"
  by (cases reg) (simp_all add: rex_b_def less_eq_Reg_def)

lemma prologue_loop_pushes:
  assumes "s = pre @ code_bytes (map IPush regs) @ ys" "pre = [] \<or> last pre AND 0xfe \<noteq> 0x40"
  shows "prologue_loop_x86 s (length pre + length (code_bytes (map IPush regs))) k =
    prologue_loop_x86 s (length pre) (k + of_nat (length regs))"
  using assms(1)
proof (induction regs arbitrary: ys k rule: rev_induct)
  case (snoc reg regs)
  define xs where "xs = pre @ code_bytes (map IPush regs)"
  have "xs = [] \<or> last xs AND 0xfe \<noteq> 0x40"
  proof (cases regs rule: rev_cases)
    case Nil
    then show ?thesis using assms(2) by (simp add: xs_def)
  next
    case (snoc regs' r)
    have "instr_bytes (IPush r) \<noteq> []" by simp
    then have "last xs = last (instr_bytes (IPush r))"
      using snoc by (simp add: xs_def del: instr_bytes.simps)
    then show ?thesis by (metis push_bytes_last)
  qed
  moreover have "s = xs @ instr_bytes (IPush reg) @ ys"
    using snoc.prems by (simp add: xs_def del: instr_bytes.simps)
  ultimately have "prologue_loop_x86 s (length xs + length (instr_bytes (IPush reg))) k =
      prologue_loop_x86 s (length xs) (k + 1)"
    by (intro prologue_loop_push) auto
  also have "length xs = length pre + length (code_bytes (map IPush regs))" by (simp add: xs_def)
  finally show ?case
    using snoc.IH [of "instr_bytes (IPush reg) @ ys" "k + 1"] snoc.prems
    by (simp add: xs_def add.assoc del: instr_bytes.simps)
qed simp

text \<open>
  Bytes before a function that the backwards walk cannot take for more of its prologue: none
  at all, or a last byte that is no push, no prefix of one and no end of \<open>mov rbp, rsp\<close>.
\<close>

definition function_boundary :: "u8 list \<Rightarrow> bool" where
  "function_boundary pre \<longleftrightarrow>
     pre = [] \<or> last pre AND 0xf8 \<noteq> 0x50 \<and> last pre AND 0xfe \<noteq> 0x40 \<and> last pre \<noteq> 0xe5"

lemma prologue_loop_boundary:
  assumes "function_boundary pre"
  shows "prologue_loop_x86 (pre @ ys) (length pre) k = OffsetSp (k + 1)"
proof (cases pre rule: rev_cases)
  case (snoc xs b)
  have "\<not> (length pre \<ge> 4 \<and> take 4 (drop (length pre - 4) (pre @ ys)) = [0x55, 0x48, 0x89, 0xe5])"
    using last_of_four [of "length pre" "pre @ ys"] snoc assms by (auto simp: function_boundary_def)
  moreover have "(pre @ ys) ! (length pre - 1) = b" using snoc by simp
  ultimately show ?thesis using snoc assms
    by (subst prologue_loop_x86.simps) (simp add: function_boundary_def)
qed (simp add: prologue_loop_x86.simps)

lemma prologue_loop_frame_pointer:
  "prologue_loop_x86 ((pre @ [0x55, 0x48, 0x89, 0xe5]) @ ys) (Suc (Suc (Suc (Suc (length pre))))) k =
     UseFramePointer"
  by (subst prologue_loop_x86.simps) (simp add: eval_nat_numeral)

section \<open>What the machine does\<close>

lemma x86_sp_bp_set_reg:
  "x86_sp (x86_set reg v r) = (if reg = RSP then v else x86_sp r)"
  "x86_bp (x86_set reg v r) = (if reg = RBP then v else x86_bp r)"
  by (simp_all add: x86_sp_def x86_bp_def)

lemma run_pushes:
  assumes "run_code (map IPush regs) (r, mem) = Some (r', mem')" "8 * length regs \<le> unat (x86_sp r)"
  shows "x86_sp r' = x86_sp r - 8 * of_nat (length regs)" "x86_bp r' = x86_bp r"
    "unat (x86_sp r) \<le> unat a \<Longrightarrow> mem' a = mem a"
proof -
  have "x86_sp r' = x86_sp r - 8 * of_nat (length regs) \<and> x86_bp r' = x86_bp r \<and>
      (\<forall>a. unat (x86_sp r) \<le> unat a \<longrightarrow> mem' a = mem a)"
    using assms
  proof (induction regs arbitrary: r mem)
    case (Cons reg regs)
    define r1 where "r1 = x86_set_sp (x86_sp r - 8) r"
    define mem1 where "mem1 = mem(x86_sp r - 8 \<mapsto> x86_get r reg)"
    have "8 \<le> x86_sp r" using Cons.prems(2) by (simp add: word_le_nat_alt)
    then have u: "unat (x86_sp r1) = unat (x86_sp r) - 8"
      by (simp add: r1_def unat_sub_no_underflow)
    have "run_code (map IPush regs) (r1, mem1) = Some (r', mem')"
      using Cons.prems(1) by (simp add: r1_def mem1_def Let_def)
    then have IH: "x86_sp r' = x86_sp r1 - 8 * of_nat (length regs)" "x86_bp r' = x86_bp r1"
        "\<And>a. unat (x86_sp r1) \<le> unat a \<Longrightarrow> mem' a = mem1 a"
      using Cons.IH [of r1 mem1] u Cons.prems(2) by auto
    have "mem' a = mem a" if "unat (x86_sp r) \<le> unat a" for a
      using IH(3) [of a] that u \<open>8 \<le> x86_sp r\<close> by (auto simp: mem1_def r1_def word_le_nat_alt)
    with IH(1,2) show ?case by (simp add: r1_def algebra_simps)
  qed auto
  then show "x86_sp r' = x86_sp r - 8 * of_nat (length regs)" "x86_bp r' = x86_bp r"
    "unat (x86_sp r) \<le> unat a \<Longrightarrow> mem' a = mem a" by blast+
qed

lemma run_pops:
  assumes "run_code (map IPop regs) (r, mem) = Some (r', mem')" "RSP \<notin> set regs"
  shows "mem' = mem \<and> x86_sp r' = x86_sp r + 8 * of_nat (length regs) \<and>
    (case bp_index regs of
       None \<Rightarrow> x86_bp r' = x86_bp r
     | Some k \<Rightarrow> mem (x86_sp r + 8 * of_nat k) = Some (x86_bp r'))"
  using assms
proof (induction regs arbitrary: r)
  case (Cons reg regs)
  then obtain v where v: "mem (x86_sp r) = Some v"
      "run_code (map IPop regs) (x86_set reg v (x86_set_sp (x86_sp r + 8) r), mem) = Some (r', mem')"
    by (auto simp: bind_eq_Some_conv)
  with Cons.IH [OF v(2)] Cons.prems(2) show ?case
    by (auto simp: x86_sp_set_other x86_bp_def x86_sp_def algebra_simps split: option.splits if_splits)
qed simp

section \<open>Properties\<close>

lemma checked_add_signed_of_nat:
  fixes sp :: u64
  assumes "unat sp + n < 2 ^ 64" "n < 2 ^ 63"
  shows "checked_add_signed sp (of_nat n) = Some (sp + of_nat n)"
proof -
  have "sint (of_nat n :: u64) = int n"
    using assms(2) by (simp add: signed_of_nat signed_take_bit_int_eq_self)
  then show ?thesis using checked_add_of_nat(2) [OF assms(1)]
    by (simp add: checked_add_signed_def wrapping_add_signed_def word_le_nat_alt Let_def)
qed

lemma exec_x86_SomeI:
  assumes "rule_frame_x86 rule f regs read = (Inr (Some (new_sp, new_bp)), regs)"
    "read (new_sp - 8) = Some ra" "ra \<noteq> 0" "new_sp \<noteq> x86_sp regs"
  shows "exec_x86 rule f regs read =
    (Inr (Some ra), x86_set_bp new_bp (x86_set_sp new_sp (x86_set_ip ra regs)))"
  using assms by (auto simp: exec_x86_Some_iff)

text \<open>The rule the epilogue detector builds for \<open>n\<close> pops, executed at a readable stack.\<close>

lemma exec_epilogue_rule:
  assumes room: "unat (x86_sp regs) + 8 * (n + 1) < 2 ^ 64" and n: "n < 2 ^ 15"
    and ra: "mem (x86_sp regs + 8 * of_nat n) = Some ra" "ra \<noteq> 0"
    and bp: "case k of None \<Rightarrow> bp = x86_bp regs
      | Some k \<Rightarrow> k < n \<and> mem (x86_sp regs + 8 * of_nat k) = Some bp"
  shows "exec_x86 (epilogue_rule_x86 (of_nat n, map_option of_nat k)) True regs mem =
    (Inr (Some ra), x86_set_bp bp (x86_set_sp (x86_sp regs + 8 * of_nat (n + 1)) (x86_set_ip ra regs)))"
proof (rule exec_x86_SomeI)
  have off: "ucast (of_nat n + 1 :: u16) * 8 = (of_nat (8 * (n + 1)) :: u64)"
    using ucast_of_nat_u16 [of "n + 1"] n by (simp add: algebra_simps)
  have z: "(of_nat n :: u16) = 0 \<longleftrightarrow> n = 0" using n by (intro of_nat_eq_0_small) simp
  note add = checked_add_of_nat [OF room]
  show "rule_frame_x86 (epilogue_rule_x86 (of_nat n, map_option of_nat k)) True regs mem =
      (Inr (Some (x86_sp regs + 8 * of_nat (n + 1), bp)), regs)"
  proof (cases k)
    case None
    with bp off add(1) z show ?thesis
      by (cases "n = 0") (simp_all add: epilogue_rule_x86_def offset_sp_x86_def algebra_simps)
  next
    case (Some j)
    then have "(scast (of_nat j :: i16) :: i64) * 8 = of_nat (8 * j)" "n \<noteq> 0"
      using scast_of_nat_i16 [of j] bp n by simp_all
    moreover have "checked_add_signed (x86_sp regs) (of_nat (8 * j)) = Some (x86_sp regs + of_nat (8 * j))"
      using Some bp room n by (intro checked_add_signed_of_nat) auto
    ultimately show ?thesis using Some bp off add(1) z
      by (simp add: epilogue_rule_x86_def Let_def)
  qed
  show "mem (x86_sp regs + 8 * of_nat (n + 1) - 8) = Some ra"
    using ra(1) by (simp add: algebra_simps)
  show "x86_sp regs + 8 * of_nat (n + 1) \<noteq> x86_sp regs"
    using add(2) by (auto simp: algebra_simps)
qed (fact ra)

lemma epilogue_rule_recovers_x86:
  assumes run: "run_code (map IPop regs @ [IRet]) (r, mem) = Some (r', mem')"
    and pops: "RSP \<notin> set regs" "length regs < 2 ^ 15"
    and room: "unat (x86_sp r) + 8 * (length regs + 1) < 2 ^ 64" and ra: "x86_ip r' \<noteq> 0"
    and last: "byte = 0xc3 \<or> byte \<in> {0xeb, 0xe9, 0xff} \<and> regs \<noteq> []"
  shows "\<exists>rule. rule_from_instruction_analysis_x86
      (pre @ code_bytes (map IPop regs) @ byte # post) (length pre) = Some (Some rule) \<and>
    (\<exists>r''. exec_x86 rule True r mem = (Inr (Some (x86_ip r')), r'') \<and>
       x86_sp r'' = x86_sp r' \<and> x86_bp r'' = x86_bp r')"
proof -
  define n where "n = length regs"
  define code where "code = pre @ code_bytes (map IPop regs) @ byte # post"
  define rule where "rule = epilogue_rule_x86 (of_nat n, map_option of_nat (bp_index regs))"
  obtain r1 where r1: "run_code (map IPop regs) (r, mem) = Some (r1, mem)"
      "mem (x86_sp r1) = Some (x86_ip r')" "x86_sp r' = x86_sp r1 + 8" "x86_bp r' = x86_bp r1"
    using run run_pops [of regs r mem _ _, OF _ pops(1)]
    by (fastforce simp: run_code_append bind_eq_Some_conv)
  note m = run_pops [OF r1(1) pops(1)]
  have "epilogue_loop_x86 pre (code_bytes (map IPop regs) @ byte # post) 0 None =
      Some (of_nat n, map_option of_nat (bp_index regs))"
    using last pops(2) of_nat_eq_0_small [of n, where 'a = 16]
    unfolding epilogue_loop_pops by (auto simp: n_def split: option.splits)
  then have "unwind_rule_from_detected_epilogue_x86 code (length pre) = Some (Some rule)"
    by (simp add: unwind_rule_from_detected_epilogue_x86_def code_def rule_def)
  moreover have "unwind_rule_from_detected_prologue_x86 code (length pre) = Some None"
    using last not_expected_in_prologue [of byte post] pop_not_expected_in_prologue
    by (cases regs) (auto simp: unwind_rule_from_detected_prologue_x86_def code_def
        simp del: instr_bytes.simps)
  ultimately have "rule_from_instruction_analysis_x86 code (length pre) = Some (Some rule)"
    by (simp add: rule_from_instruction_analysis_x86_def analysis_epilogue)
  moreover have "exec_x86 rule True r mem = (Inr (Some (x86_ip r')), x86_set_bp (x86_bp r')
      (x86_set_sp (x86_sp r + 8 * of_nat (n + 1)) (x86_set_ip (x86_ip r') r)))"
    unfolding rule_def
  proof (rule exec_epilogue_rule)
    show "case bp_index regs of None \<Rightarrow> x86_bp r' = x86_bp r
      | Some k \<Rightarrow> k < n \<and> mem (x86_sp r + 8 * of_nat k) = Some (x86_bp r')"
      using m r1(4) bp_index_less by (auto simp: n_def split: option.splits)
  qed (use assms m r1 in \<open>simp_all add: n_def\<close>)
  ultimately show ?thesis unfolding code_def [symmetric] using m r1
    by (intro exI [of _ rule] conjI) (auto simp: n_def algebra_simps)
qed

text \<open>
  C16: unwinding from an epilogue: when the bytes at the instruction pointer are pops (of
  registers other than the stack pointer) followed by a \<open>ret\<close>, or by a jump if at least one pop
  comes before it, the analysis recognises the epilogue wherever it starts in the function, and
  executing its rule gives the return address, stack pointer and frame pointer that the machine
  has after running the remaining pops and returning.
\<close>

theorem epilogue_analysis_sound_x86:
  assumes run: "run_code (map IPop regs @ [IRet]) (r, mem) = Some (r', mem')"
    and pops: "RSP \<notin> set regs" "length regs < 2 ^ 15"
    and room: "unat (x86_sp r) + 8 * (length regs + 1) < 2 ^ 64" and ra: "x86_ip r' \<noteq> 0"
    and last: "byte = 0xc3 \<or> byte \<in> {0xeb, 0xe9, 0xff} \<and> regs \<noteq> []"
  shows "\<exists>rule. rule_from_instruction_analysis_x86
      (pre @ code_bytes (map IPop regs) @ byte # post) (length pre) = Some (Some rule) \<and>
    (\<exists>r''. exec_x86 rule True r mem = (Inr (Some (x86_ip r')), r'') \<and>
       x86_sp r'' = x86_sp r' \<and> x86_bp r'' = x86_bp r')"
  using assms by (rule epilogue_rule_recovers_x86)

definition epilogue_stack :: read_stack where
  "epilogue_stack = (\<lambda>a. if a = 0x100 then Some 1 else if a = 0x108 then Some 0x200
     else if a = 0x110 then Some 0x401000 else None)"

theorem epilogue_analysis_sound_x86_witness:
  "\<exists>rule. rule_from_instruction_analysis_x86 [0x90, 0x41, 0x5e, 0x5d, 0xc3] 1 = Some (Some rule) \<and>
    (\<exists>r''. exec_x86 rule True (x86_new 0x400010 0x100 7) epilogue_stack = (Inr (Some 0x401000), r'') \<and>
       x86_sp r'' = 0x118 \<and> x86_bp r'' = 0x200)"
proof -
  define r :: UnwindRegsX86_64 where "r = x86_new 0x400010 0x100 7"
  define r' where "r' = x86_set_ip 0x401000 (x86_set_sp 0x118 (x86_set RBP 0x200 (x86_set_sp 0x110
    (x86_set R14 1 (x86_set_sp 0x108 r)))))"
  have "run_code (map IPop [R14, RBP] @ [IRet]) (r, epilogue_stack) = Some (r', epilogue_stack)"
    by (simp add: r_def r'_def epilogue_stack_def x86_sp_bp_set_reg)
  then have "\<exists>rule. rule_from_instruction_analysis_x86
      ([0x90] @ code_bytes (map IPop [R14, RBP]) @ 0xc3 # []) (length [0x90 :: u8]) = Some (Some rule) \<and>
    (\<exists>r''. exec_x86 rule True r epilogue_stack = (Inr (Some (x86_ip r')), r'') \<and>
       x86_sp r'' = x86_sp r' \<and> x86_bp r'' = x86_bp r')"
    by (rule epilogue_analysis_sound_x86) (simp_all add: r_def r'_def)
  then show ?thesis by (simp add: r_def r'_def x86_sp_bp_set_reg rex_b_def less_eq_Reg_def)
qed

text \<open>The stack as it was on entry is above everything the prologue has pushed.\<close>

lemma run_pushes_unat:
  assumes "run_code (map IPush regs) (r, mem) = Some (r', mem')" "8 * length regs \<le> unat (x86_sp r)"
  shows "unat (x86_sp r') = unat (x86_sp r) - 8 * length regs"
proof -
  have "8 * length regs < 2 ^ LENGTH(64)"
    using assms(2) unsigned_less [where 'a = nat, of "x86_sp r"] by simp
  then have u: "unat (of_nat (8 * length regs) :: u64) = 8 * length regs" by (rule unat_of_nat_small)
  then have "(of_nat (8 * length regs) :: u64) \<le> x86_sp r" using assms(2) by (simp only: word_le_nat_alt)
  from unat_sub_no_underflow [OF this] u run_pushes(1) [OF assms] show ?thesis by simp
qed

lemma exec_after_pushes:
  assumes run: "run_code (map IPush regs) (r0, mem0) = Some (r, mem)"
    and ra: "mem0 (x86_sp r0) = Some ra" "ra \<noteq> 0"
    and room: "8 * length regs \<le> unat (x86_sp r0)" "unat (x86_sp r0) + 8 < 2 ^ 64"
      "length regs + 1 < 2 ^ 16"
  shows "exec_x86 (OffsetSp (of_nat (length regs) + 1)) True r mem =
    (Inr (Some ra), x86_set_bp (x86_bp r0) (x86_set_sp (x86_sp r0 + 8) (x86_set_ip ra r)))"
proof (rule exec_x86_SomeI)
  define n where "n = length regs"
  note m = run_pushes [OF run room(1)]
  have u: "unat (x86_sp r) + 8 * (n + 1) = unat (x86_sp r0) + 8"
    using run_pushes_unat [OF run room(1)] room(1) by (simp add: n_def)
  have sp: "x86_sp r + of_nat (8 * (n + 1)) = x86_sp r0 + 8"
    using m(1) by (simp add: n_def algebra_simps)
  have "ucast (of_nat n + 1 :: u16) * 8 = (of_nat (8 * (n + 1)) :: u64)"
    using ucast_of_nat_u16 [of "n + 1"] room(3) by (simp add: n_def algebra_simps)
  moreover have "checked_add (x86_sp r) (of_nat (8 * (n + 1))) = Some (x86_sp r0 + 8)"
    using checked_add_of_nat(1) [of "x86_sp r" "8 * (n + 1)"] u room(2) sp by simp
  ultimately show "rule_frame_x86 (OffsetSp (of_nat (length regs) + 1)) True r mem =
      (Inr (Some (x86_sp r0 + 8, x86_bp r0)), r)"
    using m(2) by (simp add: n_def offset_sp_x86_def)
  show "mem (x86_sp r0 + 8 - 8) = Some ra" using m(3) [of "x86_sp r0"] ra(1) by simp
  have "unat (x86_sp r) < unat (x86_sp r0 + 8)"
    using u room(2) by (simp add: unat_add_no_overflow)
  then show "x86_sp r0 + 8 \<noteq> x86_sp r" by auto
qed (fact ra)

lemma exec_after_frame_pointer:
  assumes run: "run_code (IPush RBP # IMovRbpRsp # map IPush regs) (r0, mem0) = Some (r, mem)"
    and ra: "mem0 (x86_sp r0) = Some ra" "ra \<noteq> 0"
    and room: "8 * (length regs + 1) < unat (x86_sp r0)" "unat (x86_sp r0) + 8 < 2 ^ 64"
  shows "exec_x86 UseFramePointer True r mem =
    (Inr (Some ra), x86_set_bp (x86_bp r0) (x86_set_sp (x86_sp r0 + 8) (x86_set_ip ra r)))"
proof -
  define fp where "fp = x86_sp r0 - 8"
  define r1 where "r1 = x86_set_bp fp (x86_set_sp fp r0)"
  define mem1 where "mem1 = mem0(fp \<mapsto> x86_bp r0)"
  have fp: "unat fp = unat (x86_sp r0) - 8" "fp + 16 = x86_sp r0 + 8" "fp + 8 = x86_sp r0"
    using room(1) by (simp_all add: fp_def unat_sub_no_underflow word_le_nat_alt)
  have run1: "run_code (map IPush regs) (r1, mem1) = Some (r, mem)"
    using run by (simp add: r1_def mem1_def fp_def Let_def x86_bp_def)
  have room1: "8 * length regs \<le> unat (x86_sp r1)" using room(1) fp(1) by (simp add: r1_def)
  note m = run_pushes [OF run1 room1]
  have bp: "x86_bp r = fp" using m(2) by (simp add: r1_def)
  have "mem fp = Some (x86_bp r0)" "mem (fp + 8) = Some ra"
    using m(3) [of fp] m(3) [of "x86_sp r0"] ra(1) fp(1,3) room(1)
    by (auto simp: r1_def mem1_def)
  moreover have "unat (x86_sp r) < unat (x86_sp r0 + 8)"
    using run_pushes_unat [OF run1 room1] fp(1) room by (simp add: r1_def unat_add_no_overflow)
  then have "x86_sp r < fp + 16" unfolding fp(2) by (simp only: word_less_nat_alt)
  moreover have "fp \<noteq> 0" using fp(1) room(1) by auto
  ultimately show ?thesis
    using exec_x86_use_frame_pointer [of r mem "x86_bp r0" ra True] ra(2) bp fp(1,2) room
    by (simp add: r1_def)
qed

text \<open>
  C17: unwinding from a prologue: a function whose first instructions are pushes, or
  \<open>push rbp; mov rbp, rsp\<close> and then pushes, is entered with its return address on top of the
  stack. When those instructions have been executed and the next one is one the detector expects
  in a prologue, the analysis finds a rule whose execution returns to that address with the
  caller's stack and frame pointer.
\<close>

theorem prologue_analysis_sound_x86:
  assumes run: "run_code prog (r0, mem0) = Some (r, mem)"
    and shape: "prog = map IPush regs \<or> prog = IPush RBP # IMovRbpRsp # map IPush regs"
    and expected: "is_next_instruction_expected_in_prologue post" and pre: "function_boundary pre"
    and ra: "mem0 (x86_sp r0) = Some ra" "ra \<noteq> 0"
    and room: "8 * (length regs + 1) < unat (x86_sp r0)" "unat (x86_sp r0) + 8 < 2 ^ 64"
      "length regs + 1 < 2 ^ 16"
  shows "\<exists>rule. rule_from_instruction_analysis_x86
      (pre @ code_bytes prog @ post) (length (pre @ code_bytes prog)) = Some (Some rule) \<and>
    (\<exists>r'. exec_x86 rule True r mem = (Inr (Some ra), r') \<and>
       x86_sp r' = x86_sp r0 + 8 \<and> x86_bp r' = x86_bp r0)"
proof -
  define rule where
    "rule = prologue_loop_x86 (pre @ code_bytes prog) (length (pre @ code_bytes prog)) 0"
  have "rule_from_instruction_analysis_x86 ((pre @ code_bytes prog) @ post) (length (pre @ code_bytes prog))
      = Some (Some rule)"
    unfolding rule_from_instruction_analysis_x86_def
    by (rule analysis_prologue)
      (simp only: unwind_rule_from_detected_prologue_x86_def split_at_append option.map
        prod.case expected not_True_eq_False if_False rule_def)
  moreover have "\<exists>r'. exec_x86 rule True r mem = (Inr (Some ra), r') \<and>
      x86_sp r' = x86_sp r0 + 8 \<and> x86_bp r' = x86_bp r0"
    using shape
  proof
    assume prog: "prog = map IPush regs"
    have "rule = OffsetSp (of_nat (length regs) + 1)"
      using prologue_loop_pushes [of "pre @ code_bytes prog" pre regs "[]" 0] pre prog
        prologue_loop_boundary [OF pre, of "code_bytes prog" "of_nat (length regs)"]
      by (auto simp: rule_def function_boundary_def)
    with exec_after_pushes [OF run [unfolded prog] ra _ room(2,3)] room(1) show ?thesis by simp
  next
    assume prog: "prog = IPush RBP # IMovRbpRsp # map IPush regs"
    have "rule = UseFramePointer"
      using prologue_loop_pushes [of _ "pre @ [0x55, 0x48, 0x89, 0xe5]" regs "[]" 0] prog
        prologue_loop_frame_pointer [of pre "code_bytes (map IPush regs)"]
      by (simp add: rule_def rex_b_def less_eq_Reg_def add.assoc [symmetric])
    with exec_after_frame_pointer [OF run [unfolded prog] ra room(1,2)] show ?thesis by simp
  qed
  ultimately show ?thesis by (intro exI [of _ rule]) simp
qed

theorem prologue_analysis_sound_x86_witness:
  "\<exists>rule. rule_from_instruction_analysis_x86 [0x41, 0x57, 0x53, 0x48, 0x83, 0xec, 0x18] 3 = Some (Some rule) \<and>
    (\<exists>r'. exec_x86 rule True (x86_set_sp 0xf0 (x86_set_sp 0xf8 (x86_new 0x400010 0x100 7)))
         [0x100 \<mapsto> 0x401000, 0xf8 \<mapsto> 0, 0xf0 \<mapsto> 0] = (Inr (Some 0x401000), r') \<and>
       x86_sp r' = 0x108 \<and> x86_bp r' = 7)"
proof -
  define r0 :: UnwindRegsX86_64 where "r0 = x86_new 0x400010 0x100 7"
  define prog where "prog = [IPush R15, IPush RBX]"
  have "x86_get r0 reg = 0" if "reg \<noteq> RSP" "reg \<noteq> RBP" for reg
    using that by (simp add: r0_def x86_new_def x86_get_def [of "\<lparr>x86_ip = _, x86_regs = _\<rparr>"])
  then have "run_code prog (r0, [0x100 \<mapsto> 0x401000]) =
      Some (x86_set_sp 0xf0 (x86_set_sp 0xf8 r0), [0x100 \<mapsto> 0x401000, 0xf8 \<mapsto> 0, 0xf0 \<mapsto> 0])"
    by (simp add: prog_def Let_def) (simp add: r0_def)
  then have "\<exists>rule. rule_from_instruction_analysis_x86
      ([] @ code_bytes prog @ [0x48, 0x83, 0xec, 0x18]) (length ([] @ code_bytes prog)) = Some (Some rule) \<and>
    (\<exists>r'. exec_x86 rule True (x86_set_sp 0xf0 (x86_set_sp 0xf8 r0))
       [0x100 \<mapsto> 0x401000, 0xf8 \<mapsto> 0, 0xf0 \<mapsto> 0] = (Inr (Some 0x401000), r') \<and>
       x86_sp r' = x86_sp r0 + 8 \<and> x86_bp r' = x86_bp r0)"
    by (rule prologue_analysis_sound_x86 [where regs = "[R15, RBX]"])
      (simp_all add: prog_def r0_def function_boundary_def is_next_instruction_expected_in_prologue_def)
  then show ?thesis by (simp add: r0_def prog_def rex_b_def less_eq_Reg_def numeral_3_eq_3)
qed

text \<open>
  The jump test of the epilogue detector also accepts other instructions that share the
  opcode byte \<open>0xff\<close>: after \<open>pop rax\<close>, a \<open>call rax\<close> (\<open>ff d0\<close>) is taken for a tail call.
\<close>

lemma epilogue_takes_call_for_tail_call:
  "unwind_rule_from_detected_epilogue_x86 [0x58, 0xff, 0xd0] 0 = Some (Some (OffsetSp 2))"
  by (simp add: unwind_rule_from_detected_epilogue_x86_def split_at_def epilogue_rule_x86_def)

end
