(* ===== verification/X86_Macho.thy ===== *)
theory X86_Macho
  imports X86_Analysis Compact_Unwind
begin

text \<open>
  Compact unwind info on x86_64 (\<^verbatim>\<open>vendor/framehop/src/x86_64/macho.rs\<close>). The opcodes are those
  of the crate \<^verbatim>\<open>macho_unwind_info\<close>, with the constructors the code matches on; decoding an
  opcode and the register that stands for \<open>rbp\<close> are parameters.
\<close>

section \<open>Opcodes\<close>

text \<open>
  \<open>immediate_offset_from_function_start\<close> and \<open>stack_adjust_in_bytes\<close> are kept at the types the code
  converts them to. The fields of \<open>FrameBased\<close> are not looked at.
\<close>

datatype 'r OpcodeX86_64 =
    Null
  | FramelessImmediate u16 "'r option list" \<comment> \<open>\<open>stack_size_in_bytes\<close>, \<open>saved_regs\<close>\<close>
  | FramelessIndirect usize u32 "'r option list"
      \<comment> \<open>\<open>immediate_offset_from_function_start\<close>, \<open>stack_adjust_in_bytes\<close>, \<open>saved_regs\<close>\<close>
  | Dwarf u32 \<comment> \<open>\<open>eh_frame_fde\<close>\<close>
  | FrameBased
  | UnrecognizedKind u8
  | InvalidFramelessOpcode

record 'r OpcodeParserX86_64 =
  ox_parse :: "u32 \<Rightarrow> 'r OpcodeX86_64"
  ox_rbp :: 'r

text \<open>\<open>saved_regs.iter().rev().flatten().position(|r| *r == Rbp)\<close>.\<close>

definition bp_position_from_outside :: "'r \<Rightarrow> 'r option list \<Rightarrow> nat option" where
  "bp_position_from_outside rbp saved_regs =
     position (\<lambda>r. r = rbp) (List.map_filter id (rev saved_regs))"

text \<open>
  The end both frameless opcodes share: \<open>stack_size as i32 - 2 * 8 - pos as i32 * 8\<close> wraps, the
  division rounds towards zero and the result has to fit an \<open>i16\<close>.
\<close>

definition frameless_rule :: "'r \<Rightarrow> u32 \<Rightarrow> u16 \<Rightarrow> 'r option list \<Rightarrow>
    ('m, 'g) CompactUnwindInfoUnwinderError + UnwindRuleX86_64 CuiUnwindResult" where
  "frameless_rule rbp stack_size_in_bytes sp_offset_by_8 saved_regs =
     (case bp_position_from_outside rbp saved_regs of
        Some pos \<Rightarrow>
          let bp_offset_from_sp = (stack_size_in_bytes - 2 * 8 - of_nat pos * 8 :: i32) in
          bind_res (ok_or BpOffsetDoesNotFit (try_signed (sint bp_offset_from_sp sdiv 8)))
            (\<lambda>bp_storage_offset_from_sp_by_8.
               Inr (CuiExecRule (OffsetSpAndRestoreBp sp_offset_by_8 bp_storage_offset_from_sp_by_8)))
      | None \<Rightarrow> Inr (CuiExecRule (OffsetSp sp_offset_by_8)))"

section \<open>Unwinding a function\<close>

definition body_rule_x86 :: "'r \<Rightarrow> 'r OpcodeX86_64 \<Rightarrow> bytes option \<Rightarrow>
    ('m, 'g) CompactUnwindInfoUnwinderError + UnwindRuleX86_64 CuiUnwindResult" where
  "body_rule_x86 rbp opcode function_bytes =
     (case opcode of
        Null \<Rightarrow> Inl FunctionHasNoInfo
      | FramelessImmediate stack_size_in_bytes saved_regs \<Rightarrow>
          if stack_size_in_bytes = 8 then Inr (CuiExecRule JustReturn)
          else frameless_rule rbp (ucast stack_size_in_bytes) (stack_size_in_bytes div 8) saved_regs
      | FramelessIndirect immediate_offset stack_adjust_in_bytes saved_regs \<Rightarrow>
          bind_res (ok_or NoTextBytesToLookUpIndirectStackOffset function_bytes) (\<lambda>bs.
          bind_res (ok_or IndirectStackOffsetOutOfBounds
              (slice_get bs immediate_offset (immediate_offset + 4))) (\<lambda>sub_immediate_bytes.
          let sub_immediate = (from_le_bytes sub_immediate_bytes :: u32) in
          bind_res (ok_or StackAdjustOverflow (checked_add sub_immediate stack_adjust_in_bytes))
            (\<lambda>stack_size_in_bytes.
          bind_res (ok_or StackSizeDoesNotFit (try_unsigned (uint (stack_size_in_bytes div 8))))
            (\<lambda>sp_offset_by_8.
          frameless_rule rbp stack_size_in_bytes sp_offset_by_8 saved_regs))))
      | Dwarf eh_frame_fde \<Rightarrow> Inr (NeedDwarf eh_frame_fde)
      | FrameBased \<Rightarrow> Inr (CuiExecRule UseFramePointer)
      | UnrecognizedKind kind \<Rightarrow> Inl (BadOpcodeKind kind)
      | InvalidFramelessOpcode \<Rightarrow> Inl InvalidFrameless)"

text \<open>
  The first frame may be in a prologue or an epilogue, so the instructions are analysed first;
  a function without unwind information is unwound through its frame pointer when it starts with
  \<open>push rbp; mov rbp, rsp\<close>.
\<close>

definition cui_unwind_function_x86 :: "'r OpcodeParserX86_64 \<Rightarrow> MachoFunction \<Rightarrow> bool \<Rightarrow> usize \<Rightarrow>
    bytes option \<Rightarrow> ('m, 'g) CompactUnwindInfoUnwinderError + UnwindRuleX86_64 CuiUnwindResult" where
  "cui_unwind_function_x86 parser function is_first_frame address_offset_within_function function_bytes =
     (let opcode = ox_parse parser (function_opcode function);
          body = body_rule_x86 (ox_rbp parser) opcode function_bytes in
      if \<not> is_first_frame then body
      else
        let uncovered = (if opcode = Null then Inr (CuiExecRule JustReturn) else body) in
        case function_bytes of
          None \<Rightarrow> uncovered
        | Some bs \<Rightarrow>
            (case rule_from_instruction_analysis_x86 bs address_offset_within_function of
               None \<Rightarrow> Inl CuiPanicked
             | Some (Some rule) \<Rightarrow> Inr (CuiExecRule rule)
             | Some None \<Rightarrow>
                 if opcode = Null \<and> length bs \<ge> 4 \<and> take 4 bs = [0x55, 0x48, 0x89, 0xe5]
                 then Inr (CuiExecRule UseFramePointer)
                 else uncovered))"

definition rule_for_stub_helper_x86 :: "u32 \<Rightarrow>
    ('m, 'g) CompactUnwindInfoUnwinderError + UnwindRuleX86_64 CuiUnwindResult" where
  "rule_for_stub_helper_x86 offset =
     Inr (CuiExecRule
       (if offset < 0x7 then OffsetSp 2
        else if offset < 0x10 then OffsetSp 3
        else let offset_after_shared = offset - 0x10;
                 offset_within_stub = offset_after_shared mod 10
             in if offset_within_stub < 5 then JustReturn else OffsetSp 2))"

definition cui_arch_x86 :: "'r OpcodeParserX86_64 \<Rightarrow> (UnwindRuleX86_64, 'm, 'g) CuiArch" where
  "cui_arch_x86 parser =
     \<lparr>cui_unwind_function = cui_unwind_function_x86 parser,
      cui_rule_for_stub_helper = rule_for_stub_helper_x86,
      cui_rule_for_stub_functions = rule_for_stub_functions_x86,
      cui_rule_for_function_start = rule_for_function_start_x86\<rparr>"

section \<open>The contract\<close>

lemma frameless_rule_wf:
  "frameless_rule rbp sz off saved = Inr (CuiExecRule rule) \<Longrightarrow> rule_wf_x86 rule"
  "frameless_rule rbp sz off saved \<noteq> Inl CuiPanicked"
  by (auto simp: frameless_rule_def bind_res_def ok_or_def Let_def split: option.splits)

lemma body_rule_x86_wf:
  "body_rule_x86 rbp oc text = Inr (CuiExecRule rule) \<Longrightarrow> rule_wf_x86 rule"
  "body_rule_x86 rbp oc text \<noteq> Inl CuiPanicked"
  by (auto simp: body_rule_x86_def bind_res_def ok_or_def Let_def frameless_rule_wf
      split: OpcodeX86_64.splits option.splits if_splits dest: frameless_rule_wf(1))

interpretation x86_cui: compact_unwinding "cui_arch_x86 parser" rule_wf_x86
proof
  fix f :: MachoFunction and first off and bs :: "bytes option" and rule
  show "cui_unwind_function (cui_arch_x86 parser) f first off bs = Inr (CuiExecRule rule) \<Longrightarrow>
      rule_wf_x86 rule"
    by (auto simp: cui_arch_x86_def cui_unwind_function_x86_def Let_def body_rule_x86_wf
        rule_from_instruction_analysis_x86_def split: option.splits if_splits dest: body_rule_x86_wf(1)
        x86_analysis.analysis_wf)
  show "pred_option (\<lambda>b. off \<le> length b) bs \<Longrightarrow>
      cui_unwind_function (cui_arch_x86 parser) f first off bs \<noteq> Inl CuiPanicked"
    using x86_analysis.analysis_total [of off "the bs"]
    by (auto simp: cui_arch_x86_def cui_unwind_function_x86_def Let_def body_rule_x86_wf
        rule_from_instruction_analysis_x86_def split: option.splits)
qed (auto simp: cui_arch_x86_def rule_for_stub_helper_x86_def rule_for_stub_functions_x86_def
    rule_for_function_start_x86_def Let_def split: if_splits)

section \<open>Frames the opcodes describe\<close>

text \<open>The rule for \<open>n\<close> words below the return address, with the frame pointer saved in slot \<open>k\<close>.\<close>

lemma exec_offset_rule:
  assumes "unat (x86_sp regs) + 8 * (n + 1) < 2 ^ 64" "n < 2 ^ 15"
    and "mem (x86_sp regs + 8 * of_nat n) = Some ra" "ra \<noteq> 0"
  shows "exec_x86 (if n = 0 then JustReturn else OffsetSp (of_nat n + 1)) True regs mem =
    (Inr (Some ra), x86_set_bp (x86_bp regs)
       (x86_set_sp (x86_sp regs + 8 * of_nat (n + 1)) (x86_set_ip ra regs)))"
proof -
  have "(of_nat n :: u16) = 0 \<longleftrightarrow> n = 0" using assms(2) by (intro of_nat_eq_0_small) simp
  with exec_epilogue_rule [where n = n and regs = regs and mem = mem and ra = ra and k = None
      and bp = "x86_bp regs"] assms
  show ?thesis by (simp add: epilogue_rule_x86_def split: if_splits)
qed

lemma exec_offset_1: "exec_x86 (OffsetSp 1) f regs mem = exec_x86 JustReturn f regs mem"
  by (simp add: exec_x86_def)

text \<open>
  The stack frame a frameless opcode describes: its size in bytes, return address included,
  and the registers saved in it. For the indirect form the size is the immediate of the \<open>sub\<close>
  instruction in the function's own code plus an adjustment.
\<close>

definition described_frame :: "'r OpcodeX86_64 \<Rightarrow> bytes option \<Rightarrow> (nat \<times> 'r option list) option" where
  "described_frame oc function_bytes =
     (case oc of
        FramelessImmediate sz saved \<Rightarrow> Some (unat sz, saved)
      | FramelessIndirect off adjust saved \<Rightarrow>
          Option.bind function_bytes (\<lambda>bs.
            map_option (\<lambda>imm. (le_value imm + unat adjust, saved)) (slice_get bs off (off + 4)))
      | _ \<Rightarrow> None)"

lemma frameless_rule_eq:
  assumes "n = 8 * j" "j < 2 ^ 15"
    and "case bp_position_from_outside rbp saved of None \<Rightarrow> True | Some pos \<Rightarrow> pos + 2 \<le> j"
  shows "frameless_rule rbp (of_nat n) (of_nat j) saved = Inr (CuiExecRule
    (case bp_position_from_outside rbp saved of
       None \<Rightarrow> OffsetSp (of_nat j)
     | Some pos \<Rightarrow> OffsetSpAndRestoreBp (of_nat j) (of_nat (j - 2 - pos))))"
proof (cases "bp_position_from_outside rbp saved")
  case (Some pos)
  define k where "k = j - 2 - pos"
  have "(of_nat n - 2 * 8 - of_nat pos * 8 :: i32) = of_nat (8 * k)"
    using Some assms(1,3) by (simp add: k_def of_nat_diff algebra_simps)
  moreover have "sint (of_nat (8 * k) :: i32) = 8 * int k"
    using assms(2) by (simp add: k_def signed_of_nat signed_take_bit_int_eq_self del: of_nat_mult)
  moreover have "try_signed (int k) = Some (of_nat k :: i16)"
    using assms(2) by (simp add: k_def try_signed_def)
  ultimately show ?thesis
    using Some by (simp add: frameless_rule_def sdiv_multiple Let_def del: of_nat_mult) (simp add: k_def)
qed (simp add: frameless_rule_def)

lemma body_rule_frameless:
  assumes "described_frame oc bs = Some (n, saved)" "n = 8 * (m + 1)" "m + 1 < 2 ^ 15"
    and "case bp_position_from_outside rbp saved of None \<Rightarrow> True | Some pos \<Rightarrow> pos + 1 \<le> m"
    and "oc = FramelessImmediate 8 saved \<longrightarrow> bp_position_from_outside rbp saved = None"
  shows "\<exists>rule. (body_rule_x86 rbp oc bs :: ('m, 'g) CompactUnwindInfoUnwinderError + _) =
      Inr (CuiExecRule rule) \<and>
    exec_x86 rule f regs mem = exec_x86 (epilogue_rule_x86 (of_nat m,
      map_option of_nat (map_option (\<lambda>pos. m - 1 - pos) (bp_position_from_outside rbp saved)))) f regs mem"
proof -
  have fl: "(frameless_rule rbp (of_nat n) (of_nat (m + 1)) saved ::
      ('m, 'g) CompactUnwindInfoUnwinderError + _) = Inr (CuiExecRule
      (case bp_position_from_outside rbp saved of
         None \<Rightarrow> OffsetSp (of_nat (m + 1))
       | Some pos \<Rightarrow> OffsetSpAndRestoreBp (of_nat (m + 1)) (of_nat (m - 1 - pos))))"
    using frameless_rule_eq [OF assms(2,3), of rbp saved] assms(4) by (auto split: option.splits)
  have z: "(of_nat m :: u16) = 0 \<longleftrightarrow> m = 0" using assms(3) by (intro of_nat_eq_0_small) simp
  from assms(1) consider
    (imm) sz where "oc = FramelessImmediate sz saved" "n = unat sz"
  | (ind) off adjust b imm where "oc = FramelessIndirect off adjust saved" "bs = Some b"
      "slice_get b off (off + 4) = Some imm" "n = le_value imm + unat adjust"
    by (auto simp: described_frame_def bind_eq_Some_conv split: OpcodeX86_64.splits)
  then show ?thesis
  proof cases
    case imm
    have sz: "sz = of_nat n" using imm(2) by simp
    have "n < 2 ^ 16" using imm(2) unsigned_less [where 'a = nat, of sz] by simp
    then have "(ucast sz :: u32) = of_nat n" "sz div 8 = of_nat (m + 1)" "sz = 8 \<longleftrightarrow> m = 0"
    proof -
      have "unat (of_nat (m + 1) :: u16) = m + 1" using assms(3) by (intro unat_of_nat_small) simp
      moreover have "unat sz = 8 * (m + 1)" using imm(2) assms(2) by simp
      ultimately show "sz div 8 = of_nat (m + 1)" "sz = 8 \<longleftrightarrow> m = 0"
        by (simp_all only: word_eq_iff_unsigned [where 'a = nat] unat_div) simp_all
      show "(ucast sz :: u32) = of_nat n"
        using \<open>n < 2 ^ 16\<close> imm(2)
        by (simp add: word_eq_iff_unsigned [where 'a = nat] unat_ucast_up unat_of_nat)
    qed
    then show ?thesis using imm fl assms(4,5) z exec_offset_1
      by (auto simp: body_rule_x86_def epilogue_rule_x86_def add.commute split: option.splits)
  next
    case ind
    have small: "n < 2 ^ 32" using assms(2,3) by simp
    then have "checked_add (from_le_bytes imm :: u32) adjust = Some (of_nat n)"
      using ind(4) by (simp add: checked_add_def from_le_bytes_def unat_of_nat)
    moreover have "try_unsigned (uint ((of_nat n :: u32) div 8)) = Some (of_nat (m + 1) :: u16)"
    proof -
      have "unat (of_nat n :: u32) = 8 * (m + 1)"
        using small assms(2) unat_of_nat_small [of n, where 'a = 32] by simp
      then have "uint ((of_nat n :: u32) div 8) = int (m + 1)"
        by (simp only: uint_nat unat_div) simp
      then show ?thesis using assms(3) by (simp add: try_unsigned_def)
    qed
    ultimately show ?thesis using ind fl assms(4,5) z exec_offset_1
      by (auto simp: body_rule_x86_def epilogue_rule_x86_def Let_def add.commute split: option.splits)
  qed
qed

section \<open>Properties\<close>

text \<open>
  C20: a function body described by a frameless opcode: with a frame of \<open>n\<close> bytes whose topmost
  word is the return address, below it the saved registers, outermost last in the opcode's list,
  the rule recovers the return address, the caller's stack pointer and the caller's frame
  pointer, which is read from its slot when it was saved and left alone when not. This holds
  for sizes encoded in the opcode and for those read from the function's code.
\<close>

theorem frameless_opcode_restores_x86:
  assumes "described_frame oc bs = Some (n, saved)" "8 dvd n" "8 \<le> n" "n < 2 ^ 18"
    and "unat (x86_sp regs) + n < 2 ^ 64" "mem (x86_sp regs + of_nat n - 8) = Some ra" "ra \<noteq> 0"
    and "case bp_position_from_outside rbp saved of
           None \<Rightarrow> bp = x86_bp regs
         | Some pos \<Rightarrow> 8 * (pos + 2) \<le> n \<and> mem (x86_sp regs + of_nat (n - 16 - 8 * pos)) = Some bp"
  shows "\<exists>rule regs'. (body_rule_x86 rbp oc bs :: ('m, 'g) CompactUnwindInfoUnwinderError + _) =
      Inr (CuiExecRule rule) \<and>
    exec_x86 rule True regs mem = (Inr (Some ra), regs') \<and>
    x86_sp regs' = x86_sp regs + of_nat n \<and> x86_bp regs' = bp"
proof -
  from assms(2,3) obtain m where n: "n = 8 * (m + 1)"
    by (metis Suc_eq_plus1 dvdE mult_0_right not0_implies_Suc not_numeral_le_zero)
  define pos where "pos = bp_position_from_outside rbp saved"
  have fits: "case pos of None \<Rightarrow> True | Some p \<Rightarrow> p + 1 \<le> m" using assms(8) n
    by (auto simp: pos_def split: option.splits)
  have "exec_x86 (epilogue_rule_x86 (of_nat m, map_option of_nat (map_option (\<lambda>p. m - 1 - p) pos)))
      True regs mem = (Inr (Some ra), x86_set_bp bp
        (x86_set_sp (x86_sp regs + 8 * of_nat (m + 1)) (x86_set_ip ra regs)))"
  proof (rule exec_epilogue_rule)
    show "case map_option (\<lambda>p. m - 1 - p) pos of None \<Rightarrow> bp = x86_bp regs
        | Some k \<Rightarrow> k < m \<and> mem (x86_sp regs + 8 * of_nat k) = Some bp"
      using assms(8) fits n
      by (auto simp: pos_def [symmetric] of_nat_diff algebra_simps split: option.splits)
  qed (use assms n in \<open>simp_all add: algebra_simps\<close>)
  moreover have "oc = FramelessImmediate 8 saved \<longrightarrow> bp_position_from_outside rbp saved = None"
    using assms(1) fits n by (auto simp: described_frame_def pos_def split: option.splits)
  with fits assms(4) n have "\<exists>rule. (body_rule_x86 rbp oc bs :: ('m, 'g) CompactUnwindInfoUnwinderError + _) =
      Inr (CuiExecRule rule) \<and>
    exec_x86 rule True regs mem = exec_x86 (epilogue_rule_x86 (of_nat m,
      map_option of_nat (map_option (\<lambda>p. m - 1 - p) pos))) True regs mem"
    unfolding pos_def by (intro body_rule_frameless [OF assms(1) n]) simp_all
  ultimately show ?thesis using n by (auto simp: algebra_simps)
qed

theorem frameless_opcode_restores_x86_witness:
  "\<exists>rule regs'. (body_rule_x86 True (FramelessImmediate 24 [Some False, Some True]) None ::
      (unit, unit) CompactUnwindInfoUnwinderError + _) = Inr (CuiExecRule rule) \<and>
    exec_x86 rule True (x86_new 1 0x100 2) [0x110 \<mapsto> 0x401000, 0x108 \<mapsto> 0x200] = (Inr (Some 0x401000), regs') \<and>
    x86_sp regs' = 0x118 \<and> x86_bp regs' = 0x200"
  using frameless_opcode_restores_x86 [of "FramelessImmediate 24 [Some False, Some True]" None 24
      "[Some False, Some True]" "x86_new 1 0x100 2" "[0x110 \<mapsto> 0x401000, 0x108 \<mapsto> 0x200]" "0x401000" "0x200" True]
  by (simp add: described_frame_def bp_position_from_outside_def map_filter_simps)

text \<open>
  How many words the code of the \<^verbatim>\<open>__stub_helper\<close> section has pushed when the instruction
  pointer is at an offset, from the listing in the source: the shared part (\<open>lea\<close> at 0, \<open>push r11\<close>
  at 7, \<open>jmp\<close> at 9) is entered from a stub with one word pushed, and each stub is a \<open>push\<close> and a
  \<open>jmp\<close> of five bytes each. \<open>None\<close> between instructions.
\<close>

definition stub_helper_pushed :: "u32 \<Rightarrow> nat option" where
  "stub_helper_pushed offset =
     (if offset = 0 \<or> offset = 7 then Some 1
      else if offset = 9 then Some 2
      else if offset < 0x10 then None
      else if (offset - 0x10) mod 10 = 0 then Some 0
      else if (offset - 0x10) mod 10 = 5 then Some 1
      else None)"

text \<open>
  Unwinding from the stub helper: at every instruction except the shared \<open>push r11\<close> at offset 7,
  the rule skips exactly the words pushed so far and recovers the return address and the
  caller's stack and frame pointer.
\<close>

theorem stub_helper_rule_x86:
  assumes "stub_helper_pushed offset = Some n" "offset \<noteq> 7"
    and "unat (x86_sp regs) + 8 * (n + 1) < 2 ^ 64"
    and "mem (x86_sp regs + 8 * of_nat n) = Some ra" "ra \<noteq> 0"
  shows "\<exists>rule regs'. (rule_for_stub_helper_x86 offset :: ('m, 'g) CompactUnwindInfoUnwinderError + _) =
      Inr (CuiExecRule rule) \<and>
    exec_x86 rule True regs mem = (Inr (Some ra), regs') \<and>
    x86_sp regs' = x86_sp regs + 8 * of_nat (n + 1) \<and> x86_bp regs' = x86_bp regs"
proof -
  have "offset < 7 \<Longrightarrow> offset < 0x10" by (simp add: word_less_nat_alt)
  then have "rule_for_stub_helper_x86 offset =
      (Inr (CuiExecRule (if n = 0 then JustReturn else OffsetSp (of_nat n + 1))) ::
        ('m, 'g) CompactUnwindInfoUnwinderError + _)"
    using assms(1,2)
    by (auto simp: stub_helper_pushed_def rule_for_stub_helper_x86_def Let_def split: if_splits)
  moreover have "n < 2 ^ 15" using assms(1) by (auto simp: stub_helper_pushed_def split: if_splits)
  ultimately show ?thesis using exec_offset_rule [of regs n mem ra] assms(3-5) by auto
qed

theorem stub_helper_rule_x86_witness:
  "\<exists>rule regs'. (rule_for_stub_helper_x86 0x1f :: (unit, unit) CompactUnwindInfoUnwinderError + _) =
      Inr (CuiExecRule rule) \<and>
    exec_x86 rule True (x86_new 1 0x100 2) [0x108 \<mapsto> 0x401000] = (Inr (Some 0x401000), regs') \<and>
    x86_sp regs' = 0x110 \<and> x86_bp regs' = 2"
  using stub_helper_rule_x86 [of "0x1f" 1 "x86_new 1 0x100 2" "[0x108 \<mapsto> 0x401000]" "0x401000"]
  by (simp add: stub_helper_pushed_def)

text \<open>
  At offset 7 the \<open>push r11\<close> has not been executed, so one word lies above the return address;
  the rule nevertheless skips two, because the code tests \<open>offset < 0x7\<close> where the instruction ends
  at 9. It takes the word above the return address for the return address.
\<close>

theorem stub_helper_off_by_one:
  "stub_helper_pushed 7 = Some 1"
  "rule_for_stub_helper_x86 7 = Inr (CuiExecRule (OffsetSp 3))"
  by (simp_all add: stub_helper_pushed_def rule_for_stub_helper_x86_def)

text \<open>
  Compact unwind info on x86_64 never panics and yields only well-formed rules, when
  lookups return functions that contain the address, as the format's parser documents.
\<close>

theorem compact_unwinding_safe_x86:
  assumes "lookup_in_range mui"
    and "cui_unwind_frame mui (cui_arch_x86 parser) data text stubs helper address first = r"
  shows "r \<noteq> Inl CuiPanicked \<and> (\<forall>rule. r = Inr (CuiExecRule rule) \<longrightarrow> rule_wf_x86 rule)"
  using x86_cui.unwind_frame_no_panic [OF assms(1)] x86_cui.unwind_frame_wf assms(2) by blast

text \<open>A lookup table with one function, for the witnesses.\<close>

definition one_function :: "MachoFunction \<Rightarrow> (unit, unit) MachoUnwindInfo" where
  "one_function f =
     \<lparr>mui_parse = (\<lambda>_. Inr ()),
      mui_lookup = (\<lambda>_ address. Inr (if start_address f \<le> address \<and> address < end_address f then Some f
        else None))\<rparr>"

lemma one_function_in_range: "lookup_in_range (one_function f)"
  by (simp add: lookup_in_range_def one_function_def)

definition frameless_parser :: "bool OpcodeParserX86_64" where
  "frameless_parser = \<lparr>ox_parse = (\<lambda>_. FramelessImmediate 24 [Some True]), ox_rbp = True\<rparr>"

definition popping_function :: MachoFunction where
  "popping_function = \<lparr>start_address = 0x1000, end_address = 0x1005, function_opcode = 0\<rparr>"

theorem compact_unwinding_safe_x86_witness:
  "(cui_unwind_frame (one_function popping_function) (cui_arch_x86 frameless_parser) [] None
     (0, 0) (0, 0) 0x1001 False :: (unit, unit) CompactUnwindInfoUnwinderError + _) \<noteq> Inl CuiPanicked"
  using compact_unwinding_safe_x86 [OF one_function_in_range] by blast

text \<open>
  From the section's bytes to the registers: when the address lies outside the stubs and in a
  function, beyond its start, at which its code consists of pops and a \<open>ret\<close>, unwinding the first
  frame with compact unwind info ignores the opcode and recovers the state after the return.
\<close>

theorem compact_unwinding_epilogue_x86:
  assumes "\<not> (fst stubs \<le> address \<and> address < snd stubs)" "\<not> (fst helper \<le> address \<and> address < snd helper)"
    and "function_for_address mui data address = (Inr f :: ('m, 'g) CompactUnwindInfoUnwinderError + _)"
      "address \<noteq> start_address f"
    and "function_text text f = Some (pre @ code_bytes (map IPop regs @ [IRet]) @ post)"
      "unat (address - start_address f) = length pre"
    and "run_code (map IPop regs @ [IRet]) (r, mem) = Some (r', mem')"
      "RSP \<notin> set regs" "length regs < 2 ^ 15" "unat (x86_sp r) + 8 * (length regs + 1) < 2 ^ 64" "x86_ip r' \<noteq> 0"
  shows "\<exists>rule r''. (cui_unwind_frame mui (cui_arch_x86 parser) data text stubs helper address True ::
      ('m, 'g) CompactUnwindInfoUnwinderError + _) = Inr (CuiExecRule rule) \<and>
    exec_x86 rule True r mem = (Inr (Some (x86_ip r')), r'') \<and>
    x86_sp r'' = x86_sp r' \<and> x86_bp r'' = x86_bp r'"
proof -
  define code where "code = pre @ code_bytes (map IPop regs @ [IRet]) @ post"
  obtain rule r'' where rule: "rule_from_instruction_analysis_x86 code (length pre) = Some (Some rule)"
      "exec_x86 rule True r mem = (Inr (Some (x86_ip r')), r'')" "x86_sp r'' = x86_sp r'" "x86_bp r'' = x86_bp r'"
    using epilogue_rule_recovers_x86 [OF assms(7-11), of "0xc3" pre post] by (auto simp: code_def)
  have "(cui_unwind_function_x86 parser f True (length pre) (Some code) ::
      ('m, 'g) CompactUnwindInfoUnwinderError + _) = Inr (CuiExecRule rule)"
    using rule(1) by (simp add: cui_unwind_function_x86_def Let_def)
  then have "(cui_unwind_frame mui (cui_arch_x86 parser) data text stubs helper address True ::
      ('m, 'g) CompactUnwindInfoUnwinderError + _) = Inr (CuiExecRule rule)"
    by (simp add: cui_unwind_frame_def cui_arch_x86_def assms(1-4,6) assms(5) [folded code_def])
  with rule(2-4) show ?thesis by blast
qed

theorem compact_unwinding_epilogue_x86_witness:
  "\<exists>rule r''. (cui_unwind_frame (one_function popping_function) (cui_arch_x86 frameless_parser) []
      (Some \<lparr>offset_from_base_address = 0x1000, text_bytes = [0x90, 0x41, 0x5e, 0x5d, 0xc3]\<rparr>)
      (0, 0) (0, 0) 0x1001 True :: (unit, unit) CompactUnwindInfoUnwinderError + _) = Inr (CuiExecRule rule) \<and>
    exec_x86 rule True (x86_new 0x400010 0x100 7) epilogue_stack = (Inr (Some 0x401000), r'') \<and>
    x86_sp r'' = 0x118 \<and> x86_bp r'' = 0x200"
proof -
  define r :: UnwindRegsX86_64 where "r = x86_new 0x400010 0x100 7"
  define r' where "r' = x86_set_ip 0x401000 (x86_set_sp 0x118 (x86_set RBP 0x200 (x86_set_sp 0x110
    (x86_set R14 1 (x86_set_sp 0x108 r)))))"
  define t where "t = \<lparr>offset_from_base_address = 0x1000, text_bytes = [0x90 :: u8, 0x41, 0x5e, 0x5d, 0xc3]\<rparr>"
  have run: "run_code (map IPop [R14, RBP] @ [IRet]) (r, epilogue_stack) = Some (r', epilogue_stack)"
    by (simp add: r_def r'_def epilogue_stack_def x86_sp_bp_set_reg)
  have code: "function_text (Some t) popping_function = Some ([0x90] @ code_bytes (map IPop [R14, RBP] @ [IRet]) @ [])"
    by (simp add: function_text_def popping_function_def t_def checked_sub_def slice_get_def rex_b_def
        less_eq_Reg_def)
  have "\<exists>rule r''. (cui_unwind_frame (one_function popping_function) (cui_arch_x86 frameless_parser) []
      (Some t) (0, 0) (0, 0) 0x1001 True :: (unit, unit) CompactUnwindInfoUnwinderError + _) =
        Inr (CuiExecRule rule) \<and>
    exec_x86 rule True r epilogue_stack = (Inr (Some (x86_ip r')), r'') \<and>
    x86_sp r'' = x86_sp r' \<and> x86_bp r'' = x86_bp r'"
    by (rule compact_unwinding_epilogue_x86 [OF _ _ _ _ code _ run])
      (simp_all add: function_for_address_def one_function_def popping_function_def r_def r'_def)
  then show ?thesis by (simp add: t_def r_def r'_def x86_sp_bp_set_reg)
qed

end
