(* ===== verification/X86_Arch.thy ===== *)
theory X86_Arch
  imports X86_Dwarf X86_Macho Pe_Unwind
begin

text \<open>
  The x86_64 architecture as a whole (\<^verbatim>\<open>vendor/framehop/src/x86_64/arch.rs\<close>): the three ways to
  find a frame's rule, put behind \<open>unwind_frame_impl\<close>, and what holds of unwinding with them: no
  panic, no rule that could panic, in a cache or out of it.
\<close>

definition x86_ops :: "('m, 'info) MachoUnwindInfo \<Rightarrow> 'r OpcodeParserX86_64 \<Rightarrow>
    ('pinfo, 'op, UnwindRegsX86_64) PeCrate \<Rightarrow> (bytes \<Rightarrow> bytes option \<Rightarrow> BaseAddresses \<Rightarrow> ('x, 'f, 'g) Gimli) \<Rightarrow>
    (UnwindRuleX86_64, UnwindRegsX86_64, 'x, 'f, 'g, ('m, 'g) CompactUnwindInfoUnwinderError,
     PeUnwinderError) ArchOps" where
  "x86_ops mui parser crate gimli =
     \<lparr>op_dwarf = unwind_frame_x86,
      op_rule_if_uncovered_by_fde = rule_if_uncovered_by_fde_x86,
      op_cui = cui_unwind_frame mui (cui_arch_x86 parser),
      op_pe = (\<lambda>pdata rdata xdata text rel regs first read.
        case pe_unwind_frame_x86 crate
            \<lparr>ps_pdata = pdata, ps_rdata = rdata, ps_xdata = xdata, ps_text = text\<rparr> rel regs first read of
          Some result \<Rightarrow> result
        | None \<Rightarrow> (Inl PeDiverges, regs)),
      op_gimli = gimli\<rparr>"

section \<open>Rules\<close>

lemma translate_into_unwind_rule_x86_wf:
  "translate_into_unwind_rule_x86 cfa bp ra = Inr rule \<Longrightarrow> rule_wf_x86 rule"
  by (cases "(ra, cfa)" rule: prod.exhaust; cases ra rule: return_address_rule_x86.cases; cases cfa)
    (auto simp: translate_sp_x86_def translate_bp_x86_def bind_res_Inr_iff split: if_splits option.splits)

lemma generic_unwind_frame_x86_no_rule:
  "fst (generic_unwind_frame_x86 parse row regs first signal read) \<noteq> Inr (ExecRule rule)"
  by (auto simp: generic_unwind_frame_x86_def Let_def split: option.splits)

lemma unwind_frame_x86_wf:
  "unwind_frame_x86 parse row regs first signal read = (Inr (ExecRule rule), regs') \<Longrightarrow> rule_wf_x86 rule"
  using generic_unwind_frame_x86_no_rule [of parse row regs first signal read rule]
  by (auto simp: unwind_frame_x86_def prod_eq_iff simp del: translate_into_unwind_rule_x86.simps
      split: if_splits sum.splits dest: translate_into_unwind_rule_x86_wf)

lemma dwarf_impl_x86_wf:
  "dwarf_impl (x86_ops mui parser crate gimli) data hdr bases ty base regs first rel fde read =
     (Inr (ExecRule rule), regs') \<Longrightarrow> rule_wf_x86 rule"
  by (auto simp: dwarf_impl_def unwind_frame_with_fde_def x86_ops_def rule_if_uncovered_by_fde_x86_def Let_def
      split: prod.splits sum.splits DwarfUnwinderError.splits dest: unwind_frame_x86_wf)

lemma unwind_frame_impl_x86_wf:
  assumes "unwind_frame_impl (x86_ops mui parser crate gimli) m address rel regs read =
    (Inr (ExecRule rule), regs')"
  shows "rule_wf_x86 rule"
  using assms
  by (auto simp: Let_def split: ModuleUnwindDataInternal.splits sum.splits CuiUnwindResult.splits
      option.splits prod.splits dest!: dwarf_impl_x86_wf)
    (auto simp: x86_ops_def split: option.splits dest: x86_cui.unwind_frame_wf pe_unwind_frame_x86_wf)

section \<open>Execution\<close>

lemma exec_x86_not_Panicked: "rule_wf_x86 rule \<Longrightarrow> fst (exec_x86 rule f regs read) \<noteq> Inl Panicked"
  using rule_frame_x86_not_Panicked [of rule f regs read]
  by (auto simp: exec_x86_def finish_x86_def split: prod.splits sum.splits option.splits)

lemma exec_rule_x86_not_Panicked:
  "rule_wf_x86 rule \<Longrightarrow> fst (exec_rule exec_x86 rule f regs read) \<noteq> Inl Panicked"
  using exec_x86_not_Panicked [of rule f regs read]
  by (auto simp: exec_rule_def not_interrupted_def bind_res_def split: prod.splits sum.splits)

text \<open>A cache that holds only well-formed rules keeps doing so, and no frame panics.\<close>

abbreviation cache_rules_wf :: "UnwindRuleX86_64 RuleCache \<Rightarrow> bool" where
  "cache_rules_wf \<equiv> rule_cache.sound (\<lambda>a g rule. rule_wf_x86 rule)"

lemma with_cache_x86:
  assumes cache: "cache_rules_wf cache" and fallback: "rule_wf_x86 fallback"
    and callback: "\<And>m address rel regs rule regs'.
      callback m address rel regs read = (Inr (ExecRule rule), regs') \<Longrightarrow> rule_wf_x86 rule"
    and run: "with_cache exec_x86 fallback u callback address regs cache read = ((r, regs'), cache')"
  shows "r \<noteq> Inl Panicked \<and> cache_rules_wf cache'"
proof -
  let ?a = "address_for_lookup address" and ?g = "modules_generation u"
  obtain res cache1 where l: "lookup cache ?a ?g = (res, cache1)" by fastforce
  have look: "cache_rules_wf cache1" using rule_cache.sound_look [OF cache, of ?a ?g] l by simp
  have hit: "rule_wf_x86 rule" if "res = Hit rule" for rule
    using rule_cache.sound_hit [OF cache, of ?a ?g rule] that l by simp
  have ins: "cache_rules_wf (insert_rule cache1 h rule)" if "res = Miss h" "rule_wf_x86 rule" for h rule
    using rule_cache.sound_ins [OF cache, of ?a ?g h rule] that l by simp
  have ex: False if "exec_rule exec_x86 rule f regs' read = (Inl Panicked, regs'')" "rule_wf_x86 rule"
    for rule f regs' regs'' using exec_rule_x86_not_Panicked [OF that(2), of f regs' read] that(1) by simp
  show ?thesis
    using run l look
    by (auto simp: with_cache_def Let_def fallback split: CacheResult.splits option.splits prod.splits
        sum.splits UnwindResult.splits dest: ex hit callback intro: ins fallback callback)
qed

lemma session_x86:
  assumes "\<And>m address rel regs read rule regs'.
      callback m address rel regs read = (Inr (ExecRule rule), regs') \<Longrightarrow> rule_wf_x86 rule"
    and "session exec_x86 fallback_rule_x86 callback u counter cache sops = Some results"
    and "cache_rules_wf cache"
  shows "list_all (\<lambda>(r, regs). r \<noteq> Inl Panicked) results"
  using assms(2,3)
proof (induction sops arbitrary: u counter cache results)
  case (Cons sop sops)
  show ?case
  proof (cases sop)
    case (UnwindFrame address regs read)
    obtain r regs' cache' where w: "with_cache exec_x86 fallback_rule_x86 u callback address regs cache read =
        ((r, regs'), cache')" by (metis prod.collapse)
    from with_cache_x86 [OF Cons.prems(2) _ assms(1) w]
    have "r \<noteq> Inl Panicked" "cache_rules_wf cache'" by (simp_all add: fallback_rule_x86_def)
    with Cons.IH [of u counter cache'] Cons.prems(1) UnwindFrame w show ?thesis by auto
  qed (use Cons in \<open>auto simp: bind_eq_Some_conv\<close>)
qed simp

section \<open>Properties\<close>

text \<open>
  C14: no session of unwinding x86_64 frames panics in executing a rule: whatever modules come
  and go, whatever their DWARF, compact or PE unwind information says and whatever the stack
  holds, every rule found, cached and executed is well formed, so each frame ends in a return
  address, the end of the stack or an error that is returned.
\<close>

theorem x86_session_never_panics:
  assumes "session exec_x86 fallback_rule_x86 (unwind_frame_impl (x86_ops mui parser crate gimli))
      u counter cache_new sops = Some results"
  shows "list_all (\<lambda>(r, regs). r \<noteq> Inl Panicked) results"
  by (rule session_x86 [OF unwind_frame_impl_x86_wf assms rule_cache.sound_new])

text \<open>
  What \<open>unwind_frame_impl\<close> relies on for a module: nothing for DWARF and compact unwind info,
  and for PE the agreement of the sections.
\<close>

definition module_data_safe :: "('pinfo, 'op, 's) PeCrate \<Rightarrow> ModuleUnwindDataInternal \<Rightarrow> bool" where
  "module_data_safe crate data \<longleftrightarrow>
     (case data of
        PeUnwindInfo pdata rdata xdata text \<Rightarrow>
          let sections = \<lparr>ps_pdata = pdata, ps_rdata = rdata, ps_xdata = xdata, ps_text = text\<rparr> in
          sections_cover sections \<and> pe_lookup_in_range crate sections \<and>
          (\<exists>links. chain_ends crate sections links)
      | _ \<Rightarrow> True)"


definition macho_module :: "ModuleUnwindDataInternal Module" where
  "macho_module = \<lparr>mod_name = ''m'', avma_start = 0x10000, avma_end = 0x20000, base_avma = 0x10000,
     base_svma = 0, unwind_data = CompactUnwindInfoAndEhFrame [] None None None
       \<lparr>ba_eh_frame = 0, ba_eh_frame_hdr = 0, ba_text = 0, ba_got = 0\<rparr> None\<rparr>"

definition one_row_gimli :: "(unit, unit, unit) Gimli" where
  "one_row_gimli =
     \<lparr>fde_from_offset = (\<lambda>_ _. Inr ()), is_signal_trampoline = (\<lambda>_. False),
      unwind_info_for_address = (\<lambda>_ _. Inr pushed_bp_row), parse_expr = (\<lambda>_. None),
      eh_frame_hdr_lookup = (\<lambda>_. Some 0)\<rparr>"


theorem x86_session_never_panics_witness:
  "\<exists>results. session exec_x86 fallback_rule_x86 (unwind_frame_impl (x86_ops (one_function popping_function)
      frameless_parser pop_crate (\<lambda>_ _ _. one_row_gimli)))
      \<lparr>modules = [[macho_module]], modules_generation = 0\<rparr> 1 cache_new
      [UnwindFrame (InstructionPointer 0x11001) (x86_new 0x11001 0x100 0x200) (\<lambda>_. None)] = Some results \<and>
    list_all (\<lambda>(r, regs). r \<noteq> Inl Panicked) results"
proof -
  let ?s = "session exec_x86 fallback_rule_x86 (unwind_frame_impl (x86_ops (one_function popping_function)
      frameless_parser pop_crate (\<lambda>_ _ _. one_row_gimli)))
      \<lparr>modules = [[macho_module]], modules_generation = 0\<rparr> 1 cache_new
      [UnwindFrame (InstructionPointer 0x11001) (x86_new 0x11001 0x100 0x200) (\<lambda>_. None)]"
  have "\<exists>results. ?s = Some results"
    by (simp del: unwind_frame_impl.simps split: prod.split)
  then obtain results where r: "?s = Some results" by blast
  with x86_session_never_panics [OF r] show ?thesis by blast
qed

end
