(* ===== verification/X86_Caching.thy ===== *)
theory X86_Caching
  imports X86_Arch
begin

text \<open>
  The rule cache over real unwind data: when a whole x86_64 session over modules with DWARF data may
  use the cache without a change in its results, and a session in which it may not.
\<close>

section \<open>The rule a module's DWARF data gives for an address\<close>

text \<open>The section and the FDE \<open>unwind_frame_impl\<close> finds for a relative address, if any.\<close>

definition dwarf_source :: "(bytes \<Rightarrow> bytes option \<Rightarrow> BaseAddresses \<Rightarrow> ('x, 'f, 'g) Gimli) \<Rightarrow>
    ModuleUnwindDataInternal Module \<Rightarrow> u32 \<Rightarrow> (('x, 'f, 'g) Gimli \<times> UnwindSectionType \<times> u32) option" where
  "dwarf_source gimli m rel =
     (case unwind_data m of
        EhFrameHdrAndEhFrame hdr eh_frame bases \<Rightarrow>
          (let g = gimli eh_frame (Some hdr) bases in
           map_option (\<lambda>fde. (g, EhFrame, fde)) (get_fde_offset_for_relative_address g (base_svma m) rel))
      | DwarfCfiIndexAndEhFrame index eh_frame bases \<Rightarrow>
          map_option (\<lambda>fde. (gimli eh_frame None bases, EhFrame, fde)) (fde_offset_for_relative_address index rel)
      | DwarfCfiIndexAndDebugFrame index debug_frame bases \<Rightarrow>
          map_option (\<lambda>fde. (gimli debug_frame None bases, DebugFrame, fde)) (fde_offset_for_relative_address index rel)
      | _ \<Rightarrow> None)"

text \<open>\<open>None\<close> for a row that is evaluated anew for every frame: a signal frame or one with no rule.\<close>

definition row_rule_x86 :: "('x, 'f, 'g) Gimli \<Rightarrow> UnwindSectionType \<Rightarrow> u64 \<Rightarrow> u32 \<Rightarrow> UnwindRuleX86_64 option" where
  "row_rule_x86 gimli section_type lookup_svma fde_offset =
     (case unwind_info_for_fde gimli section_type lookup_svma fde_offset of
        Inl (UnwindInfoForAddressFailed _) \<Rightarrow> Some rule_if_uncovered_by_fde_x86
      | Inl _ \<Rightarrow> Some fallback_rule_x86
      | Inr (row, is_signal_frame) \<Rightarrow>
          if is_signal_frame then None
          else case translate_into_unwind_rule_x86 (row_cfa row) (row_register row X86_RBP)
                      (row_register row X86_RA) of
                 Inr rule \<Rightarrow> Some rule
               | Inl _ \<Rightarrow> None)"

definition dwarf_rule_x86 :: "(bytes \<Rightarrow> bytes option \<Rightarrow> BaseAddresses \<Rightarrow> ('x, 'f, 'g) Gimli) \<Rightarrow>
    ModuleUnwindDataInternal Module \<Rightarrow> u64 \<Rightarrow> u32 \<Rightarrow> UnwindRuleX86_64 option" where
  "dwarf_rule_x86 gimli m address rel =
     (case dwarf_source gimli m rel of
        None \<Rightarrow> Some fallback_rule_x86
      | Some (g, section_type, fde_offset) \<Rightarrow>
          row_rule_x86 g section_type (base_svma m + ucast rel) fde_offset)"

fun has_dwarf_data :: "ModuleUnwindDataInternal \<Rightarrow> bool" where
  "has_dwarf_data (CompactUnwindInfoAndEhFrame _ _ _ _ _ _) = False"
| "has_dwarf_data (PeUnwindInfo _ _ _ _) = False"
| "has_dwarf_data _ = True"

text \<open>The errors of evaluating a row on the registers and the stack of a frame.\<close>

fun evaluation_error :: "'g DwarfUnwinderError \<Rightarrow> bool" where
  "evaluation_error (FdeFromOffsetFailed _) = False"
| "evaluation_error (UnwindInfoForAddressFailed _) = False"
| "evaluation_error _ = True"

fun evaluation_failed :: "('g, 'c, 'p) UnwinderError + 'rule UnwindResult \<Rightarrow> bool" where
  "evaluation_failed (Inl (DwarfError e)) = evaluation_error e"
| "evaluation_failed _ = False"

lemma generic_unwind_frame_x86_result:
  assumes "generic_unwind_frame_x86 parse row regs first signal read = (r, regs')"
  shows "case r of Inl e \<Rightarrow> evaluation_error e | Inr (ExecRule rule) \<Rightarrow> False | Inr _ \<Rightarrow> True"
  using assms by (auto simp: generic_unwind_frame_x86_def Let_def split: option.splits if_splits)

lemma unwind_frame_x86_answers:
  assumes "unwind_frame_x86 parse row regs first signal read = (r, regs')" "\<forall>e. r = Inl e \<longrightarrow> \<not> evaluation_error e"
  shows "answers_with fallback (if signal then None else case translate_into_unwind_rule_x86 (row_cfa row)
      (row_register row X86_RBP) (row_register row X86_RA) of Inr rule \<Rightarrow> Some rule | Inl _ \<Rightarrow> None) regs (r, regs')"
proof (cases "generic_unwind_frame_x86 parse row regs first signal read = (r, regs')")
  case True
  from generic_unwind_frame_x86_result [OF this] True assms show ?thesis
    by (auto simp: unwind_frame_x86_def simp del: translate_into_unwind_rule_x86.simps
        split: sum.splits UnwindResult.splits if_splits)
next
  case False
  with assms(1) show ?thesis
    by (auto simp: unwind_frame_x86_def simp del: translate_into_unwind_rule_x86.simps
        split: sum.splits if_splits)
qed

lemma dwarf_impl_answers:
  fixes gimli :: "bytes \<Rightarrow> bytes option \<Rightarrow> BaseAddresses \<Rightarrow> ('x, 'f, 'a) Gimli"
  assumes "\<not> evaluation_failed (fst (dwarf_impl (x86_ops mui parser crate gimli) data hdr bases ty base regs first
      rel fde read))"
  shows "answers_with fallback_rule_x86 (row_rule_x86 (gimli data hdr bases) ty (base + ucast rel) fde) regs
    (dwarf_impl (x86_ops mui parser crate gimli) data hdr bases ty base regs first rel fde read)"
proof (cases "unwind_info_for_fde (gimli data hdr bases) ty (base + ucast rel) fde")
  case (Inl e)
  then show ?thesis
    by (cases e) (simp_all add: dwarf_impl_def unwind_frame_with_fde_def row_rule_x86_def x86_ops_def)
next
  case (Inr p)
  obtain row signal where p: "p = (row, signal)" by fastforce
  obtain r :: "'a DwarfUnwinderError + _" and regs' where r: "unwind_frame_x86 (parse_expr (gimli data hdr bases)) row regs first signal read = (r, regs')"
    by fastforce
  then have d: "dwarf_impl (x86_ops mui parser crate gimli) data hdr bases ty base regs first rel fde read =
      (map_sum DwarfError id r, regs')"
    using Inr p by (simp add: dwarf_impl_def unwind_frame_with_fde_def x86_ops_def split: sum.split)
  with assms have "\<forall>e. r = Inl e \<longrightarrow> \<not> evaluation_error e" by auto
  from unwind_frame_x86_answers [OF r this, of fallback_rule_x86]
  have "answers_with fallback_rule_x86 (row_rule_x86 (gimli data hdr bases) ty (base + ucast rel) fde) regs (r, regs')"
    using Inr p by (simp add: row_rule_x86_def del: translate_into_unwind_rule_x86.simps)
  then show ?thesis unfolding d by (cases "(fallback_rule_x86, None :: UnwindRuleX86_64 option, regs, r, regs')" rule: answers_with.cases) auto
qed

lemma unwind_frame_impl_answers:
  assumes "has_dwarf_data (unwind_data m)"
    and "\<not> evaluation_failed (fst (unwind_frame_impl (x86_ops mui parser crate gimli) m address rel regs read))"
  shows "answers_with fallback_rule_x86 (dwarf_rule_x86 gimli m a rel) regs
    (unwind_frame_impl (x86_ops mui parser crate gimli) m address rel regs read)"
proof -
  have "op_gimli (x86_ops mui parser crate gimli) = gimli" by (simp add: x86_ops_def)
  with assms show ?thesis
    by (cases "unwind_data m")
      (auto simp: Let_def dwarf_rule_x86_def dwarf_source_def dwarf_impl_answers split: option.splits)
qed

section \<open>Properties\<close>

text \<open>
  C13: caching over real DWARF data. In any session over a new unwinder whose modules come with
  DWARF data, in whatever form and including signal frames and rows that have no rule, one cache
  for the whole session changes no result and no register, as long as no frame fails in
  evaluating such a row on its registers and stack. Only the rows at the frames' addresses matter.
\<close>

theorem x86_dwarf_cache_transparent:
  assumes "unwinder_new counter = Some (u, counter')"
    and "\<forall>m. AddModule m \<in> set sops \<longrightarrow> has_dwarf_data (unwind_data m)"
    and "\<forall>address regs read m rel. UnwindFrame address regs read \<in> set sops \<longrightarrow> AddModule m \<in> set sops \<longrightarrow>
      may_answer m (address_for_lookup address) rel \<longrightarrow>
      \<not> evaluation_failed (fst (unwind_frame_impl (x86_ops mui parser crate gimli) m address rel regs read))"
  shows "session exec_x86 fallback_rule_x86 (unwind_frame_impl (x86_ops mui parser crate gimli)) u counter' cache_new sops =
    session_uncached exec_x86 fallback_rule_x86 (unwind_frame_impl (x86_ops mui parser crate gimli)) u counter' sops"
proof (rule new_session_transparent [OF _ assms(1), where rule_of = "dwarf_rule_x86 gimli"])
  show "session_determined fallback_rule_x86 (unwind_frame_impl (x86_ops mui parser crate gimli))
      (dwarf_rule_x86 gimli) {} sops"
    unfolding session_determined_def
  proof (intro allI impI unwind_frame_impl_answers)
  qed (use assms(2,3) in auto)
qed


text \<open>A row whose frame pointer is saved 24 bytes below the CFA, which no rule expresses.\<close>

definition wide_row :: "unit UnwindTableRow" where
  "wide_row = \<lparr>row_cfa = RegisterAndOffset X86_RBP 24,
     row_register = (\<lambda>r. if r = X86_RBP then Some (Offset (- 24))
                         else if r = X86_RA then Some (Offset (- 8)) else None)\<rparr>"

definition wide_gimli :: "(unit, unit, unit) Gimli" where
  "wide_gimli = one_row_gimli\<lparr>unwind_info_for_address := (\<lambda>_ _. Inr wide_row)\<rparr>"

definition elf_module :: "ModuleUnwindDataInternal Module" where
  "elf_module = \<lparr>mod_name = ''m'', avma_start = 0x10000, avma_end = 0x20000, base_avma = 0x10000,
     base_svma = 0, unwind_data = DwarfCfiIndexAndEhFrame \<lparr>sorted_fde_pc_starts = [0], fde_offsets = [0]\<rparr> []
       \<lparr>ba_eh_frame = 0, ba_eh_frame_hdr = 0, ba_text = 0, ba_got = 0\<rparr>\<rparr>"

definition wide_stack :: read_stack where
  "wide_stack = [0x200 \<mapsto> 0x300, 0x208 \<mapsto> 0x401000, 0x210 \<mapsto> 0x402000]"

abbreviation wide_impl where
  "wide_impl \<equiv> unwind_frame_impl (x86_ops (one_function popping_function) frameless_parser pop_crate (\<lambda>_ _ _. wide_gimli))"

abbreviation wide_frame where
  "wide_frame read \<equiv> UnwindFrame (InstructionPointer 0x11001) (x86_new 0x11001 0x100 0x200) read"

lemma wide_offsets:
  "add_cfa_offset 0x200 24 = Some 0x218" "add_cfa_offset 0x218 (- 24) = Some 0x200" "add_cfa_offset 0x218 (- 8) = Some 0x210"
  by (simp_all add: add_cfa_offset_def try_signed_def try_unsigned_def checked_add_signed_int_def)

lemma wide_row_result:
  "unwind_frame_x86 parse wide_row (x86_new 0x11001 0x100 0x200) first False read =
     (case read 0x210 of
        None \<Rightarrow> (Inl CouldNotRecoverReturnAddress, x86_new 0x11001 0x100 0x200)
      | Some ra \<Rightarrow> (Inr (Uncacheable ra), x86_set_sp 0x218 (x86_set_bp (case read 0x200 of Some v \<Rightarrow> v | None \<Rightarrow> 0x200)
          (x86_set_ip ra (x86_new 0x11001 0x100 0x200)))))"
  by (simp add: wide_row_def unwind_frame_x86_def generic_unwind_frame_x86_def x86_numbers Let_def
      return_address_x86_def dwarf_get_x86_def translate_bp_x86_def wide_offsets split: option.split)

lemma wide_impl_result:
  "wide_impl elf_module (InstructionPointer 0x11001) 0x1001 (x86_new 0x11001 0x100 0x200) read =
     (case read 0x210 of
        None \<Rightarrow> (Inl (DwarfError CouldNotRecoverReturnAddress), x86_new 0x11001 0x100 0x200)
      | Some ra \<Rightarrow> (Inr (Uncacheable ra), x86_set_sp 0x218 (x86_set_bp (case read 0x200 of Some v \<Rightarrow> v | None \<Rightarrow> 0x200)
          (x86_set_ip ra (x86_new 0x11001 0x100 0x200)))))"
proof -
  have "fde_offset_for_relative_address \<lparr>sorted_fde_pc_starts = [0], fde_offsets = [0]\<rparr> 0x1001 = Some 0"
    by (simp add: fde_offset_for_relative_address_def binary_search_def bsearch_loop.simps)
  then show ?thesis
    by (simp add: elf_module_def x86_ops_def dwarf_impl_def unwind_frame_with_fde_def unwind_info_for_fde_def
        wide_gimli_def one_row_gimli_def Let_def wide_row_result split: option.split)
qed


theorem x86_dwarf_cache_transparent_witness:
  "\<exists>u counter'. unwinder_new 0 = Some (u, counter') \<and>
    session exec_x86 fallback_rule_x86 wide_impl u counter' cache_new
      [AddModule elf_module, wide_frame wide_stack, RemoveModule 0x10000, wide_frame wide_stack] =
    session_uncached exec_x86 fallback_rule_x86 wide_impl u counter'
      [AddModule elf_module, wide_frame wide_stack, RemoveModule 0x10000, wide_frame wide_stack]"
proof -
  let ?sops = "[AddModule elf_module, wide_frame wide_stack, RemoveModule 0x10000, wide_frame wide_stack]"
  obtain u :: "ModuleUnwindDataInternal UnwinderInternal" and c where u: "unwinder_new 0 = Some (u, c)"
    by (simp add: unwinder_new_def next_modules_generation_def checked_add_def)
  have dwarf: "\<forall>m. AddModule m \<in> set ?sops \<longrightarrow> has_dwarf_data (unwind_data m)"
    by (simp add: elf_module_def)
  have rel: "rel = 0x1001" if "may_answer elf_module 0x11001 rel" for rel
    using that by (simp add: may_answer_def elf_module_def word_uint_eq_iff)
  have ok: "\<forall>address regs read m rel. UnwindFrame address regs read \<in> set ?sops \<longrightarrow> AddModule m \<in> set ?sops \<longrightarrow>
      may_answer m (address_for_lookup address) rel \<longrightarrow> \<not> evaluation_failed (fst (wide_impl m address rel regs read))"
    by (auto simp del: unwind_frame_impl.simps simp: wide_impl_result wide_stack_def dest!: rel)
  from x86_dwarf_cache_transparent [OF u dwarf ok] u show ?thesis by blast
qed

text \<open>
  The condition is needed: a frame that cannot be evaluated because a word of its stack cannot be
  read leaves the fallback rule in the cache, and the next frame at the address, on a stack that
  can be read, is unwound by its frame pointer to another return address than without the cache.
\<close>

theorem failed_evaluation_stays_cached:
  defines "u \<equiv> \<lparr>modules = [[elf_module]], modules_generation = 0\<rparr>"
    and "regs \<equiv> x86_new 0x11001 0x100 0x200"
    and "address \<equiv> InstructionPointer 0x11001"
  shows "fst (fst (with_cache exec_x86 fallback_rule_x86 u wide_impl address regs
      (snd (with_cache exec_x86 fallback_rule_x86 u wide_impl address regs cache_new (\<lambda>_. None))) wide_stack)) =
      Inr (Some (0x401000, False))"
    and "fst (without_cache exec_x86 fallback_rule_x86 u wide_impl address regs wide_stack) =
      Inr (Some (0x402000, False))"
proof -
  have find: "find_module_for_address u (address_for_lookup address) = Some (elf_module, 0x1001)"
    by (simp add: u_def address_def find_module_for_address_def find_chunked_def
        candidate_in_chunk_def chunk_index_for_def binary_search_def bsearch_loop.simps elf_module_def
        try_unsigned_def)
  note impl = wide_impl_result [folded regs_def address_def]
  show "fst (without_cache exec_x86 fallback_rule_x86 u wide_impl address regs wide_stack) =
      Inr (Some (0x402000, False))"
    using find by (simp add: without_cache_def impl wide_stack_def del: unwind_frame_impl.simps)
  obtain r cache where w: "with_cache exec_x86 fallback_rule_x86 u wide_impl address regs cache_new (\<lambda>_. None) = (r, cache)"
    by fastforce
  have "fst (with_cache exec_x86 fallback_rule_x86 u wide_impl address regs cache wide_stack) =
      exec_rule exec_x86 fallback_rule_x86 (\<not> is_return_address address) regs wide_stack"
    by (rule failure_caches_fallback [OF _ _ find _ w])
      (simp_all add: impl rule_cache.wf_new rule_cache.held_new del: unwind_frame_impl.simps)
  moreover have "exec_x86 UnwindRuleX86_64.UseFramePointer f regs wide_stack = (Inr (Some 0x401000),
      x86_set_bp 0x300 (x86_set_sp 0x210 (x86_set_ip 0x401000 regs)))" for f
    using exec_x86_use_frame_pointer [of regs wide_stack "0x300" "0x401000" f] by (simp add: regs_def wide_stack_def)
  ultimately show "fst (fst (with_cache exec_x86 fallback_rule_x86 u wide_impl address regs
      (snd (with_cache exec_x86 fallback_rule_x86 u wide_impl address regs cache_new (\<lambda>_. None))) wide_stack)) =
      Inr (Some (0x401000, False))"
    unfolding w snd_conv by (simp add: exec_rule_def fallback_rule_x86_def not_interrupted_def del: unwind_frame_impl.simps)
qed

end
