(* ===== verification/Hazard.thy ===== *)
theory Hazard
  imports Prelude
begin

text \<open>
  The concurrency of \<^verbatim>\<open>src/state.rs\<close>: any number of readers that claim slots, acquire the current
  snapshot under hazard protection and release it, one writer at a time (the \<open>WRITER\<close> mutex)
  that publishes a new snapshot and reclaims retired ones, and the growth of the slot pool.
  Every access to \<open>CURRENT\<close>, to a hazard cell and to a chunk pointer that the protocol relies on
  is \<open>SeqCst\<close>, so the threads' steps interleave; the first load of \<open>CURRENT\<close> in
  \<open>acquire_snapshot\<close> is only \<open>Acquire\<close> and may return anything. Snapshots are addresses, and
  the allocator may hand out the address of a freed snapshot again.
\<close>

section \<open>States\<close>

type_synonym ptr = nat

text \<open>
  Where a reader is: scanning for a free slot, bumping the claim sequence of the one it took,
  holding a claim (slot and nonce), with a pointer loaded or stored as hazard, or using the
  validated snapshot; and the stages of \<open>release_slot\<close>.
\<close>

datatype reader =
    Idle
  | Scanning nat
  | Bumping nat
  | Claimed nat u64
  | Loaded nat u64 "ptr option"
  | Hazarded nat u64 ptr
  | NoSnapshot nat u64
  | Using nat u64 ptr
  | Retiring nat
  | Freeing nat

text \<open>
  Where the writer is: cloning the current snapshot, about to publish, reclaiming (pointers
  still to visit, pointers kept), scanning the slots for one pointer, about to free it.
\<close>

datatype writer =
    WIdle
  | Cloning "ptr option"
  | Publishing ptr
  | Reclaiming "ptr list" "ptr list"
  | ScanHazards ptr nat "ptr list" "ptr list"
  | Dropping ptr "ptr list" "ptr list"

record hstate =
  current :: "ptr option"
  alive :: "ptr set"
  slot_count :: nat
  in_use :: "nat \<Rightarrow> bool"
  seq :: "nat \<Rightarrow> u64"
  hazard :: "nat \<Rightarrow> ptr option"
  retired :: "ptr list"
  reader_at :: "nat \<Rightarrow> reader"
  writer_at :: writer

abbreviation set_reader :: "hstate \<Rightarrow> nat \<Rightarrow> reader \<Rightarrow> hstate" where
  "set_reader s t r \<equiv> s\<lparr>reader_at := (reader_at s)(t := r)\<rparr>"

definition SLOT_CHUNK :: nat where
  "SLOT_CHUNK = 16"

section \<open>Steps\<close>

text \<open>One step of reader \<open>t\<close>.\<close>

inductive reader_step :: "nat \<Rightarrow> hstate \<Rightarrow> hstate \<Rightarrow> bool" where
  start: "reader_at s t = Idle \<Longrightarrow> reader_step t s (set_reader s t (Scanning 0))"
| none_free: "reader_at s t = Scanning i \<Longrightarrow> slot_count s \<le> i \<Longrightarrow>
    reader_step t s (set_reader s t Idle)"
| taken: "reader_at s t = Scanning i \<Longrightarrow> i < slot_count s \<Longrightarrow> in_use s i \<Longrightarrow>
    reader_step t s (set_reader s t (Scanning (Suc i)))"
| claim: "reader_at s t = Scanning i \<Longrightarrow> i < slot_count s \<Longrightarrow> \<not> in_use s i \<Longrightarrow>
    reader_step t s (set_reader (s\<lparr>in_use := (in_use s)(i := True)\<rparr>) t (Bumping i))"
| bump: "reader_at s t = Bumping i \<Longrightarrow>
    reader_step t s (set_reader (s\<lparr>seq := (seq s)(i := seq s i + 1)\<rparr>) t (Claimed i (seq s i + 1)))"
| load: "reader_at s t = Claimed i n \<Longrightarrow> reader_step t s (set_reader s t (Loaded i n p))"
| store_null: "reader_at s t = Loaded i n None \<Longrightarrow>
    reader_step t s (set_reader (s\<lparr>hazard := (hazard s)(i := None)\<rparr>) t (NoSnapshot i n))"
| store: "reader_at s t = Loaded i n (Some p) \<Longrightarrow>
    reader_step t s (set_reader (s\<lparr>hazard := (hazard s)(i := Some p)\<rparr>) t (Hazarded i n p))"
| validate: "reader_at s t = Hazarded i n p \<Longrightarrow> current s = Some p \<Longrightarrow>
    reader_step t s (set_reader s t (Using i n p))"
| retry: "reader_at s t = Hazarded i n p \<Longrightarrow> current s \<noteq> Some p \<Longrightarrow>
    reader_step t s (set_reader s t (Claimed i n))"
| release: "reader_at s t = Using i n p \<or> reader_at s t = NoSnapshot i n \<Longrightarrow> seq s i = n \<Longrightarrow>
    reader_step t s (set_reader (s\<lparr>seq := (seq s)(i := n + 1)\<rparr>) t (Retiring i))"
| clear_hazard: "reader_at s t = Retiring i \<Longrightarrow>
    reader_step t s (set_reader (s\<lparr>hazard := (hazard s)(i := None)\<rparr>) t (Freeing i))"
| clear_in_use: "reader_at s t = Freeing i \<Longrightarrow>
    reader_step t s (set_reader (s\<lparr>in_use := (in_use s)(i := False)\<rparr>) t Idle)"

text \<open>
  One step of the writer. \<open>slots()\<close> reads the chunk pointers as it goes, so the scan ends at
  the number of slots there are when it gets there.
\<close>

inductive writer_step :: "hstate \<Rightarrow> hstate \<Rightarrow> bool" where
  lock: "writer_at s = WIdle \<Longrightarrow> writer_step s (s\<lparr>writer_at := Cloning (current s)\<rparr>)"
| alloc: "writer_at s = Cloning c \<Longrightarrow> p \<notin> alive s \<Longrightarrow>
    writer_step s (s\<lparr>alive := insert p (alive s), writer_at := Publishing p\<rparr>)"
| swap: "writer_at s = Publishing p \<Longrightarrow> r = (case current s of None \<Rightarrow> retired s | Some old \<Rightarrow> retired s @ [old]) \<Longrightarrow>
    writer_step s (s\<lparr>current := Some p, retired := [], writer_at := Reclaiming r []\<rparr>)"
| visit: "writer_at s = Reclaiming (p # todo) kept \<Longrightarrow>
    writer_step s (s\<lparr>writer_at := ScanHazards p 0 todo kept\<rparr>)"
| hazarded: "writer_at s = ScanHazards p i todo kept \<Longrightarrow> i < slot_count s \<Longrightarrow> hazard s i = Some p \<Longrightarrow>
    writer_step s (s\<lparr>writer_at := Reclaiming todo (kept @ [p])\<rparr>)"
| not_here: "writer_at s = ScanHazards p i todo kept \<Longrightarrow> i < slot_count s \<Longrightarrow> hazard s i \<noteq> Some p \<Longrightarrow>
    writer_step s (s\<lparr>writer_at := ScanHazards p (Suc i) todo kept\<rparr>)"
| not_hazarded: "writer_at s = ScanHazards p i todo kept \<Longrightarrow> slot_count s \<le> i \<Longrightarrow>
    writer_step s (s\<lparr>writer_at := Dropping p todo kept\<rparr>)"
| free: "writer_at s = Dropping p todo kept \<Longrightarrow>
    writer_step s (s\<lparr>alive := alive s - {p}, writer_at := Reclaiming todo kept\<rparr>)"
| unlock: "writer_at s = Reclaiming [] kept \<Longrightarrow>
    writer_step s (s\<lparr>retired := kept, writer_at := WIdle\<rparr>)"

inductive hstep :: "hstate \<Rightarrow> hstate \<Rightarrow> bool" where
  reader: "reader_step t s s' \<Longrightarrow> hstep s s'"
| writer: "writer_step s s' \<Longrightarrow> hstep s s'"
| grow: "hstep s (s\<lparr>slot_count := slot_count s + SLOT_CHUNK\<rparr>)"

definition hstart :: hstate where
  "hstart = \<lparr>current = None, alive = {}, slot_count = 0, in_use = (\<lambda>_. False), seq = (\<lambda>_. 0),
     hazard = (\<lambda>_. None), retired = [], reader_at = (\<lambda>_. Idle), writer_at = WIdle\<rparr>"

section \<open>The invariant\<close>

text \<open>The slot a reader owns, and the nonce it holds for it.\<close>

fun owns :: "reader \<Rightarrow> nat option" where
  "owns Idle = None"
| "owns (Scanning _) = None"
| "owns (Bumping i) = Some i"
| "owns (Claimed i n) = Some i"
| "owns (Loaded i n p) = Some i"
| "owns (Hazarded i n p) = Some i"
| "owns (NoSnapshot i n) = Some i"
| "owns (Using i n p) = Some i"
| "owns (Retiring i) = Some i"
| "owns (Freeing i) = Some i"

fun nonce_of :: "reader \<Rightarrow> u64 option" where
  "nonce_of (Claimed i n) = Some n"
| "nonce_of (Loaded i n p) = Some n"
| "nonce_of (Hazarded i n p) = Some n"
| "nonce_of (NoSnapshot i n) = Some n"
| "nonce_of (Using i n p) = Some n"
| "nonce_of _ = None"

fun protects :: "reader \<Rightarrow> ptr option" where
  "protects (Hazarded i n p) = Some p"
| "protects (Using i n p) = Some p"
| "protects _ = None"

text \<open>The retired pointers the writer still has, wherever it is, and the one it publishes.\<close>

fun writer_retired :: "writer \<Rightarrow> ptr list" where
  "writer_retired (Reclaiming todo kept) = todo @ kept"
| "writer_retired (ScanHazards p i todo kept) = p # todo @ kept"
| "writer_retired (Dropping p todo kept) = p # todo @ kept"
| "writer_retired _ = []"

fun reclaiming :: "writer \<Rightarrow> bool" where
  "reclaiming (Reclaiming todo kept) = True"
| "reclaiming (ScanHazards p i todo kept) = True"
| "reclaiming (Dropping p todo kept) = True"
| "reclaiming _ = False"

fun publishing :: "writer \<Rightarrow> ptr list" where
  "publishing (Publishing p) = [p]"
| "publishing _ = []"

definition pointers :: "hstate \<Rightarrow> ptr list" where
  "pointers s = (case current s of None \<Rightarrow> [] | Some p \<Rightarrow> [p]) @ retired s @
     writer_retired (writer_at s) @ publishing (writer_at s)"

definition reader_ok :: "hstate \<Rightarrow> reader \<Rightarrow> bool" where
  "reader_ok s r \<longleftrightarrow>
     (\<forall>i. owns r = Some i \<longrightarrow> i < slot_count s \<and> in_use s i \<and>
        (\<forall>n. nonce_of r = Some n \<longrightarrow> seq s i = n) \<and> (\<forall>p. protects r = Some p \<longrightarrow> hazard s i = Some p))"

definition slots_ok :: "hstate \<Rightarrow> bool" where
  "slots_ok s \<longleftrightarrow> (\<forall>t. reader_ok s (reader_at s t)) \<and>
     (\<forall>t u i. owns (reader_at s t) = Some i \<longrightarrow> owns (reader_at s u) = Some i \<longrightarrow> t = u)"

text \<open>A scan for a snapshot in use has not passed the slot that protects it.\<close>

fun scan_ok :: "writer \<Rightarrow> nat \<Rightarrow> ptr \<Rightarrow> bool" where
  "scan_ok (ScanHazards q j todo kept) i p = (q = p \<longrightarrow> j \<le> i)"
| "scan_ok (Dropping q todo kept) i p = (q \<noteq> p)"
| "scan_ok _ i p = True"

definition hinv :: "hstate \<Rightarrow> bool" where
  "hinv s \<longleftrightarrow> slots_ok s \<and> distinct (pointers s) \<and> set (pointers s) \<subseteq> alive s \<and>
     (reclaiming (writer_at s) \<longrightarrow> retired s = []) \<and>
     (\<forall>c. writer_at s = Cloning c \<longrightarrow> c = current s) \<and>
     (\<forall>t i n p. reader_at s t = Using i n p \<longrightarrow>
        p \<in> set (pointers s) - set (publishing (writer_at s)) \<and> scan_ok (writer_at s) i p)"

text \<open>
  A reader that keeps to its own slot, or takes one nobody owns, disturbs no other reader.
\<close>

lemma slots_ok_update:
  assumes ok: "slots_ok s" and upd: "reader_at s' = (reader_at s)(t := r)"
    and new: "reader_ok s' r" and r: "owns r = None \<or> owns r = Some k"
    and others: "\<And>u. u \<noteq> t \<Longrightarrow> owns (reader_at s u) \<noteq> Some k"
    and same: "slot_count s' = slot_count s"
      "\<And>i. i \<noteq> k \<Longrightarrow> in_use s' i = in_use s i \<and> seq s' i = seq s i \<and> hazard s' i = hazard s i"
  shows "slots_ok s'"
proof -
  have "reader_ok s' (reader_at s u)" if "u \<noteq> t" for u
  proof -
    have "reader_ok s (reader_at s u)" using ok by (simp add: slots_ok_def)
    with others [OF that] same show ?thesis by (auto simp: reader_ok_def)
  qed
  with new have "\<forall>u. reader_ok s' (reader_at s' u)" by (simp add: upd)
  moreover have "a = b" if "owns (reader_at s' a) = Some i" "owns (reader_at s' b) = Some i" for a b i
    using ok that r others by (auto simp: upd slots_ok_def split: if_splits)
  ultimately show ?thesis by (simp add: slots_ok_def)
qed

lemma slots_ok_own:
  assumes ok: "slots_ok s" and own: "owns (reader_at s t) = Some k"
    and upd: "reader_at s' = (reader_at s)(t := r)" "reader_ok s' r" "owns r = None \<or> owns r = Some k"
    and same: "slot_count s' = slot_count s"
      "\<And>i. i \<noteq> k \<Longrightarrow> in_use s' i = in_use s i \<and> seq s' i = seq s i \<and> hazard s' i = hazard s i"
  shows "slots_ok s'"
  using ok own by (intro slots_ok_update [OF ok upd _ same]) (auto simp: slots_ok_def)

lemma slots_ok_unowned:
  assumes ok: "slots_ok s" and upd: "s' = set_reader s t r" "owns r = None"
  shows "slots_ok s'"
proof -
  have "reader_ok s' r" using upd(2) by (simp add: reader_ok_def)
  moreover have "reader_ok s' (reader_at s u)" for u
    using ok upd(1) by (simp add: slots_ok_def reader_ok_def)
  ultimately show ?thesis using ok upd by (auto simp: slots_ok_def)
qed

lemma slots_ok_reader:
  assumes step: "reader_step t s s'" and ok: "slots_ok s"
  shows "slots_ok s'"
proof -
  have mine: "reader_ok s (reader_at s t)" and all_ok: "\<And>u. reader_ok s (reader_at s u)"
    using ok by (auto simp: slots_ok_def)
  from step show ?thesis
  proof (cases rule: reader_step.cases)
    case (claim i)
    have "owns (reader_at s u) \<noteq> Some i" for u
      using all_ok [of u] claim by (auto simp: reader_ok_def)
    with claim show ?thesis
      by (intro slots_ok_update [OF ok, where t = t and r = "Bumping i" and k = i])
        (simp_all add: reader_ok_def)
  next
    case (bump i)
    with mine show ?thesis by (intro slots_ok_own [OF ok, of t i s' "Claimed i (seq s i + 1)"]) (auto simp: reader_ok_def)
  next
    case (load i n p)
    with mine show ?thesis by (intro slots_ok_own [OF ok, of t i s' "Loaded i n p"]) (auto simp: reader_ok_def)
  next
    case (store_null i n)
    with mine show ?thesis by (intro slots_ok_own [OF ok, of t i s' "NoSnapshot i n"]) (auto simp: reader_ok_def)
  next
    case (store i n p)
    with mine show ?thesis by (intro slots_ok_own [OF ok, of t i s' "Hazarded i n p"]) (auto simp: reader_ok_def)
  next
    case (validate i n p)
    with mine show ?thesis by (intro slots_ok_own [OF ok, of t i s' "Using i n p"]) (auto simp: reader_ok_def)
  next
    case (retry i n p)
    with mine show ?thesis by (intro slots_ok_own [OF ok, of t i s' "Claimed i n"]) (auto simp: reader_ok_def)
  next
    case (release i n p)
    with mine show ?thesis by (intro slots_ok_own [OF ok, of t i s' "Retiring i"]) (auto simp: reader_ok_def)
  next
    case (clear_hazard i)
    with mine show ?thesis by (intro slots_ok_own [OF ok, of t i s' "Freeing i"]) (auto simp: reader_ok_def)
  next
    case (clear_in_use i)
    with mine show ?thesis by (intro slots_ok_own [OF ok, of t i s' "Idle"]) (auto simp: reader_ok_def)
  qed (use slots_ok_unowned [OF ok] in auto)
qed

lemma hinv_reader:
  assumes step: "reader_step t s s'" and inv: "hinv s"
  shows "hinv s'"
proof -
  have ok: "slots_ok s'" using step inv by (auto simp: hinv_def intro: slots_ok_reader)
  have same: "current s' = current s" "alive s' = alive s" "retired s' = retired s"
    "writer_at s' = writer_at s"
    using step by (cases rule: reader_step.cases; simp)+
  then have ptrs: "pointers s' = pointers s" by (simp add: pointers_def)
  have use_old: "p \<in> set (pointers s) - set (publishing (writer_at s)) \<and> scan_ok (writer_at s) i p"
    if "reader_at s u = Using i n p" for u i n p
    using inv that by (auto simp: hinv_def)
  have use_new: "p \<in> set (pointers s) - set (publishing (writer_at s)) \<and> scan_ok (writer_at s) i p"
    if "current s = Some p" for i p
    using inv that by (cases "writer_at s") (auto simp: hinv_def pointers_def)
  have "reader_at s' u = Using i n p \<Longrightarrow> reader_at s u = Using i n p \<or> current s = Some p" for u i n p
    using step by (cases rule: reader_step.cases) (auto split: if_splits)
  with use_old use_new ok inv show ?thesis unfolding hinv_def ptrs same by blast
qed

lemma hinv_writer:
  assumes step: "writer_step s s'" and inv: "hinv s"
  shows "hinv s'"
proof -
  have readers: "reader_at s' = reader_at s" "slot_count s' = slot_count s" "in_use s' = in_use s"
    "seq s' = seq s" "hazard s' = hazard s"
    using step by (cases rule: writer_step.cases; simp)+
  then have ok: "slots_ok s'" using inv by (simp add: hinv_def slots_ok_def reader_ok_def)
  have d: "distinct (pointers s)" and sub: "set (pointers s) \<subseteq> alive s"
    and empty: "reclaiming (writer_at s) \<Longrightarrow> retired s = []"
    and cloning: "\<And>c. writer_at s = Cloning c \<Longrightarrow> c = current s"
    using inv by (auto simp: hinv_def)
  have used: "p \<in> set (pointers s) - set (publishing (writer_at s))" "scan_ok (writer_at s) i p"
    "i < slot_count s" "hazard s i = Some p" if "reader_at s u = Using i n p" for u i n p
  proof -
    show "p \<in> set (pointers s) - set (publishing (writer_at s))" "scan_ok (writer_at s) i p"
      using inv that by (auto simp: hinv_def)
    have "reader_ok s (Using i n p)" using inv that [symmetric] by (auto simp: hinv_def slots_ok_def)
    then show "i < slot_count s" "hazard s i = Some p" by (auto simp: reader_ok_def)
  qed
  have "distinct (pointers s') \<and> set (pointers s') \<subseteq> alive s' \<and>
      (reclaiming (writer_at s') \<longrightarrow> retired s' = []) \<and>
      (\<forall>c. writer_at s' = Cloning c \<longrightarrow> c = current s')"
    using step d sub empty
    by (cases rule: writer_step.cases) (auto simp: pointers_def split: option.splits)
  moreover have "p \<in> set (pointers s') - set (publishing (writer_at s')) \<and> scan_ok (writer_at s') i p"
    if u: "reader_at s u = Using i n p" for u i n p
    using step
  proof (cases rule: writer_step.cases)
    case (alloc c q)
    then show ?thesis using used(1) [OF u] sub by (auto simp: pointers_def)
  next
    case (not_here q j todo kept)
    then show ?thesis using used [OF u] by (auto simp: pointers_def Suc_le_eq le_less)
  next
    case (not_hazarded q j todo kept)
    then show ?thesis using used [OF u] by (auto simp: pointers_def)
  next
    case (swap q r)
    then show ?thesis using used(1) [OF u] by (auto simp: pointers_def split: option.splits)
  qed (use used [OF u] empty in \<open>auto simp: pointers_def\<close>)
  ultimately show ?thesis using ok unfolding hinv_def readers(1) by blast
qed

lemma hinv_step: "hstep s s' \<Longrightarrow> hinv s \<Longrightarrow> hinv s'"
proof (induction rule: hstep.induct)
  case (grow s)
  let ?s = "s\<lparr>slot_count := slot_count s + SLOT_CHUNK\<rparr>"
  have "reader_ok ?s r" if "reader_ok s r" for r
    using that by (auto simp: reader_ok_def intro: trans_less_add1)
  then have "slots_ok ?s" using grow by (simp add: hinv_def slots_ok_def)
  moreover have "pointers ?s = pointers s" by (simp add: pointers_def)
  ultimately show ?case using grow unfolding hinv_def by simp
qed (auto intro: hinv_reader hinv_writer)

lemma hinv_start: "hinv hstart"
  by (simp add: hinv_def hstart_def slots_ok_def reader_ok_def pointers_def)

lemma hinv_reachable: "hstep\<^sup>*\<^sup>* hstart s \<Longrightarrow> hinv s"
proof (induction rule: rtranclp_induct)
  case (step s s')
  then show ?case by (blast intro: hinv_step)
qed (rule hinv_start)

section \<open>Properties\<close>

text \<open>
  C1: a reader never uses a freed snapshot. In every reachable state of any number of readers,
  of the writer and of the pool's growth, each snapshot a reader has validated is still
  allocated and the reader's own hazard cell protects it, the current snapshot is allocated,
  and so is the one the writer is cloning.
\<close>

theorem no_use_after_free:
  assumes "hstep\<^sup>*\<^sup>* hstart s"
  shows "(reader_at s t = Using i n p \<longrightarrow> p \<in> alive s \<and> hazard s i = Some p) \<and>
    (current s = Some q \<longrightarrow> q \<in> alive s) \<and> (writer_at s = Cloning (Some q) \<longrightarrow> q \<in> alive s)"
proof -
  have inv: "hinv s" by (rule hinv_reachable [OF assms])
  have sub: "set (pointers s) \<subseteq> alive s" using inv by (simp add: hinv_def)
  have "p \<in> alive s \<and> hazard s i = Some p" if "reader_at s t = Using i n p"
  proof
    show "p \<in> alive s" using inv that sub unfolding hinv_def by blast
    have "reader_ok s (Using i n p)" using inv that [symmetric] by (auto simp: hinv_def slots_ok_def)
    then show "hazard s i = Some p" by (simp add: reader_ok_def)
  qed
  moreover have "q \<in> alive s" if "current s = Some q" using that sub by (auto simp: pointers_def)
  moreover have "current s = Some q" if "writer_at s = Cloning (Some q)"
    using inv that by (auto simp: hinv_def)
  ultimately show ?thesis by blast
qed

text \<open>
  C6: slots are claimed exclusively. No two readers ever own one slot, an owned slot is
  marked in use and exists, and the nonce an owner holds is the slot's current claim
  sequence, so a cursor that presents it is the live one.
\<close>

theorem slot_claims_exclusive:
  assumes "hstep\<^sup>*\<^sup>* hstart s"
  shows "(owns (reader_at s t) = Some i \<longrightarrow> i < slot_count s \<and> in_use s i) \<and>
    (owns (reader_at s t) = Some i \<and> owns (reader_at s u) = Some i \<longrightarrow> t = u) \<and>
    (owns (reader_at s t) = Some i \<and> nonce_of (reader_at s t) = Some n \<longrightarrow> seq s i = n)"
proof -
  have "slots_ok s" using hinv_reachable [OF assms] by (simp add: hinv_def)
  then show ?thesis unfolding slots_ok_def reader_ok_def by blast
qed

text \<open>
  A run in which a writer publishes snapshot 7 and a reader claims slot 0 and validates it.
\<close>

lemma example_run:
  obtains s where "hstep\<^sup>*\<^sup>* hstart s" "reader_at s 0 = Using 0 1 7"
proof -
  define s1 where "s1 = hstart\<lparr>slot_count := slot_count hstart + SLOT_CHUNK\<rparr>"
  define s2 where "s2 = s1\<lparr>writer_at := Cloning (current s1)\<rparr>"
  define s3 where "s3 = s2\<lparr>alive := insert 7 (alive s2), writer_at := Publishing 7\<rparr>"
  define s4 where "s4 = s3\<lparr>current := Some 7, retired := [], writer_at := Reclaiming [] []\<rparr>"
  define s5 where "s5 = set_reader s4 0 (Scanning 0)"
  define s6 where "s6 = set_reader (s5\<lparr>in_use := (in_use s5)(0 := True)\<rparr>) 0 (Bumping 0)"
  define s7 where "s7 = set_reader (s6\<lparr>seq := (seq s6)(0 := seq s6 0 + 1)\<rparr>) 0 (Claimed 0 (seq s6 0 + 1))"
  define s8 where "s8 = set_reader s7 0 (Loaded 0 1 (Some 7))"
  define s9 where "s9 = set_reader (s8\<lparr>hazard := (hazard s8)(0 := Some 7)\<rparr>) 0 (Hazarded 0 1 7)"
  define s10 where "s10 = set_reader s9 0 (Using 0 1 7)"
  note defs = hstart_def s1_def s2_def s3_def s4_def s5_def s6_def s7_def s8_def s9_def s10_def
    SLOT_CHUNK_def
  have "hstep hstart s1" unfolding s1_def by (rule hstep.grow)
  also have "hstep\<^sup>*\<^sup>* s1 s2" unfolding s2_def
    by (intro r_into_rtranclp hstep.writer writer_step.lock) (simp add: defs)
  also have "hstep\<^sup>*\<^sup>* s2 s3" unfolding s3_def
    by (rule r_into_rtranclp, rule hstep.writer, rule writer_step.alloc) (auto simp: defs)
  also have "hstep\<^sup>*\<^sup>* s3 s4" unfolding s4_def
    by (rule r_into_rtranclp, rule hstep.writer, rule writer_step.swap) (auto simp: defs)
  also have "hstep\<^sup>*\<^sup>* s4 s5" unfolding s5_def
    by (rule r_into_rtranclp, rule hstep.reader, rule reader_step.start) (auto simp: defs)
  also have "hstep\<^sup>*\<^sup>* s5 s6" unfolding s6_def
    by (rule r_into_rtranclp, rule hstep.reader, rule reader_step.claim) (auto simp: defs)
  also have "hstep\<^sup>*\<^sup>* s6 s7" unfolding s7_def
    by (rule r_into_rtranclp, rule hstep.reader, rule reader_step.bump) (auto simp: defs)
  also have "hstep\<^sup>*\<^sup>* s7 s8" unfolding s8_def
    by (rule r_into_rtranclp, rule hstep.reader, rule reader_step.load) (auto simp: defs)
  also have "hstep\<^sup>*\<^sup>* s8 s9" unfolding s9_def
    by (rule r_into_rtranclp, rule hstep.reader, rule reader_step.store) (auto simp: defs)
  also have "hstep\<^sup>*\<^sup>* s9 s10" unfolding s10_def
    by (rule r_into_rtranclp, rule hstep.reader, rule reader_step.validate) (auto simp: defs)
  finally have "hstep\<^sup>*\<^sup>* hstart s10" .
  moreover have "reader_at s10 0 = Using 0 1 7" by (simp add: s10_def)
  ultimately show ?thesis by (rule that)
qed

theorem no_use_after_free_witness:
  "\<exists>s. hstep\<^sup>*\<^sup>* hstart s \<and> reader_at s 0 = Using 0 1 7 \<and> 7 \<in> alive s \<and> hazard s 0 = Some 7"
proof -
  obtain s where s: "hstep\<^sup>*\<^sup>* hstart s" "reader_at s 0 = Using 0 1 7" by (rule example_run)
  with no_use_after_free [OF s(1), of 0 0 1 7] show ?thesis by blast
qed

theorem slot_claims_exclusive_witness:
  "\<exists>s. hstep\<^sup>*\<^sup>* hstart s \<and> owns (reader_at s 0) = Some 0 \<and> in_use s 0 \<and> seq s 0 = 1"
proof -
  obtain s where s: "hstep\<^sup>*\<^sup>* hstart s" "reader_at s 0 = Using 0 1 7" by (rule example_run)
  with slot_claims_exclusive [OF s(1), of 0 0 0 1] show ?thesis by auto
qed

end
