(* ===== verification/State.thy ===== *)
theory State
  imports Core_Types Rule_Cache Hazard
begin

text \<open>
  The global unwinder state of \<^verbatim>\<open>src/state.rs\<close> and its operations, each run without interference:
  the slot pool, claiming and releasing a slot, acquiring the current snapshot, and the
  writer's publication and reclamation. The theory \<open>Hazard\<close> runs the same operations step by
  step and interleaved; here they are functions, which the cursor and the module registry
  compose.
\<close>

section \<open>Data\<close>

record 'u Snapshot =
  unw :: 'u
  max_code_addr :: u64

record ('rule, 'regs) SlotInner =
  sl_cache :: "'rule RuleCache"
  sl_regs :: 'regs
  cur_addr :: FrameAddress
  cur_ip :: u64
  walk_done :: bool
  snapshot :: "ptr option"
  stack_lo :: u64
  stack_hi :: u64
  stack_lo2 :: u64
  stack_hi2 :: u64

record ('rule, 'regs) Slot =
  slot_in_use :: bool
  slot_seq :: u64
  slot_hazard :: "ptr option"
  slot_inner :: "('rule, 'regs) SlotInner"

text \<open>
  The statics: \<open>CURRENT\<close>, the heap of snapshots, the slots of all chunks in index order, the
  writer's retired list and the count of registered threads.
\<close>

record ('rule, 'regs, 'u) Global =
  g_current :: "ptr option"
  g_heap :: "ptr \<Rightarrow> 'u Snapshot option"
  g_slots :: "('rule, 'regs) Slot list"
  g_retired :: "ptr list"
  g_threads :: nat

definition placeholder_inner :: "'regs \<Rightarrow> ('rule, 'regs) SlotInner" where
  "placeholder_inner zero_regs =
     \<lparr>sl_cache = cache_new, sl_regs = zero_regs, cur_addr = from_instruction_pointer 0, cur_ip = 0,
      walk_done = True, snapshot = None, stack_lo = 0, stack_hi = 0, stack_lo2 = 0, stack_hi2 = 0\<rparr>"

definition slot_new :: "'regs \<Rightarrow> ('rule, 'regs) Slot" where
  "slot_new zero_regs = \<lparr>slot_in_use = False, slot_seq = 0, slot_hazard = None,
     slot_inner = placeholder_inner zero_regs\<rparr>"

definition global_start :: "('rule, 'regs, 'u) Global" where
  "global_start = \<lparr>g_current = None, g_heap = (\<lambda>_. None), g_slots = [], g_retired = [], g_threads = 0\<rparr>"

section \<open>The slot pool\<close>

definition MAX_SLOT_CHUNKS :: nat where "MAX_SLOT_CHUNKS = 64"
definition DEFAULT_SLOTS :: nat where "DEFAULT_SLOTS = 16"
definition SLOTS_PER_THREAD :: nat where "SLOTS_PER_THREAD = 2"

lemmas pool_sizes = SLOT_CHUNK_def MAX_SLOT_CHUNKS_def DEFAULT_SLOTS_def SLOTS_PER_THREAD_def

text \<open>\<open>ensure_slots\<close>: whole chunks are added until there are \<open>n\<close> slots or the maximum.\<close>

function grow_pool :: "'regs \<Rightarrow> nat \<Rightarrow> ('rule, 'regs) Slot list \<Rightarrow> ('rule, 'regs) Slot list" where
  "grow_pool zero_regs n ss =
     (if length ss < n \<and> length ss < SLOT_CHUNK * MAX_SLOT_CHUNKS
      then grow_pool zero_regs n (ss @ replicate SLOT_CHUNK (slot_new zero_regs))
      else ss)"
  by pat_completeness auto
termination
  by (relation "measure (\<lambda>(_, _, ss). SLOT_CHUNK * MAX_SLOT_CHUNKS - length ss)")
    (auto simp: pool_sizes)

declare grow_pool.simps [simp del]

definition ensure_slots :: "'regs \<Rightarrow> nat \<Rightarrow> ('rule, 'regs, 'u) Global \<Rightarrow> ('rule, 'regs, 'u) Global" where
  "ensure_slots zero_regs n g = g\<lparr>g_slots := grow_pool zero_regs n (g_slots g)\<rparr>"

definition state_init :: "'regs \<Rightarrow> nat \<Rightarrow> ('rule, 'regs, 'u) Global \<Rightarrow> ('rule, 'regs, 'u) Global" where
  "state_init zero_regs num_slots g =
     ensure_slots zero_regs (if num_slots = 0 then DEFAULT_SLOTS else num_slots) g"

definition thread_registered :: "'regs \<Rightarrow> ('rule, 'regs, 'u) Global \<Rightarrow> ('rule, 'regs, 'u) Global" where
  "thread_registered zero_regs g =
     (let threads = g_threads g + 1
      in ensure_slots zero_regs (DEFAULT_SLOTS + SLOTS_PER_THREAD * threads) (g\<lparr>g_threads := threads\<rparr>))"

definition slot :: "('rule, 'regs, 'u) Global \<Rightarrow> nat \<Rightarrow> ('rule, 'regs) Slot option" where
  "slot g idx = (if idx < length (g_slots g) then Some (g_slots g ! idx) else None)"

definition update_slot :: "nat \<Rightarrow> (('rule, 'regs) Slot \<Rightarrow> ('rule, 'regs) Slot) \<Rightarrow>
    ('rule, 'regs, 'u) Global \<Rightarrow> ('rule, 'regs, 'u) Global" where
  "update_slot idx f g = g\<lparr>g_slots := (g_slots g)[idx := f (g_slots g ! idx)]\<rparr>"

text \<open>\<open>fetch_add\<close> on the claim sequence wraps.\<close>

definition claim_slot :: "('rule, 'regs, 'u) Global \<Rightarrow> (nat \<times> u64) option \<times> ('rule, 'regs, 'u) Global" where
  "claim_slot g =
     (case position (\<lambda>s. \<not> slot_in_use s) (g_slots g) of
        None \<Rightarrow> (None, g)
      | Some i \<Rightarrow>
          (let nonce = slot_seq (g_slots g ! i) + 1
           in (Some (i, nonce), update_slot i (\<lambda>s. s\<lparr>slot_in_use := True, slot_seq := nonce\<rparr>) g)))"

definition nonce_matches :: "('rule, 'regs, 'u) Global \<Rightarrow> nat \<Rightarrow> u64 \<Rightarrow> bool" where
  "nonce_matches g idx nonce =
     (case slot g idx of Some s \<Rightarrow> slot_seq s = nonce | None \<Rightarrow> False)"

definition release_slot :: "nat \<Rightarrow> u64 \<Rightarrow> ('rule, 'regs, 'u) Global \<Rightarrow> ('rule, 'regs, 'u) Global" where
  "release_slot idx nonce g =
     (case slot g idx of
        None \<Rightarrow> g
      | Some s \<Rightarrow>
          if slot_seq s \<noteq> nonce then g
          else update_slot idx (\<lambda>s. s\<lparr>slot_seq := nonce + 1, slot_hazard := None,
                 slot_inner := (slot_inner s)\<lparr>snapshot := None\<rparr>, slot_in_use := False\<rparr>) g)"

text \<open>Without a concurrent writer the recheck succeeds the first time.\<close>

definition acquire_snapshot :: "nat \<Rightarrow> ('rule, 'regs, 'u) Global \<Rightarrow>
    ptr option \<times> ('rule, 'regs, 'u) Global" where
  "acquire_snapshot idx g =
     (case slot g idx of
        None \<Rightarrow> (None, g)
      | Some _ \<Rightarrow> (g_current g, update_slot idx (\<lambda>s. s\<lparr>slot_hazard := g_current g\<rparr>) g))"

section \<open>The writer\<close>

definition is_hazarded :: "('rule, 'regs, 'u) Global \<Rightarrow> ptr \<Rightarrow> bool" where
  "is_hazarded g p = list_ex (\<lambda>s. slot_hazard s = Some p) (g_slots g)"

definition reclaim :: "('rule, 'regs, 'u) Global \<Rightarrow> ('rule, 'regs, 'u) Global" where
  "reclaim g =
     (let (keep, drop_list) = partition (is_hazarded g) (g_retired g)
      in g\<lparr>g_retired := keep,
           g_heap := (\<lambda>p. if p \<in> set drop_list then None else g_heap g p)\<rparr>)"

text \<open>
  \<open>with_writer\<close>: \<open>f\<close> changes a clone of the current unwinder, or a new one; the result is boxed
  at a fresh address, published, and the old snapshot retired.
\<close>

definition with_writer :: "('u \<Rightarrow> u64) \<Rightarrow> 'u \<Rightarrow> ptr \<Rightarrow> ('u \<Rightarrow> 'r \<times> 'u) \<Rightarrow>
    ('rule, 'regs, 'u) Global \<Rightarrow> 'r \<times> ('rule, 'regs, 'u) Global" where
  "with_writer max_known new_unw boxed f g =
     (let cur_unw = (case g_current g of
                       None \<Rightarrow> new_unw
                     | Some cur \<Rightarrow> (case g_heap g cur of Some s \<Rightarrow> unw s | None \<Rightarrow> new_unw));
          (ret, u) = f cur_unw;
          old = g_current g;
          g1 = g\<lparr>g_heap := (g_heap g)(boxed \<mapsto> \<lparr>unw = u, max_code_addr = max_known u\<rparr>),
                 g_current := Some boxed,
                 g_retired := (case old of None \<Rightarrow> g_retired g | Some p \<Rightarrow> g_retired g @ [p])\<rparr>
      in (ret, reclaim g1))"

section \<open>The invariant\<close>

text \<open>
  The current snapshot is allocated and not retired, the retired ones are allocated and
  distinct, and the pool holds whole chunks up to its maximum.
\<close>

definition global_wf :: "('rule, 'regs, 'u) Global \<Rightarrow> bool" where
  "global_wf g \<longleftrightarrow>
     (\<forall>p. g_current g = Some p \<longrightarrow> g_heap g p \<noteq> None \<and> p \<notin> set (g_retired g)) \<and>
     (\<forall>p \<in> set (g_retired g). g_heap g p \<noteq> None) \<and> distinct (g_retired g) \<and>
     SLOT_CHUNK dvd length (g_slots g) \<and> length (g_slots g) \<le> SLOT_CHUNK * MAX_SLOT_CHUNKS"

lemma update_slot_simps [simp]:
  "g_current (update_slot i f g) = g_current g" "g_heap (update_slot i f g) = g_heap g"
  "g_retired (update_slot i f g) = g_retired g" "length (g_slots (update_slot i f g)) = length (g_slots g)"
  "g_threads (update_slot i f g) = g_threads g"
  by (simp_all add: update_slot_def)

lemma slot_update_slot:
  "i < length (g_slots g) \<Longrightarrow> slot (update_slot i f g) j = (if j = i then Some (f (g_slots g ! i)) else slot g j)"
  by (simp add: slot_def update_slot_def)

lemma update_slot_wf [simp]: "global_wf (update_slot i f g) = global_wf g"
  by (simp add: global_wf_def)

lemma claim_slot_wf: "global_wf g \<Longrightarrow> global_wf (snd (claim_slot g))"
  by (simp add: claim_slot_def Let_def split: option.splits)

lemma release_slot_wf: "global_wf g \<Longrightarrow> global_wf (release_slot i n g)"
  by (simp add: release_slot_def split: option.splits)

lemma acquire_snapshot_wf: "global_wf g \<Longrightarrow> global_wf (snd (acquire_snapshot i g))"
  by (simp add: acquire_snapshot_def split: option.splits)

lemma grow_pool_spec:
  "SLOT_CHUNK dvd length ss \<Longrightarrow> length ss \<le> SLOT_CHUNK * MAX_SLOT_CHUNKS \<Longrightarrow>
   \<exists>k. grow_pool z n ss = ss @ replicate (SLOT_CHUNK * k) (slot_new z) \<and>
     length (grow_pool z n ss) \<le> SLOT_CHUNK * MAX_SLOT_CHUNKS \<and>
     (length (grow_pool z n ss) \<ge> n \<or> length (grow_pool z n ss) = SLOT_CHUNK * MAX_SLOT_CHUNKS) \<and>
     (k = 0 \<or> length (grow_pool z n ss) < n + SLOT_CHUNK)"
proof (induction z n ss rule: grow_pool.induct)
  case (1 z n ss)
  show ?case
  proof (cases "length ss < n \<and> length ss < SLOT_CHUNK * MAX_SLOT_CHUNKS")
    case True
    let ?ss = "ss @ replicate SLOT_CHUNK (slot_new z)"
    have dvd: "SLOT_CHUNK dvd length ?ss" using "1.prems"(1) by simp
    have le: "length ?ss \<le> SLOT_CHUNK * MAX_SLOT_CHUNKS"
    proof -
      from "1.prems"(1) obtain q where "length ss = SLOT_CHUNK * q" by (elim dvdE)
      with True have "Suc q \<le> MAX_SLOT_CHUNKS" by (simp add: SLOT_CHUNK_def)
      then have "SLOT_CHUNK * Suc q \<le> SLOT_CHUNK * MAX_SLOT_CHUNKS" by (rule mult_le_mono2)
      with \<open>length ss = SLOT_CHUNK * q\<close> show ?thesis by simp
    qed
    from "1.IH" [OF True dvd le] obtain k where
      k: "grow_pool z n ?ss = ?ss @ replicate (SLOT_CHUNK * k) (slot_new z)"
      "length (grow_pool z n ?ss) \<le> SLOT_CHUNK * MAX_SLOT_CHUNKS"
      "length (grow_pool z n ?ss) \<ge> n \<or> length (grow_pool z n ?ss) = SLOT_CHUNK * MAX_SLOT_CHUNKS"
      "k = 0 \<or> length (grow_pool z n ?ss) < n + SLOT_CHUNK" by blast
    have e: "grow_pool z n ss = grow_pool z n ?ss" using True by (simp add: grow_pool.simps [of z n ss])
    have "grow_pool z n ss = ss @ replicate (SLOT_CHUNK * Suc k) (slot_new z)"
      unfolding e k(1) by (simp add: replicate_add)
    moreover have "length (grow_pool z n ss) < n + SLOT_CHUNK"
      using k(4) k(1) True unfolding e by (cases "k = 0") simp_all
    ultimately show ?thesis using k(2,3) unfolding e by blast
  next
    case False
    have "grow_pool z n ss = ss" by (subst grow_pool.simps) (rule if_not_P [OF False])
    with False "1.prems" show ?thesis by (intro exI [of _ 0]) auto
  qed
qed

lemma is_hazarded_update [simp]:
  "is_hazarded (g\<lparr>g_heap := h\<rparr>) = is_hazarded g" "is_hazarded (g\<lparr>g_current := c\<rparr>) = is_hazarded g"
  "is_hazarded (g\<lparr>g_retired := r\<rparr>) = is_hazarded g"
  by (simp_all add: is_hazarded_def fun_eq_iff)

lemma reclaim_wf: "global_wf g \<Longrightarrow> global_wf (reclaim g)"
  by (auto simp: global_wf_def reclaim_def Let_def)

lemma with_writer_wf:
  "global_wf g \<Longrightarrow> g_heap g boxed = None \<Longrightarrow> global_wf (snd (with_writer mk nu boxed f g))"
  unfolding with_writer_def
  by (auto simp: Let_def split: prod.splits intro!: reclaim_wf)
    (auto simp: global_wf_def split: option.splits)

section \<open>Properties\<close>

definition one_slot_state :: "(unit, unit, nat) Global" where
  "one_slot_state = \<lparr>g_current = Some 1, g_heap = [1 \<mapsto> \<lparr>unw = 10, max_code_addr = 0\<rparr>,
     2 \<mapsto> \<lparr>unw = 5, max_code_addr = 0\<rparr>], g_slots = replicate 16 (slot_new ()), g_retired = [2],
     g_threads = 0\<rparr>"

text \<open>
  A claim is exclusive and a nonce is good for one release. Claiming returns the first free
  slot, marks it and hands out a nonce that matches; releasing with that nonce clears the
  hazard, frees the slot and makes the nonce stale; releasing with any other nonce, or a
  second time with the same one, changes nothing. Nothing is claimed only when every slot is
  in use.
\<close>

theorem claim_release_slot:
  "case claim_slot g of
     (None, g') \<Rightarrow> g' = g \<and> (\<forall>s \<in> set (g_slots g). slot_in_use s)
   | (Some (i, nonce), g') \<Rightarrow>
       i < length (g_slots g) \<and> \<not> slot_in_use (g_slots g ! i) \<and>
       (\<forall>j < i. slot_in_use (g_slots g ! j)) \<and>
       slot_in_use (g_slots g' ! i) \<and> nonce_matches g' i nonce \<and>
       (let g'' = release_slot i nonce g' in
          \<not> slot_in_use (g_slots g'' ! i) \<and> slot_hazard (g_slots g'' ! i) = None \<and>
          \<not> nonce_matches g'' i nonce \<and> release_slot i nonce g'' = g'') \<and>
       (\<forall>other. other \<noteq> nonce \<longrightarrow> release_slot i other g' = g')"
proof (cases "position (\<lambda>s. \<not> slot_in_use s) (g_slots g)")
  case None
  moreover from None have "\<forall>s \<in> set (g_slots g). slot_in_use s" by (simp add: position_None_iff)
  ultimately show ?thesis by (simp add: claim_slot_def)
next
  case (Some i)
  from position_Some [OF Some] have i: "i < length (g_slots g)" "\<not> slot_in_use (g_slots g ! i)"
    "\<forall>j < i. slot_in_use (g_slots g ! j)" by auto
  then show ?thesis using Some
    by (simp add: claim_slot_def Let_def release_slot_def nonce_matches_def slot_def update_slot_def)
qed

theorem claim_release_slot_witness:
  "\<exists>g'. claim_slot one_slot_state = (Some (0, 1), g') \<and> slot_in_use (g_slots g' ! 0) \<and>
     release_slot 0 5 g' = g' \<and> \<not> slot_in_use (g_slots (release_slot 0 1 g') ! 0)"
proof -
  have "fst (claim_slot one_slot_state) = Some (0, 1)"
    by (simp add: claim_slot_def one_slot_state_def numeral_eq_Suc slot_new_def)
  then obtain g' where c: "claim_slot one_slot_state = (Some (0, 1), g')"
    by (cases "claim_slot one_slot_state") auto
  from claim_release_slot [of one_slot_state] show ?thesis
    unfolding c by (auto simp: Let_def)
qed

text \<open>
  C27: publication loses nothing that is in use. After a writer has run, the current snapshot
  is the changed unwinder, whatever was retired and is not protected by a hazard is freed,
  whatever a hazard protects is still there, and no other snapshot has been touched.
\<close>

theorem with_writer_publishes:
  assumes "global_wf g" "g_heap g boxed = None"
    and "with_writer max_known new_unw boxed f g = (ret, g')"
  shows "global_wf g' \<and> g_current g' = Some boxed \<and>
    (\<exists>u. g_heap g' boxed = Some \<lparr>unw = u, max_code_addr = max_known u\<rparr> \<and>
       (ret, u) = f (case g_current g of None \<Rightarrow> new_unw | Some p \<Rightarrow> unw (the (g_heap g p)))) \<and>
    (\<forall>p. p \<noteq> boxed \<longrightarrow>
       g_heap g' p =
         (if (p \<in> set (g_retired g) \<or> g_current g = Some p) \<and> \<not> is_hazarded g p then None
          else g_heap g p)) \<and>
    (\<forall>p \<in> set (g_retired g'). is_hazarded g p)"
proof -
  have fresh: "boxed \<notin> set (g_retired g)" "g_current g \<noteq> Some boxed"
    using assms(1,2) by (auto simp: global_wf_def)
  have cur: "g_current g = Some p \<Longrightarrow> \<exists>s. g_heap g p = Some s" for p
    using assms(1) by (auto simp: global_wf_def)
  have wf: "global_wf g'" using with_writer_wf [OF assms(1,2), of max_known new_unw f] assms(3) by simp
  show ?thesis
  proof (intro conjI wf)
    show "g_current g' = Some boxed"
      using assms(3) by (auto simp: with_writer_def reclaim_def Let_def split: prod.splits)
    show "\<exists>u. g_heap g' boxed = Some \<lparr>unw = u, max_code_addr = max_known u\<rparr> \<and>
        (ret, u) = f (case g_current g of None \<Rightarrow> new_unw | Some p \<Rightarrow> unw (the (g_heap g p)))"
      using assms(3) fresh
      by (cases "g_current g") (auto simp: with_writer_def reclaim_def Let_def split: prod.splits dest!: cur)
    show "\<forall>p. p \<noteq> boxed \<longrightarrow> g_heap g' p =
        (if (p \<in> set (g_retired g) \<or> g_current g = Some p) \<and> \<not> is_hazarded g p then None
         else g_heap g p)"
      using assms(3)
      by (cases "g_current g") (auto simp: with_writer_def reclaim_def Let_def split: prod.splits)
    show "\<forall>p \<in> set (g_retired g'). is_hazarded g p"
      using assms(3)
      by (auto simp: with_writer_def reclaim_def Let_def split: prod.splits)
  qed
qed

theorem with_writer_publishes_witness:
  "\<exists>g'. with_writer (\<lambda>_. 0) 0 3 (\<lambda>u. ((), u + 1)) one_slot_state = ((), g') \<and>
     g_current g' = Some 3 \<and> g_heap g' 2 = None"
proof -
  have wf: "global_wf one_slot_state"
    by (simp add: global_wf_def one_slot_state_def pool_sizes)
  obtain g' where w: "with_writer (\<lambda>_. 0) 0 3 (\<lambda>u. ((), u + 1)) one_slot_state = ((), g')"
    by (cases "with_writer (\<lambda>_. 0) 0 3 (\<lambda>u. ((), u + 1)) one_slot_state") auto
  have "\<not> is_hazarded one_slot_state 2"
    by (simp add: is_hazarded_def one_slot_state_def slot_new_def list_ex_iff)
  with with_writer_publishes [OF wf _ w] w show ?thesis
    by (auto simp: one_slot_state_def)
qed

text \<open>
  The pool grows in whole chunks, never touches the slots it has, and ends with at least
  the requested number or at its maximum.
\<close>

theorem ensure_slots_grows:
  assumes "global_wf g"
  shows "\<exists>k. g_slots (ensure_slots zero_regs n g) = g_slots g @ replicate (SLOT_CHUNK * k) (slot_new zero_regs) \<and>
    global_wf (ensure_slots zero_regs n g) \<and>
    min n (SLOT_CHUNK * MAX_SLOT_CHUNKS) \<le> length (g_slots (ensure_slots zero_regs n g)) \<and>
    (k = 0 \<or> length (g_slots (ensure_slots zero_regs n g)) < n + SLOT_CHUNK)"
proof -
  have len: "SLOT_CHUNK dvd length (g_slots g)" "length (g_slots g) \<le> SLOT_CHUNK * MAX_SLOT_CHUNKS"
    using assms by (auto simp: global_wf_def)
  from grow_pool_spec [OF len, of zero_regs n] obtain k where
    k: "grow_pool zero_regs n (g_slots g) = g_slots g @ replicate (SLOT_CHUNK * k) (slot_new zero_regs)"
    "length (grow_pool zero_regs n (g_slots g)) \<le> SLOT_CHUNK * MAX_SLOT_CHUNKS"
    "length (grow_pool zero_regs n (g_slots g)) \<ge> n \<or>
      length (grow_pool zero_regs n (g_slots g)) = SLOT_CHUNK * MAX_SLOT_CHUNKS"
    "k = 0 \<or> length (grow_pool zero_regs n (g_slots g)) < n + SLOT_CHUNK" by blast
  have "global_wf (ensure_slots zero_regs n g)"
    using assms k(1,2) by (auto simp: global_wf_def ensure_slots_def)
  with k show ?thesis by (intro exI [of _ k]) (auto simp: ensure_slots_def min_def)
qed

theorem ensure_slots_grows_witness:
  "\<exists>k. g_slots (ensure_slots () 20 one_slot_state) =
     g_slots one_slot_state @ replicate (SLOT_CHUNK * k) (slot_new ()) \<and>
   20 \<le> length (g_slots (ensure_slots () 20 one_slot_state))"
proof -
  have "global_wf one_slot_state" by (simp add: global_wf_def one_slot_state_def pool_sizes)
  from ensure_slots_grows [OF this, of "()" 20] show ?thesis by (auto simp: pool_sizes)
qed

end
