(* ===== verification/Platform.thy ===== *)
theory Platform
  imports X86_Regs A64_Rule
begin

text \<open>
  The per-platform glue of the library: register snapshots and the native register files
  (\<^verbatim>\<open>src/arch.rs\<close>), filling a snapshot from the running thread, an OS context or a Mach thread
  state (\<^verbatim>\<open>src/capture.rs\<close>), stack bounds (\<^verbatim>\<open>src/stackbounds.rs\<close>) and Linux arm64 signal
  frames (\<^verbatim>\<open>src/sigreturn.rs\<close>). What the operating system answers is an argument: the words of
  a structure it filled, the values its calls return, the memory of the vDSO.
\<close>

section \<open>Register snapshots\<close>

text \<open>The flat array of five words: ip, sp, bp/fp, lr and a reserved one.\<close>

record FhContext =
  ctx_r :: "u64 list"

definition context_wf :: "FhContext \<Rightarrow> bool" where
  "context_wf ctx \<longleftrightarrow> length (ctx_r ctx) = 5"

definition context_zeroed :: FhContext where
  "context_zeroed = \<lparr>ctx_r = replicate 5 0\<rparr>"

definition context_ip :: "FhContext \<Rightarrow> u64" where
  "context_ip ctx = ctx_r ctx ! 0"

definition context_sp :: "FhContext \<Rightarrow> u64" where
  "context_sp ctx = ctx_r ctx ! 1"

definition make_regs_x86 :: "FhContext \<Rightarrow> u64 \<Rightarrow> UnwindRegsX86_64" where
  "make_regs_x86 ctx code_ptr_auth_mask = x86_new (ctx_r ctx ! 0) (ctx_r ctx ! 1) (ctx_r ctx ! 2)"

definition make_regs_a64 :: "FhContext \<Rightarrow> u64 \<Rightarrow> UnwindRegsAarch64" where
  "make_regs_a64 ctx code_ptr_auth_mask =
     a64_new_with_ptr_auth_mask code_ptr_auth_mask (ctx_r ctx ! 3) (ctx_r ctx ! 1) (ctx_r ctx ! 2)"

definition initial_frame_address :: "FhContext \<Rightarrow> FrameAddress" where
  "initial_frame_address ctx = from_instruction_pointer (context_ip ctx)"

text \<open>\<open>ctx.r[i] = v\<close>.\<close>

definition set_word :: "nat \<Rightarrow> u64 \<Rightarrow> FhContext \<Rightarrow> FhContext" where
  "set_word i v ctx = ctx\<lparr>ctx_r := (ctx_r ctx)[i := v]\<rparr>"

section \<open>Capture\<close>

text \<open>
  \<open>fh_capture_context\<close>, the naked routines instruction by instruction: the registers on entry
  and the stack memory give the five words stored.
\<close>

definition capture_context_x86 :: "(u64 \<Rightarrow> u64) \<Rightarrow> u64 \<Rightarrow> u64 \<Rightarrow> FhContext" where
  "capture_context_x86 stack rsp rbp = \<lparr>ctx_r = [stack rsp, rsp + 8, rbp, 0, 0]\<rparr>"

definition capture_context_a64 :: "u64 \<Rightarrow> u64 \<Rightarrow> u64 \<Rightarrow> FhContext" where
  "capture_context_a64 sp x29 x30 = \<lparr>ctx_r = [x30, sp, x29, x30, 0]\<rparr>"

text \<open>On other architectures the context is zeroed, unless the pointer is null.\<close>

definition capture_context_other :: "FhContext option \<Rightarrow> FhContext option" where
  "capture_context_other ctx = (case ctx of None \<Rightarrow> None | Some _ \<Rightarrow> Some context_zeroed)"

text \<open>
  \<open>fill_from_os\<close> on each platform. The structures of libc and windows-sys give the registers
  by field or by index; on x86_64 each variant stores the same three of them, on aarch64 the
  same four.
\<close>

definition fill_x86 :: "u64 \<Rightarrow> u64 \<Rightarrow> u64 \<Rightarrow> FhContext \<Rightarrow> FhContext" where
  "fill_x86 rip rsp rbp ctx = set_word 2 rbp (set_word 1 rsp (set_word 0 rip ctx))"

definition fill_a64 :: "u64 \<Rightarrow> u64 \<Rightarrow> u64 \<Rightarrow> u64 \<Rightarrow> FhContext \<Rightarrow> FhContext" where
  "fill_a64 pc sp fp lr ctx = set_word 3 lr (set_word 2 fp (set_word 1 sp (set_word 0 pc ctx)))"

text \<open>The fields of the OS structures that are read, by platform.\<close>

datatype OsContext =
  LinuxX86 "nat \<Rightarrow> u64" nat nat nat \<comment> \<open>\<open>gregs\<close> and the indices \<open>REG_RIP\<close>, \<open>REG_RSP\<close>, \<open>REG_RBP\<close>\<close>
| LinuxA64 u64 u64 "nat \<Rightarrow> u64" \<comment> \<open>\<open>pc\<close>, \<open>sp\<close>, \<open>regs\<close>\<close>
| FreebsdX86 u64 u64 u64 \<comment> \<open>\<open>mc_rip\<close>, \<open>mc_rsp\<close>, \<open>mc_rbp\<close>\<close>
| FreebsdA64 u64 u64 "nat \<Rightarrow> u64" u64 \<comment> \<open>\<open>gp_elr\<close>, \<open>gp_sp\<close>, \<open>gp_x\<close>, \<open>gp_lr\<close>\<close>
| MacosX86 u64 u64 u64 \<comment> \<open>\<open>__rip\<close>, \<open>__rsp\<close>, \<open>__rbp\<close>\<close>
| MacosA64 u64 u64 u64 u64 \<comment> \<open>\<open>__pc\<close>, \<open>__sp\<close>, \<open>__fp\<close>, \<open>__lr\<close>\<close>
| WindowsX86 u64 u64 u64 \<comment> \<open>\<open>Rip\<close>, \<open>Rsp\<close>, \<open>Rbp\<close>\<close>
| OtherOs

fun fill_from_os :: "OsContext \<Rightarrow> FhContext \<Rightarrow> FhContext" where
  "fill_from_os (LinuxX86 g rip rsp rbp) ctx = fill_x86 (g rip) (g rsp) (g rbp) ctx"
| "fill_from_os (LinuxA64 pc sp r) ctx = fill_a64 pc sp (r 29) (r 30) ctx"
| "fill_from_os (FreebsdX86 rip rsp rbp) ctx = fill_x86 rip rsp rbp ctx"
| "fill_from_os (FreebsdA64 elr sp x lr) ctx = fill_a64 elr sp (x 29) lr ctx"
| "fill_from_os (MacosX86 rip rsp rbp) ctx = fill_x86 rip rsp rbp ctx"
| "fill_from_os (MacosA64 pc sp fp lr) ctx = fill_a64 pc sp fp lr ctx"
| "fill_from_os (WindowsX86 rip rsp rbp) ctx = fill_x86 rip rsp rbp ctx"
| "fill_from_os OtherOs ctx = ctx"

text \<open>\<open>None\<close> is a null pointer.\<close>

definition context_from_os :: "OsContext option \<Rightarrow> FhContext" where
  "context_from_os os_ctx =
     (case os_ctx of None \<Rightarrow> context_zeroed | Some c \<Rightarrow> fill_from_os c context_zeroed)"

text \<open>The Mach thread states, as the words at their \<open>u64\<close> offsets.\<close>

definition fill_from_thread_state_x86 :: "(nat \<Rightarrow> u64) \<Rightarrow> FhContext \<Rightarrow> FhContext" where
  "fill_from_thread_state_x86 p ctx = fill_x86 (p 16) (p 7) (p 6) ctx"

definition fill_from_thread_state_a64 :: "(nat \<Rightarrow> u64) \<Rightarrow> FhContext \<Rightarrow> FhContext" where
  "fill_from_thread_state_a64 p ctx = fill_a64 (p 32) (p 31) (p 29) (p 30) ctx"

definition fill_from_thread_state_other :: "(nat \<Rightarrow> u64) \<Rightarrow> FhContext \<Rightarrow> FhContext" where
  "fill_from_thread_state_other p ctx = ctx"

definition context_from_thread_state ::
    "((nat \<Rightarrow> u64) \<Rightarrow> FhContext \<Rightarrow> FhContext) \<Rightarrow> (nat \<Rightarrow> u64) option \<Rightarrow> FhContext" where
  "context_from_thread_state fill ts =
     (case ts of None \<Rightarrow> context_zeroed | Some p \<Rightarrow> fill p context_zeroed)"

lemma ctx_r_fill [simp]:
  "ctx_r (fill_x86 ip sp bp context_zeroed) = [ip, sp, bp, 0, 0]"
  "ctx_r (fill_a64 ip sp bp lr context_zeroed) = [ip, sp, bp, lr, 0]"
  by (simp_all add: fill_x86_def fill_a64_def set_word_def context_zeroed_def numeral_eq_Suc)

lemma context_from_os_wf: "context_wf (context_from_os c)"
  by (cases c; cases "the c")
    (auto simp: context_from_os_def context_wf_def context_zeroed_def set_word_def fill_x86_def fill_a64_def)

section \<open>Stack bounds\<close>

text \<open>
  \<open>query_bounds\<close> of the unix systems: whether the attributes were obtained, and what
  \<open>pthread_attr_getstack\<close> returned. Darwin reports the high end of the stack. \<open>(0, 0)\<close> is
  unknown.
\<close>

definition query_bounds_unix :: "bool \<Rightarrow> bool \<Rightarrow> u64 \<Rightarrow> u64 \<Rightarrow> u64 \<times> u64" where
  "query_bounds_unix got getstack_ok stackaddr stacksize =
     (if \<not> got then (0, 0)
      else if \<not> getstack_ok \<or> stackaddr = 0 \<or> stacksize = 0 then (0, 0)
      else (stackaddr, saturating_add stackaddr stacksize))"

definition query_bounds_macos :: "u64 \<Rightarrow> u64 \<Rightarrow> u64 \<times> u64" where
  "query_bounds_macos base size_of_stack =
     (if base = 0 \<or> size_of_stack = 0 then (0, 0)
      else (saturating_sub base size_of_stack, base))"

definition query_bounds_windows :: "u64 \<times> u64" where
  "query_bounds_windows = (0, 0)"

section \<open>Linux arm64 signal frames\<close>

definition SIGRETURN :: "u32 list" where
  "SIGRETURN = [0xd2801168, 0xd4000001]"

definition SIGCONTEXT :: u64 where "SIGCONTEXT = 128 + 176"
definition SIGCONTEXT_REGS :: u64 where "SIGCONTEXT_REGS = 8"
definition SIGCONTEXT_SP :: u64 where "SIGCONTEXT_SP = 256"
definition SIGCONTEXT_PC :: u64 where "SIGCONTEXT_PC = 264"

lemmas sigframe_offsets = SIGCONTEXT_def SIGCONTEXT_REGS_def SIGCONTEXT_SP_def SIGCONTEXT_PC_def

text \<open>
  ELF program headers (the fields of \<open>Elf64_Phdr\<close> that are read), and the index of the first
  window equal to the trampoline.
\<close>

record Phdr =
  p_type :: u32
  p_flags :: u32
  p_offset :: u64
  p_vaddr :: u64
  p_filesz :: u64
  p_memsz :: u64

definition PT_LOAD :: u32 where "PT_LOAD = 1"
definition PF_X :: u32 where "PF_X = 1"

fun window_position :: "u32 list \<Rightarrow> nat option" where
  "window_position (a # b # code) =
     (if [a, b] = SIGRETURN then Some 0 else map_option Suc (window_position (b # code)))"
| "window_position _ = None"

text \<open>The 32-bit words of a segment, read from the image at \<open>base\<close>.\<close>

definition segment_code :: "(u64 \<Rightarrow> u32) \<Rightarrow> u64 \<Rightarrow> Phdr \<Rightarrow> u32 list" where
  "segment_code vdso base ph =
     map (\<lambda>i. vdso (base + p_offset ph + 4 * of_nat i)) [0..<unat (p_filesz ph) div 4]"

fun scan_segments :: "(u64 \<Rightarrow> u32) \<Rightarrow> u64 \<Rightarrow> Phdr list \<Rightarrow> u64" where
  "scan_segments vdso base [] = 0"
| "scan_segments vdso base (ph # phs) =
     (if p_type ph \<noteq> PT_LOAD \<or> p_flags ph AND PF_X = 0 then scan_segments vdso base phs
      else case window_position (segment_code vdso base ph) of
             Some i \<Rightarrow> base + (p_offset ph + 4 * of_nat i)
           | None \<Rightarrow> scan_segments vdso base phs)"

text \<open>\<open>find_trampoline\<close>: \<open>None\<close> is a null \<open>AT_SYSINFO_EHDR\<close>.\<close>

definition find_trampoline :: "(u64 \<Rightarrow> u32) \<Rightarrow> (u64 \<times> Phdr list) option \<Rightarrow> u64" where
  "find_trampoline vdso ehdr =
     (case ehdr of None \<Rightarrow> 0 | Some (base, phdrs) \<Rightarrow> scan_segments vdso base phdrs)"

text \<open>The argument is the \<open>OnceLock\<close>, \<open>None\<close> before \<open>init\<close>, which fills it once.\<close>

definition sigreturn_init :: "(u64 \<Rightarrow> u32) \<Rightarrow> (u64 \<times> Phdr list) option \<Rightarrow> u64 option \<Rightarrow> u64 option" where
  "sigreturn_init vdso ehdr trampoline =
     (case trampoline of Some t \<Rightarrow> Some t | None \<Rightarrow> Some (find_trampoline vdso ehdr))"

definition is_trampoline :: "u64 option \<Rightarrow> u64 \<Rightarrow> bool" where
  "is_trampoline trampoline ip = (case trampoline of Some t \<Rightarrow> t \<noteq> 0 \<and> t = ip | None \<Rightarrow> False)"

definition restore :: "UnwindRegsAarch64 \<Rightarrow> read_stack \<Rightarrow> u64 option \<times> UnwindRegsAarch64" where
  "restore regs read =
     (case checked_add (a64_sp regs) SIGCONTEXT of
        None \<Rightarrow> (None, regs)
      | Some sigcontext \<Rightarrow>
          (case read (sigcontext + (SIGCONTEXT_REGS + 29 * 8)) of None \<Rightarrow> (None, regs) | Some fp \<Rightarrow>
          (case read (sigcontext + (SIGCONTEXT_REGS + 30 * 8)) of None \<Rightarrow> (None, regs) | Some lr \<Rightarrow>
          (case read (sigcontext + SIGCONTEXT_SP) of None \<Rightarrow> (None, regs) | Some sp \<Rightarrow>
          (case read (sigcontext + SIGCONTEXT_PC) of None \<Rightarrow> (None, regs) | Some pc \<Rightarrow>
             (Some pc, a64_set_sp sp (a64_set_lr lr (a64_set_fp fp regs))))))))"

lemma window_position_Some:
  "window_position code = Some i \<Longrightarrow>
     Suc i < length code \<and> [code ! i, code ! Suc i] = SIGRETURN"
  by (induction code arbitrary: i rule: window_position.induct) (auto split: if_splits)

lemma window_position_None:
  "window_position code = None \<Longrightarrow> Suc i < length code \<Longrightarrow> [code ! i, code ! Suc i] \<noteq> SIGRETURN"
proof (induction code arbitrary: i rule: window_position.induct)
  case (1 a b code)
  then show ?case by (cases i) (auto split: if_splits)
qed auto

text \<open>Executable segments, and the places in them where the two instructions stand.\<close>

definition executable :: "Phdr \<Rightarrow> bool" where
  "executable ph \<longleftrightarrow> p_type ph = PT_LOAD \<and> p_flags ph AND PF_X \<noteq> 0"

definition trampoline_at :: "(u64 \<Rightarrow> u32) \<Rightarrow> u64 \<Rightarrow> Phdr \<Rightarrow> nat \<Rightarrow> bool" where
  "trampoline_at vdso base ph i \<longleftrightarrow>
     Suc i < unat (p_filesz ph) div 4 \<and>
     [vdso (base + p_offset ph + 4 * of_nat i), vdso (base + p_offset ph + 4 * of_nat (Suc i))] = SIGRETURN"

lemma window_position_segment:
  "window_position (segment_code vdso base ph) = Some i \<Longrightarrow> trampoline_at vdso base ph i"
  using window_position_Some [of "segment_code vdso base ph" i]
  by (auto simp: trampoline_at_def segment_code_def nth_append)

lemma window_position_segment_None:
  "window_position (segment_code vdso base ph) = None \<Longrightarrow> \<not> trampoline_at vdso base ph i"
  using window_position_None [of "segment_code vdso base ph" i]
  by (auto simp: trampoline_at_def segment_code_def)

lemma scan_segments_spec:
  "(\<exists>ph \<in> set phs. executable ph \<and>
      (\<exists>i. trampoline_at vdso base ph i \<and> scan_segments vdso base phs = base + (p_offset ph + 4 * of_nat i))) \<or>
   scan_segments vdso base phs = 0 \<and> (\<forall>ph \<in> set phs. executable ph \<longrightarrow> (\<forall>i. \<not> trampoline_at vdso base ph i))"
proof (induction phs)
  case (Cons ph phs)
  show ?case
  proof (cases "executable ph \<and> window_position (segment_code vdso base ph) \<noteq> None")
    case True
    then obtain i where i: "window_position (segment_code vdso base ph) = Some i" by blast
    then have "scan_segments vdso base (ph # phs) = base + (p_offset ph + 4 * of_nat i)"
      using True by (simp add: executable_def)
    with True window_position_segment [OF i] show ?thesis by (intro disjI1) auto
  next
    case False
    then have "scan_segments vdso base (ph # phs) = scan_segments vdso base phs"
      by (auto simp: executable_def)
    moreover have "executable ph \<Longrightarrow> \<not> trampoline_at vdso base ph i" for i
      using False by (auto dest: window_position_segment_None)
    ultimately show ?thesis using Cons by auto
  qed
qed simp

section \<open>Properties\<close>

text \<open>
  C40: the trampoline found in the vDSO is the signal-return sequence. After \<open>init\<close> an address
  counts as the trampoline only if the two instructions of \<open>SIGRETURN\<close> stand there, inside an
  executable segment, and if no executable segment holds them no address does.
\<close>

theorem is_trampoline_sound:
  assumes "is_trampoline (sigreturn_init vdso (Some (base, phdrs)) None) ip"
  shows "[vdso ip, vdso (ip + 4)] = SIGRETURN \<and>
    (\<exists>ph \<in> set phdrs. p_type ph = PT_LOAD \<and> p_flags ph AND PF_X \<noteq> 0 \<and>
       (\<exists>i. 4 * Suc i < unat (p_filesz ph) \<and> ip = base + (p_offset ph + 4 * of_nat i)))"
proof -
  have ip: "scan_segments vdso base phdrs = ip" "ip \<noteq> 0"
    using assms by (auto simp: is_trampoline_def sigreturn_init_def find_trampoline_def)
  with scan_segments_spec [of phdrs vdso base] obtain ph i where
    ph: "ph \<in> set phdrs" "executable ph" "trampoline_at vdso base ph i"
    and at: "ip = base + (p_offset ph + 4 * of_nat i)" by auto
  have "ip = base + p_offset ph + 4 * of_nat i"
    "ip + 4 = base + p_offset ph + 4 * of_nat (Suc i)"
    using at by (simp_all add: algebra_simps)
  then have code: "[vdso ip, vdso (ip + 4)] = SIGRETURN"
    using ph(3) unfolding trampoline_at_def by metis
  have "Suc i < unat (p_filesz ph) div 4" using ph(3) by (simp add: trampoline_at_def)
  then have "4 * Suc i < 4 * (unat (p_filesz ph) div 4)" by (rule mult_strict_left_mono) simp
  also have "\<dots> \<le> unat (p_filesz ph)" by (rule times_div_less_eq_dividend)
  finally have "4 * Suc i < unat (p_filesz ph)" .
  with code ph(1,2) at show ?thesis by (auto simp: executable_def)
qed

definition tiny_vdso :: "u64 \<Rightarrow> u32" where
  "tiny_vdso a = (if a = 0x1008 then 0xd2801168 else if a = 0x100c then 0xd4000001 else 0)"

theorem is_trampoline_sound_witness:
  "is_trampoline (sigreturn_init tiny_vdso (Some (0x1000, [\<lparr>p_type = 1, p_flags = 5, p_offset = 0, p_vaddr = 0, p_filesz = 16, p_memsz = 16\<rparr>])) None) 0x1008 \<and>
   [tiny_vdso 0x1008, tiny_vdso (0x1008 + 4)] = SIGRETURN"
proof -
  have t: "is_trampoline (sigreturn_init tiny_vdso
      (Some (0x1000, [\<lparr>p_type = 1, p_flags = 5, p_offset = 0, p_vaddr = 0, p_filesz = 16, p_memsz = 16\<rparr>])) None) 0x1008"
    by code_simp
  with is_trampoline_sound [OF t] show ?thesis by simp
qed

text \<open>
  A signal frame is restored as the kernel saved it. With the interrupted fp, lr, sp and pc
  stored in the \<open>sigcontext\<close> of the \<open>rt_sigframe\<close> at the stack pointer, \<open>restore\<close> returns
  that pc and sets exactly those registers; when any of the four words cannot be read, or the
  address overflows, it changes nothing.
\<close>

theorem restore_signal_frame:
  "restore regs read =
     (if 2 ^ 64 \<le> unat (a64_sp regs) + 304 then (None, regs)
      else case (read (a64_sp regs + 544), read (a64_sp regs + 552),
                 read (a64_sp regs + 560), read (a64_sp regs + 568)) of
             (Some fp, Some lr, Some sp, Some pc) \<Rightarrow>
               (Some pc, regs\<lparr>a64_fp := fp, a64_lr := lr AND a64_lr_mask regs, a64_sp := sp\<rparr>)
           | _ \<Rightarrow> (None, regs))"
proof (cases "checked_add (a64_sp regs) 304")
  case None
  moreover from None have "2 ^ 64 \<le> unat (a64_sp regs) + 304" by (simp add: checked_simps)
  ultimately show ?thesis by (simp add: restore_def SIGCONTEXT_def)
next
  case (Some sc)
  then have sc: "sc = a64_sp regs + 304" "\<not> 2 ^ 64 \<le> unat (a64_sp regs) + 304"
    by (auto simp: checked_simps)
  have offs: "sc + 240 = a64_sp regs + 544" "sc + 248 = a64_sp regs + 552"
    "sc + 256 = a64_sp regs + 560" "sc + 264 = a64_sp regs + 568"
    by (simp_all add: sc(1))
  from Some sc(2) show ?thesis
    by (simp add: restore_def sigframe_offsets offs a64_set_sp_def a64_set_lr_def a64_set_fp_def
        strip_ptr_auth_def split: option.splits)
qed

end
