(* ===== verification/Cursor.thy ===== *)
theory Cursor
  imports State Platform Unwinder X86_Rule
begin

text \<open>
  The unwind cursor (\<^verbatim>\<open>src/cursor.rs\<close>): the read path of the library. A cursor is a handle on a
  claimed slot, which holds the registers, the rule cache and the hazard-protected snapshot of
  a walk. The operations work on the global state of the theory \<open>State\<close>; an operation that would
  dereference a snapshot that has been freed has no result, and the first property of the
  theory is that this does not happen.
\<close>

section \<open>Data\<close>

type_synonym c_int = int

definition CURSOR_MAGIC :: u64 where
  "CURSOR_MAGIC = 0x4648435552530001"

record FhCursor =
  magic :: u64
  cslot :: u64
  nonce :: u64
  reserved :: "u64 list"

definition dead :: FhCursor where
  "dead = \<lparr>magic = 0, cslot = - 1, nonce = 0, reserved = replicate 5 0\<rparr>"

definition is_live :: "('rule, 'regs, 'u) Global \<Rightarrow> FhCursor \<Rightarrow> bool" where
  "is_live g c \<longleftrightarrow> magic c = CURSOR_MAGIC \<and> cslot c \<noteq> - 1 \<and> nonce_matches g (unat (cslot c)) (nonce c)"

text \<open>
  What the architecture and the build provide: building the registers, the stack pointer, the
  pointer-authentication mask, unwinding one frame with a snapshot's unwinder, and, on Linux
  arm64, recognising and restoring a signal frame.
\<close>

record ('rule, 'regs, 'u) CursorOps =
  op_make_regs :: "FhContext \<Rightarrow> u64 \<Rightarrow> 'regs"
  op_sp :: "'regs \<Rightarrow> u64"
  op_ptr_auth_mask :: "u64 \<Rightarrow> u64"
  op_unwind :: "'u \<Rightarrow> FrameAddress \<Rightarrow> 'regs \<Rightarrow> 'rule RuleCache \<Rightarrow> read_stack \<Rightarrow>
    ((Error + (u64 \<times> bool) option) \<times> 'regs) \<times> 'rule RuleCache"
  op_is_trampoline :: "u64 \<Rightarrow> bool"
  op_restore :: "'regs \<Rightarrow> read_stack \<Rightarrow> u64 option \<times> 'regs"

section \<open>Stack windows\<close>

definition FALLBACK_SPAN :: u64 where
  "FALLBACK_SPAN = 16 * 1024 * 1024"

text \<open>The first argument is the thread-local pair of registered bounds.\<close>

definition stack_window :: "u64 \<times> u64 \<Rightarrow> u64 \<Rightarrow> u64 \<times> u64" where
  "stack_window bounds sp =
     (case bounds of (lo, hi) \<Rightarrow>
        if lo \<noteq> 0 \<and> hi \<noteq> 0 \<and> sp \<ge> lo \<and> sp < hi then (lo, hi)
        else let lo = sp AND NOT 0xfff in (lo, saturating_add lo FALLBACK_SPAN))"

text \<open>The reader of \<open>step\<close>: aligned words inside one of the two windows of the walk.\<close>

definition window_read :: "('rule, 'regs) SlotInner \<Rightarrow> (u64 \<Rightarrow> u64) \<Rightarrow> read_stack" where
  "window_read inner mem addr =
     (let end_addr = saturating_add addr 8;
          in_window = addr \<ge> stack_lo inner \<and> end_addr \<le> stack_hi inner;
          in_window2 = addr \<ge> stack_lo2 inner \<and> end_addr \<le> stack_hi2 inner
      in if \<not> (in_window \<or> in_window2) \<or> addr AND 0x7 \<noteq> 0 then None else Some (mem addr))"

definition ptr_auth_mask_a64 :: "u64 \<Rightarrow> u64" where
  "ptr_auth_mask_a64 max_code = (if max_code = 0 then - 1 else max_shr (leading_zeros max_code))"

definition ptr_auth_mask_x86 :: "u64 \<Rightarrow> u64" where
  "ptr_auth_mask_x86 max_code = - 1"

section \<open>Operations\<close>

text \<open>
  \<open>cursor_init_bounds2\<close> returns the code, the cursor written and the new state. \<open>None\<close> is a read
  through a snapshot pointer that is not allocated.
\<close>

definition init_inner :: "('rule, 'regs, 'u) CursorOps \<Rightarrow> FhContext \<Rightarrow> u64 \<Rightarrow> ptr \<Rightarrow> u64 \<times> u64 \<Rightarrow> u64 \<times> u64 \<Rightarrow>
    ('rule, 'regs) SlotInner \<Rightarrow> ('rule, 'regs) SlotInner" where
  "init_inner ops ctx code_mask snap window window2 inner =
     inner\<lparr>sl_regs := op_make_regs ops ctx code_mask, cur_addr := initial_frame_address ctx,
           cur_ip := context_ip ctx, walk_done := False, snapshot := Some snap,
           stack_lo := fst window, stack_hi := snd window,
           stack_lo2 := fst window2, stack_hi2 := snd window2\<rparr>"

definition cursor_init_bounds2 :: "('rule, 'regs, 'u) CursorOps \<Rightarrow> u64 \<times> u64 \<Rightarrow> FhContext \<Rightarrow>
    u64 \<Rightarrow> u64 \<Rightarrow> u64 \<Rightarrow> u64 \<Rightarrow> ('rule, 'regs, 'u) Global \<Rightarrow>
    (c_int \<times> FhCursor \<times> ('rule, 'regs, 'u) Global) option" where
  "cursor_init_bounds2 ops bounds ctx lo hi lo2 hi2 g =
     (case claim_slot g of
        (None, g1) \<Rightarrow> Some (- 1, dead, g1)
      | (Some (slot_idx, claim_nonce), g1) \<Rightarrow>
          (case acquire_snapshot slot_idx g1 of
             (None, g2) \<Rightarrow> Some (- 2, dead, release_slot slot_idx claim_nonce g2)
           | (Some snap, g2) \<Rightarrow>
               (case g_heap g2 snap of
                  None \<Rightarrow> None
                | Some s \<Rightarrow>
                    (let code_mask = op_ptr_auth_mask ops (max_code_addr s);
                         window = (if lo < hi then (lo, hi) else stack_window bounds (context_sp ctx));
                         window2 = (if lo2 < hi2 then (lo2, hi2) else (0, 0)) in
                     case slot g2 slot_idx of
                       None \<Rightarrow> Some (- 3, dead, release_slot slot_idx claim_nonce g2)
                     | Some _ \<Rightarrow>
                         Some (0, \<lparr>magic = CURSOR_MAGIC, cslot = of_nat slot_idx, nonce = claim_nonce,
                                   reserved = replicate 5 0\<rparr>,
                               update_slot slot_idx (\<lambda>s. s\<lparr>slot_inner :=
                                 init_inner ops ctx code_mask snap window window2 (slot_inner s)\<rparr>) g2)))))"

definition cursor_init_bounds :: "('rule, 'regs, 'u) CursorOps \<Rightarrow> u64 \<times> u64 \<Rightarrow> FhContext \<Rightarrow>
    u64 \<Rightarrow> u64 \<Rightarrow> ('rule, 'regs, 'u) Global \<Rightarrow> (c_int \<times> FhCursor \<times> ('rule, 'regs, 'u) Global) option" where
  "cursor_init_bounds ops bounds ctx lo hi g = cursor_init_bounds2 ops bounds ctx lo hi 0 0 g"

definition cursor_init :: "('rule, 'regs, 'u) CursorOps \<Rightarrow> u64 \<times> u64 \<Rightarrow> FhContext \<Rightarrow>
    ('rule, 'regs, 'u) Global \<Rightarrow> (c_int \<times> FhCursor \<times> ('rule, 'regs, 'u) Global) option" where
  "cursor_init ops bounds ctx g = cursor_init_bounds ops bounds ctx 0 0 g"

text \<open>
  Advancing the slot's walk: the code \<open>1\<close> with the next frame, or \<open>0\<close> and the walk is done.
\<close>

definition go_to :: "FrameAddress \<Rightarrow> u64 \<Rightarrow> ('rule, 'regs) SlotInner \<Rightarrow> c_int \<times> ('rule, 'regs) SlotInner" where
  "go_to addr ip inner = (1, inner\<lparr>cur_ip := ip, cur_addr := addr\<rparr>)"

definition finish_walk :: "('rule, 'regs) SlotInner \<Rightarrow> c_int \<times> ('rule, 'regs) SlotInner" where
  "finish_walk inner = (0, inner\<lparr>walk_done := True\<rparr>)"

definition advance :: "('rule, 'regs, 'u) CursorOps \<Rightarrow> 'u \<Rightarrow> (u64 \<Rightarrow> u64) \<Rightarrow> ('rule, 'regs) SlotInner \<Rightarrow>
    c_int \<times> ('rule, 'regs) SlotInner" where
  "advance ops u mem inner =
     (let read = window_read inner mem in
      if op_is_trampoline ops (cur_ip inner) then
        (case op_restore ops (sl_regs inner) read of
           (pc, regs) \<Rightarrow>
             (let inner' = inner\<lparr>sl_regs := regs\<rparr> in
              case pc of
                None \<Rightarrow> finish_walk inner'
              | Some pc \<Rightarrow> if pc \<noteq> 0 then go_to (from_instruction_pointer pc) pc inner'
                           else finish_walk inner'))
      else
        (case op_unwind ops u (cur_addr inner) (sl_regs inner) (sl_cache inner) read of
           ((result, regs), cache) \<Rightarrow>
             (let inner' = inner\<lparr>sl_regs := regs, sl_cache := cache\<rparr> in
              case result of
                Inr (Some (ra, interrupted)) \<Rightarrow>
                  if ra \<noteq> 0 then
                    go_to (if interrupted then from_instruction_pointer ra else ReturnAddress ra) ra inner'
                  else finish_walk inner'
              | Inr None \<Rightarrow> finish_walk inner'
              | Inl _ \<Rightarrow> finish_walk inner')))"

text \<open>\<open>step\<close> returns the code and the two outputs, zero unless a frame was output.\<close>

definition step :: "('rule, 'regs, 'u) CursorOps \<Rightarrow> (u64 \<Rightarrow> u64) \<Rightarrow> FhCursor \<Rightarrow> ('rule, 'regs, 'u) Global \<Rightarrow>
    ((c_int \<times> u64 \<times> u64) \<times> ('rule, 'regs, 'u) Global) option" where
  "step ops mem c g =
     (if \<not> is_live g c then Some ((- 1, 0, 0), g)
      else case slot g (unat (cslot c)) of
        None \<Rightarrow> Some ((- 1, 0, 0), g)
      | Some s \<Rightarrow>
          (let inner = slot_inner s in
           if walk_done inner then Some ((0, 0, 0), g)
           else case snapshot inner of
             None \<Rightarrow> Some ((- 1, 0, 0), g)
           | Some p \<Rightarrow>
               (case g_heap g p of
                  None \<Rightarrow> None
                | Some snap \<Rightarrow>
                    (case advance ops (unw snap) mem inner of
                       (rc, inner') \<Rightarrow>
                         Some ((rc, cur_ip inner, op_sp ops (sl_regs inner)),
                           update_slot (unat (cslot c)) (\<lambda>s. s\<lparr>slot_inner := inner'\<rparr>) g)))))"

definition get_reg :: "('rule, 'regs, 'u) CursorOps \<Rightarrow> FhCursor \<Rightarrow> ('rule, 'regs, 'u) Global \<Rightarrow> u64 \<times> u64" where
  "get_reg ops c g =
     (if \<not> is_live g c then (0, 0)
      else case slot g (unat (cslot c)) of
        None \<Rightarrow> (0, 0)
      | Some s \<Rightarrow> (cur_ip (slot_inner s), op_sp ops (sl_regs (slot_inner s))))"

definition cursor_fini :: "FhCursor \<Rightarrow> ('rule, 'regs, 'u) Global \<Rightarrow> FhCursor \<times> ('rule, 'regs, 'u) Global" where
  "cursor_fini c g =
     (dead, if magic c = CURSOR_MAGIC \<and> cslot c \<noteq> - 1 then release_slot (unat (cslot c)) (nonce c) g else g)"

section \<open>The two architectures\<close>

text \<open>
  The wrapper types of the two unwinders (\<^verbatim>\<open>x86_64/unwinder.rs\<close>, \<^verbatim>\<open>aarch64/unwinder.rs\<close>): the first forwards
  \<open>unwind_frame_signal_aware\<close>, the second only \<open>unwind_frame\<close>.
\<close>

definition unwinder_x86_signal_aware :: "('d, UnwindRuleX86_64, UnwindRegsX86_64, 'e) callback_fn \<Rightarrow>
    'd UnwinderInternal \<Rightarrow> FrameAddress \<Rightarrow> UnwindRegsX86_64 \<Rightarrow> UnwindRuleX86_64 RuleCache \<Rightarrow> read_stack \<Rightarrow>
    ((Error + (u64 \<times> bool) option) \<times> UnwindRegsX86_64) \<times> UnwindRuleX86_64 RuleCache" where
  "unwinder_x86_signal_aware impl = unwind_frame_signal_aware exec_x86 fallback_rule_x86 impl"

definition unwinder_a64_frame :: "('d, UnwindRuleAarch64, UnwindRegsAarch64, 'e) callback_fn \<Rightarrow>
    'd UnwinderInternal \<Rightarrow> FrameAddress \<Rightarrow> UnwindRegsAarch64 \<Rightarrow> UnwindRuleAarch64 RuleCache \<Rightarrow> read_stack \<Rightarrow>
    ((Error + u64 option) \<times> UnwindRegsAarch64) \<times> UnwindRuleAarch64 RuleCache" where
  "unwinder_a64_frame impl = unwind_frame exec_a64 fallback_rule_a64 impl"

definition x86_cursor_ops :: "('d, UnwindRuleX86_64, UnwindRegsX86_64, 'e) callback_fn \<Rightarrow>
    (UnwindRuleX86_64, UnwindRegsX86_64, 'd UnwinderInternal) CursorOps" where
  "x86_cursor_ops impl =
     \<lparr>op_make_regs = make_regs_x86, op_sp = x86_sp, op_ptr_auth_mask = ptr_auth_mask_x86,
      op_unwind = unwinder_x86_signal_aware impl,
      op_is_trampoline = (\<lambda>_. False), op_restore = (\<lambda>regs _. (None, regs))\<rparr>"

text \<open>The argument \<open>trampoline\<close> is the \<open>OnceLock\<close> of \<open>sigreturn.rs\<close>, \<open>None\<close> off Linux.\<close>

definition a64_cursor_ops :: "('d, UnwindRuleAarch64, UnwindRegsAarch64, 'e) callback_fn \<Rightarrow> u64 option \<Rightarrow>
    (UnwindRuleAarch64, UnwindRegsAarch64, 'd UnwinderInternal) CursorOps" where
  "a64_cursor_ops impl trampoline =
     \<lparr>op_make_regs = make_regs_a64, op_sp = a64_sp, op_ptr_auth_mask = ptr_auth_mask_a64,
      op_unwind = (\<lambda>u. signal_aware_default (unwinder_a64_frame impl u)),
      op_is_trampoline = is_trampoline trampoline, op_restore = restore\<rparr>"

section \<open>The invariant of the walks\<close>

text \<open>
  A slot that is not in use holds no snapshot and no hazard; the snapshot of a walk is the one
  its slot's hazard protects, and it is allocated.
\<close>

definition slot_ok :: "(ptr \<Rightarrow> 'u Snapshot option) \<Rightarrow> ('rule, 'regs) Slot \<Rightarrow> bool" where
  "slot_ok heap s \<longleftrightarrow>
     (slot_in_use s \<or> snapshot (slot_inner s) = None \<and> slot_hazard s = None) \<and>
     (case snapshot (slot_inner s) of
        None \<Rightarrow> True | Some p \<Rightarrow> slot_hazard s = Some p \<and> heap p \<noteq> None)"

definition walk_inv :: "('rule, 'regs, 'u) Global \<Rightarrow> bool" where
  "walk_inv g \<longleftrightarrow> global_wf g \<and> (\<forall>s \<in> set (g_slots g). slot_ok (g_heap g) s)"

lemma walk_inv_slot: "walk_inv g \<Longrightarrow> slot g i = Some s \<Longrightarrow> slot_ok (g_heap g) s"
  by (auto simp: walk_inv_def slot_def split: if_splits)

lemma walk_inv_update:
  assumes "walk_inv g" "\<And>s. slot g i = Some s \<Longrightarrow> slot_ok (g_heap g) (f s)"
  shows "walk_inv (update_slot i f g)"
proof (cases "i < length (g_slots g)")
  case True
  with assms(2) have "slot_ok (g_heap g) (f (g_slots g ! i))" by (simp add: slot_def)
  with assms(1) True show ?thesis
    using set_update_subset_insert [of "g_slots g" i "f (g_slots g ! i)"]
    unfolding walk_inv_def update_slot_wf update_slot_simps by (auto simp: update_slot_def)
next
  case False
  then have "update_slot i f g = g" by (simp add: update_slot_def list_update_beyond)
  with assms(1) show ?thesis by simp
qed

lemma walk_inv_start: "walk_inv global_start"
  by (simp add: walk_inv_def global_start_def global_wf_def)

lemma slot_ok_new: "slot_ok heap (slot_new z)"
  by (simp add: slot_ok_def slot_new_def placeholder_inner_def)

lemma ensure_slots_wf: "global_wf g \<Longrightarrow> global_wf (ensure_slots z n g)"
  using grow_pool_spec [of "g_slots g" z n] by (auto simp: global_wf_def ensure_slots_def)

lemma walk_inv_ensure_slots:
  assumes "walk_inv g"
  shows "walk_inv (ensure_slots z n g)"
proof -
  have wf: "global_wf g" using assms by (simp add: walk_inv_def)
  then obtain k where k: "grow_pool z n (g_slots g) = g_slots g @ replicate k (slot_new z)"
    using grow_pool_spec [of "g_slots g" z n] by (auto simp: global_wf_def)
  show ?thesis
    using assms ensure_slots_wf [OF wf, of z n] k
    by (auto simp: walk_inv_def ensure_slots_def slot_ok_new)
qed

lemma walk_inv_release:
  assumes "walk_inv g"
  shows "walk_inv (release_slot i n g)"
proof (cases "slot g i")
  case None
  with assms show ?thesis by (simp add: release_slot_def)
next
  case (Some s)
  show ?thesis
  proof (cases "slot_seq s = n")
    case True
    with Some assms show ?thesis
      by (auto simp: release_slot_def slot_ok_def intro!: walk_inv_update)
  qed (use Some assms in \<open>simp add: release_slot_def\<close>)
qed

text \<open>A freed snapshot was protected by no hazard, so no walk holds it.\<close>

lemma walk_inv_writer:
  assumes "walk_inv g" "g_heap g boxed = None" "with_writer mk nu boxed f g = (r, g')"
  shows "walk_inv g'"
proof -
  have wf: "global_wf g'"
    using with_writer_wf [of g boxed mk nu f] assms by (simp add: walk_inv_def)
  have slots: "g_slots g' = g_slots g"
    using assms(3) by (auto simp: with_writer_def reclaim_def Let_def split: prod.splits)
  have heap: "g_heap g' p \<noteq> None" if "is_hazarded g p" "g_heap g p \<noteq> None" for p
    using assms(3) that by (auto simp: with_writer_def reclaim_def Let_def split: prod.splits)
  have "slot_ok (g_heap g') s" if "s \<in> set (g_slots g)" for s
  proof -
    have ok: "slot_ok (g_heap g) s" using assms(1) that by (simp add: walk_inv_def)
    have "is_hazarded g p" if "slot_hazard s = Some p" for p
      using that \<open>s \<in> set (g_slots g)\<close> by (auto simp: is_hazarded_def list_ex_iff)
    with ok heap show ?thesis by (auto simp: slot_ok_def split: option.splits)
  qed
  with wf slots show ?thesis by (simp add: walk_inv_def)
qed

lemma update_slot_twice:
  "i < length (g_slots g) \<Longrightarrow> update_slot i f (update_slot i h g) = update_slot i (f \<circ> h) g"
  by (simp add: update_slot_def)

lemma update_slot_cong:
  "f (g_slots g ! i) = h (g_slots g ! i) \<Longrightarrow> update_slot i f g = update_slot i h g"
  by (simp add: update_slot_def)

text \<open>The cursor and the slot that a successful \<open>cursor_init_bounds2\<close> leaves.\<close>

definition fresh_cursor :: "nat \<Rightarrow> u64 \<Rightarrow> FhCursor" where
  "fresh_cursor i n = \<lparr>magic = CURSOR_MAGIC, cslot = of_nat i, nonce = n, reserved = replicate 5 0\<rparr>"

definition read_windows :: "u64 \<times> u64 \<Rightarrow> FhContext \<Rightarrow> u64 \<Rightarrow> u64 \<Rightarrow> u64 \<Rightarrow> u64 \<Rightarrow> (u64 \<times> u64) \<times> u64 \<times> u64" where
  "read_windows bounds ctx lo hi lo2 hi2 =
     (if lo < hi then (lo, hi) else stack_window bounds (context_sp ctx),
      if lo2 < hi2 then (lo2, hi2) else (0, 0))"

definition started_slot :: "('rule, 'regs, 'u) CursorOps \<Rightarrow> FhContext \<Rightarrow> u64 \<Rightarrow> ptr \<Rightarrow> (u64 \<times> u64) \<times> u64 \<times> u64 \<Rightarrow>
    ('rule, 'regs) Slot \<Rightarrow> ('rule, 'regs) Slot" where
  "started_slot ops ctx max_code p windows s =
     s\<lparr>slot_in_use := True, slot_seq := slot_seq s + 1, slot_hazard := Some p,
       slot_inner := init_inner ops ctx (op_ptr_auth_mask ops max_code) p (fst windows) (snd windows)
         (slot_inner s)\<rparr>"

lemma cursor_init_cases:
  assumes "walk_inv g"
  obtains
    (exhausted) "\<forall>s \<in> set (g_slots g). slot_in_use s"
      "cursor_init_bounds2 ops bounds ctx lo hi lo2 hi2 g = Some (- 1, dead, g)"
  | (unpublished) i where "i < length (g_slots g)" "\<not> slot_in_use (g_slots g ! i)" "g_current g = None"
      "cursor_init_bounds2 ops bounds ctx lo hi lo2 hi2 g =
        Some (- 2, dead, update_slot i (\<lambda>s. s\<lparr>slot_seq := slot_seq s + 2\<rparr>) g)"
  | (started) i p snap where "i < length (g_slots g)" "\<not> slot_in_use (g_slots g ! i)"
      "g_current g = Some p" "g_heap g p = Some snap"
      "cursor_init_bounds2 ops bounds ctx lo hi lo2 hi2 g =
        Some (0, fresh_cursor i (slot_seq (g_slots g ! i) + 1),
          update_slot i (started_slot ops ctx (max_code_addr snap) p (read_windows bounds ctx lo hi lo2 hi2)) g)"
proof (cases "position (\<lambda>s. \<not> slot_in_use s) (g_slots g)")
  case None
  then have "\<forall>s \<in> set (g_slots g). slot_in_use s" by (simp add: position_None_iff)
  with None show ?thesis by (intro exhausted) (simp_all add: cursor_init_bounds2_def claim_slot_def)
next
  case (Some i)
  from position_Some [OF Some] have i: "i < length (g_slots g)" "\<not> slot_in_use (g_slots g ! i)" by auto
  define n where "n = slot_seq (g_slots g ! i) + 1"
  define g1 where "g1 = update_slot i (\<lambda>s. s\<lparr>slot_in_use := True, slot_seq := n\<rparr>) g"
  have len: "i < length (g_slots g1)" using i by (simp add: g1_def)
  have claim: "claim_slot g = (Some (i, n), g1)"
    using Some by (simp add: claim_slot_def Let_def n_def g1_def)
  have acquire: "acquire_snapshot i g1 =
      (g_current g, update_slot i (\<lambda>s. s\<lparr>slot_hazard := g_current g\<rparr>) g1)"
    using len by (simp add: acquire_snapshot_def slot_def) (simp add: g1_def)
  have idle: "snapshot (slot_inner (g_slots g ! i)) = None" "slot_hazard (g_slots g ! i) = None"
    using assms i by (auto simp: walk_inv_def slot_ok_def)
  show ?thesis
  proof (cases "g_current g")
    case None
    let ?g2 = "update_slot i (\<lambda>s. s\<lparr>slot_hazard := None\<rparr>) g1"
    have "release_slot i n ?g2 = update_slot i (\<lambda>s. s\<lparr>slot_seq := slot_seq s + 2\<rparr>) g"
      using i idle unfolding g1_def
      by (simp add: release_slot_def slot_update_slot update_slot_twice n_def)
        (rule update_slot_cong, simp)
    then show ?thesis using None i claim acquire
      by (intro unpublished [of i]) (simp_all add: cursor_init_bounds2_def)
  next
    case cur: (Some p)
    then obtain snap where snap: "g_heap g p = Some snap"
      using assms by (auto simp: walk_inv_def global_wf_def)
    let ?g2 = "update_slot i (\<lambda>s. s\<lparr>slot_hazard := Some p\<rparr>) g1"
    have heap: "g_heap ?g2 p = Some snap" using snap by (simp add: g1_def)
    have sl: "slot ?g2 i \<noteq> None" using len by (simp add: slot_update_slot)
    have final: "update_slot i (\<lambda>s. s\<lparr>slot_inner := init_inner ops ctx (op_ptr_auth_mask ops (max_code_addr snap))
          p (fst (read_windows bounds ctx lo hi lo2 hi2)) (snd (read_windows bounds ctx lo hi lo2 hi2)) (slot_inner s)\<rparr>) ?g2 =
        update_slot i (started_slot ops ctx (max_code_addr snap) p (read_windows bounds ctx lo hi lo2 hi2)) g"
      using i unfolding g1_def
      by (simp add: update_slot_twice) (rule update_slot_cong, simp add: started_slot_def n_def)
    show ?thesis
      using i cur snap claim acquire heap sl final
      by (intro started [of i p snap])
        (auto simp: cursor_init_bounds2_def fresh_cursor_def Let_def n_def read_windows_def)
  qed
qed

lemma walk_inv_init:
  assumes "walk_inv g" "cursor_init_bounds2 ops bounds ctx lo hi lo2 hi2 g = Some (rc, c, g')"
  shows "walk_inv g'"
  using assms(1)
proof (cases rule: cursor_init_cases [of g ops bounds ctx lo hi lo2 hi2])
  case exhausted
  with assms show ?thesis by simp
next
  case (unpublished i)
  have "walk_inv (update_slot i (\<lambda>s. s\<lparr>slot_seq := slot_seq s + 2\<rparr>) g)"
    by (rule walk_inv_update [OF assms(1)])
      (auto dest!: walk_inv_slot [OF assms(1)] simp: slot_ok_def split: option.splits)
  with unpublished assms(2) show ?thesis by simp
next
  case (started i p snap)
  let ?f = "started_slot ops ctx (max_code_addr snap) p (read_windows bounds ctx lo hi lo2 hi2)"
  have "walk_inv (update_slot i ?f g)"
    by (rule walk_inv_update [OF assms(1)])
      (simp add: slot_ok_def started_slot_def init_inner_def started(4))
  with started assms(2) show ?thesis by simp
qed

lemma snapshot_advance: "advance ops u mem inner = (rc, inner') \<Longrightarrow> snapshot inner' = snapshot inner"
  by (auto simp: advance_def go_to_def finish_walk_def Let_def
      split: prod.splits option.splits sum.splits if_splits)

text \<open>The outcomes of \<open>step\<close> in a state that satisfies the invariant.\<close>

lemma step_cases:
  assumes "walk_inv g"
  obtains
    (not_live) "\<not> is_live g c" "step ops mem c g = Some ((- 1, 0, 0), g)"
  | (finished) s where "is_live g c" "slot g (unat (cslot c)) = Some s" "walk_done (slot_inner s)"
      "step ops mem c g = Some ((0, 0, 0), g)"
  | (no_walk) s where "is_live g c" "slot g (unat (cslot c)) = Some s" "\<not> walk_done (slot_inner s)"
      "snapshot (slot_inner s) = None" "step ops mem c g = Some ((- 1, 0, 0), g)"
  | (advanced) s p snap rc inner' where "is_live g c" "slot g (unat (cslot c)) = Some s"
      "\<not> walk_done (slot_inner s)" "snapshot (slot_inner s) = Some p" "g_heap g p = Some snap"
      "advance ops (unw snap) mem (slot_inner s) = (rc, inner')"
      "step ops mem c g = Some ((rc, cur_ip (slot_inner s), op_sp ops (sl_regs (slot_inner s))),
         update_slot (unat (cslot c)) (\<lambda>s. s\<lparr>slot_inner := inner'\<rparr>) g)"
proof (cases "is_live g c")
  case False
  then show ?thesis by (intro not_live) (simp_all add: step_def)
next
  case live: True
  then obtain s where s: "slot g (unat (cslot c)) = Some s"
    by (auto simp: is_live_def nonce_matches_def split: option.splits)
  consider "walk_done (slot_inner s)" | "\<not> walk_done (slot_inner s)" "snapshot (slot_inner s) = None"
    | p where "\<not> walk_done (slot_inner s)" "snapshot (slot_inner s) = Some p" by fastforce
  then show ?thesis
  proof cases
    case 1
    with live s show ?thesis by (intro finished) (simp_all add: step_def)
  next
    case 2
    with live s show ?thesis by (intro no_walk) (simp_all add: step_def)
  next
    case 3
    then obtain snap where snap: "g_heap g p = Some snap"
      using walk_inv_slot [OF assms s] by (auto simp: slot_ok_def)
    obtain rc inner' where a: "advance ops (unw snap) mem (slot_inner s) = (rc, inner')"
      by (rule prod.exhaust)
    show ?thesis using live s 3 snap a by (intro advanced) (assumption | simp add: step_def Let_def)+
  qed
qed

lemma walk_inv_step:
  assumes "walk_inv g" "step ops mem c g = Some (r, g')"
  shows "walk_inv g'"
proof -
  show ?thesis using assms(1)
  proof (cases rule: step_cases [of g c ops mem])
    case (advanced s p snap rc inner')
    have "walk_inv (update_slot (unat (cslot c)) (\<lambda>s. s\<lparr>slot_inner := inner'\<rparr>) g)"
    proof (rule walk_inv_update [OF assms(1)])
      fix t assume "slot g (unat (cslot c)) = Some t"
      with advanced(2) have "t = s" by simp
      with walk_inv_slot [OF assms(1) advanced(2)] show "slot_ok (g_heap g) (t\<lparr>slot_inner := inner'\<rparr>)"
        by (auto simp: slot_ok_def snapshot_advance [OF advanced(6)] split: option.splits)
    qed
    with advanced(7) assms(2) show ?thesis by simp
  qed (use assms in simp_all)
qed

lemma walk_inv_fini: "walk_inv g \<Longrightarrow> walk_inv (snd (cursor_fini c g))"
  by (simp add: cursor_fini_def walk_inv_release)

text \<open>
  The states the library's entry points can produce, called in any order and with any cursor
  bits and any memory contents. A writer's closure counts by the state it leaves, so its value is
  taken as unit, and the allocator never returns an address in use.
\<close>

inductive reachable :: "('rule, 'regs, 'u) CursorOps \<Rightarrow> 'regs \<Rightarrow> ('rule, 'regs, 'u) Global \<Rightarrow> bool" for ops zero_regs where
  reach_start: "reachable ops zero_regs global_start"
| reach_slots: "reachable ops zero_regs g \<Longrightarrow> reachable ops zero_regs (state_init zero_regs n g)"
| reach_thread: "reachable ops zero_regs g \<Longrightarrow> reachable ops zero_regs (thread_registered zero_regs g)"
| reach_write: "reachable ops zero_regs g \<Longrightarrow> g_heap g boxed = None \<Longrightarrow>
    with_writer max_known new_unw boxed f g = ((), g') \<Longrightarrow> reachable ops zero_regs g'"
| reach_init: "reachable ops zero_regs g \<Longrightarrow>
    cursor_init_bounds2 ops bounds ctx lo hi lo2 hi2 g = Some (rc, c, g') \<Longrightarrow> reachable ops zero_regs g'"
| reach_step: "reachable ops zero_regs g \<Longrightarrow> step ops mem c g = Some (r, g') \<Longrightarrow> reachable ops zero_regs g'"
| reach_fini: "reachable ops zero_regs g \<Longrightarrow> reachable ops zero_regs (snd (cursor_fini c g))"

lemma walk_inv_threads [simp]: "walk_inv (g\<lparr>g_threads := n\<rparr>) = walk_inv g"
  by (simp add: walk_inv_def global_wf_def)

lemma reachable_inv: "reachable ops zero_regs g \<Longrightarrow> walk_inv g"
  by (induction rule: reachable.induct)
    (auto simp: walk_inv_start state_init_def thread_registered_def Let_def
      intro: walk_inv_ensure_slots walk_inv_fini elim: walk_inv_writer walk_inv_init walk_inv_step)

lemma step_defined: "walk_inv g \<Longrightarrow> step ops mem c g \<noteq> None"
  by (cases rule: step_cases [of g c ops mem]) simp_all

lemma init_defined: "walk_inv g \<Longrightarrow> cursor_init_bounds2 ops bounds ctx lo hi lo2 hi2 g \<noteq> None"
  by (cases rule: cursor_init_cases [of g ops bounds ctx lo hi lo2 hi2]) simp_all

section \<open>What a walk relies on\<close>

text \<open>
  The interface between the cursor and an architecture: the registers built from a snapshot
  have its stack pointer. The facts about whole walks are proved once against it.
\<close>

lemma is_live_iff:
  "is_live g c \<longleftrightarrow> magic c = CURSOR_MAGIC \<and> cslot c \<noteq> - 1 \<and>
     (\<exists>s. slot g (unat (cslot c)) = Some s \<and> slot_seq s = nonce c)"
  by (auto simp: is_live_def nonce_matches_def split: option.splits)

lemma slot_index_small:
  assumes "global_wf g" "i < length (g_slots g)"
  shows "unat (of_nat i :: u64) = i" "(of_nat i :: u64) \<noteq> - 1"
proof -
  have "i < 2 ^ 16" using assms by (auto simp: global_wf_def pool_sizes)
  then show u: "unat (of_nat i :: u64) = i" by (simp add: unat_of_nat_small)
  have m: "unat (- 1 :: u64) = 2 ^ 64 - 1" by (simp add: unat_minus_one_max)
  show "(of_nat i :: u64) \<noteq> - 1"
  proof
    assume "(of_nat i :: u64) = - 1"
    with u m have "i = 2 ^ 64 - 1" by metis
    with \<open>i < 2 ^ 16\<close> show False by simp
  qed
qed

locale cursor_arch =
  fixes ops :: "('rule, 'regs, 'u) CursorOps"
  assumes sp_make_regs: "op_sp ops (op_make_regs ops ctx code_mask) = context_sp ctx"
begin

lemma init_live:
  assumes "walk_inv g" "cursor_init_bounds2 ops bounds ctx lo hi lo2 hi2 g = Some (0, c, g')"
  shows "is_live g' c" "get_reg ops c g' = (context_ip ctx, context_sp ctx)"
    "\<exists>s p snap. slot g' (unat (cslot c)) = Some s \<and> \<not> walk_done (slot_inner s) \<and> slot_in_use s \<and>
       snapshot (slot_inner s) = Some p \<and> g_current g = Some p \<and> g_heap g' p = Some snap \<and>
       cur_addr (slot_inner s) = InstructionPointer (context_ip ctx) \<and>
       sl_regs (slot_inner s) = op_make_regs ops ctx (op_ptr_auth_mask ops (max_code_addr snap))"
proof -
  from assms(1) obtain i p snap where
    st: "i < length (g_slots g)" "g_current g = Some p" "g_heap g p = Some snap"
      "c = fresh_cursor i (slot_seq (g_slots g ! i) + 1)"
      "g' = update_slot i (started_slot ops ctx (max_code_addr snap) p (read_windows bounds ctx lo hi lo2 hi2)) g"
    by (cases rule: cursor_init_cases [of g ops bounds ctx lo hi lo2 hi2]) (use assms(2) in auto)
  have wf: "global_wf g" using assms(1) by (simp add: walk_inv_def)
  note i = slot_index_small [OF wf st(1)]
  have s: "slot g' (unat (cslot c)) = Some (started_slot ops ctx (max_code_addr snap) p
      (read_windows bounds ctx lo hi lo2 hi2) (g_slots g ! i))"
    using st(1) i by (simp add: st(4,5) fresh_cursor_def slot_update_slot)
  show live: "is_live g' c"
    using s i by (simp add: is_live_iff st(4) fresh_cursor_def started_slot_def)
  show "get_reg ops c g' = (context_ip ctx, context_sp ctx)"
    using live s by (simp add: get_reg_def started_slot_def init_inner_def sp_make_regs)
  show "\<exists>s p snap. slot g' (unat (cslot c)) = Some s \<and> \<not> walk_done (slot_inner s) \<and> slot_in_use s \<and>
       snapshot (slot_inner s) = Some p \<and> g_current g = Some p \<and> g_heap g' p = Some snap \<and>
       cur_addr (slot_inner s) = InstructionPointer (context_ip ctx) \<and>
       sl_regs (slot_inner s) = op_make_regs ops ctx (op_ptr_auth_mask ops (max_code_addr snap))"
    using s st(2,3)
    by (simp add: started_slot_def init_inner_def initial_frame_address_def from_instruction_pointer_def st(5))
qed

lemma first_step:
  assumes "walk_inv g" "cursor_init_bounds2 ops bounds ctx lo hi lo2 hi2 g = Some (0, c, g')"
  shows "\<exists>rc g''. step ops mem c g' = Some ((rc, context_ip ctx, context_sp ctx), g'') \<and> rc \<in> {0, 1}"
proof -
  note live = init_live [OF assms]
  have "walk_inv g'" by (rule walk_inv_init [OF assms])
  then show ?thesis
  proof (cases rule: step_cases [of g' c ops mem])
    case (advanced s p snap rc inner')
    have "rc \<in> {0, 1}" using advanced(6)
      by (auto simp: advance_def go_to_def finish_walk_def Let_def
          split: prod.splits option.splits sum.splits if_splits)
    with advanced live(2) show ?thesis by (simp add: get_reg_def)
  qed (use live in auto)
qed

end

interpretation x86_cursor: cursor_arch "x86_cursor_ops impl" for impl
  by unfold_locales (simp add: x86_cursor_ops_def make_regs_x86_def context_sp_def)

interpretation a64_cursor: cursor_arch "a64_cursor_ops impl trampoline" for impl trampoline
  by unfold_locales (simp add: a64_cursor_ops_def make_regs_a64_def context_sp_def a64_new_with_ptr_auth_mask_def)

section \<open>Properties\<close>

text \<open>
  The read path never touches a freed snapshot. In every state the entry points can reach,
  whatever the order of calls, with stale, copied or forged cursors and any stack contents,
  initialising a cursor and stepping one have a result, so neither reads through a dangling
  snapshot pointer; and the snapshot of every walk under way is allocated and protected.
\<close>

theorem cursor_never_dangles:
  assumes "reachable ops zero_regs g"
  shows "cursor_init_bounds2 ops bounds ctx lo hi lo2 hi2 g \<noteq> None \<and> step ops mem c g \<noteq> None \<and>
    (\<forall>s \<in> set (g_slots g). \<forall>p. snapshot (slot_inner s) = Some p \<longrightarrow>
       slot_in_use s \<and> slot_hazard s = Some p \<and> g_heap g p \<noteq> None)"
proof (intro conjI init_defined step_defined reachable_inv [OF assms] ballI allI impI)
  fix s p assume s: "s \<in> set (g_slots g)" "snapshot (slot_inner s) = Some p"
  with reachable_inv [OF assms] have "slot_ok (g_heap g) s" by (simp add: walk_inv_def)
  with s(2) show "slot_in_use s" "slot_hazard s = Some p" "g_heap g p \<noteq> None"
    by (auto simp: slot_ok_def)
qed

lemma and_mask_dvd: "a AND 7 = 0 \<longleftrightarrow> 8 dvd unat a" for a :: u64
proof -
  have "a AND 7 = take_bit 3 a" using take_bit_eq_mask [of 3 a] by (simp add: mask_eq_exp_minus_1)
  then have "unat (a AND 7) = unat a mod 8" by (simp only: unsigned_take_bit_eq) (simp add: take_bit_eq_mod)
  then show ?thesis by (metis dvd_eq_mod_eq_0 unat_0 unsigned_eq_0_iff)
qed

lemma page_align_unat: "unat (sp AND NOT 0xfff) = unat sp - unat sp mod 4096" for sp :: u64
proof -
  have m: "(0xfff :: u64) = mask 12" by (simp add: mask_eq_exp_minus_1)
  have "sp AND NOT (mask 12) = push_bit 12 (drop_bit 12 sp)"
    by (rule bit_word_eqI) (auto simp: bit_simps)
  also have "\<dots> = sp - take_bit 12 sp" using bits_ident [of 12 sp] by (simp add: algebra_simps)
  finally have e: "sp AND NOT 0xfff = sp - take_bit 12 sp" by (simp only: m)
  have t: "unat (take_bit 12 sp) = unat sp mod 4096" by (simp only: unsigned_take_bit_eq) (simp add: take_bit_eq_mod)
  then have "take_bit 12 sp \<le> sp" by (simp add: word_le_nat_alt)
  then show ?thesis unfolding e by (simp add: unat_sub t)
qed


text \<open>
  The window chosen without explicit bounds always covers the starting stack pointer: the
  registered bounds when the stack pointer lies in them, and otherwise the 16 MiB above the page
  of the stack pointer, cut at the top of the address space.
\<close>

theorem stack_window_covers:
  "case stack_window bounds sp of (lo, hi) \<Rightarrow>
     lo \<le> sp \<and> (sp < hi \<or> sp = - 1) \<and>
     ((lo, hi) = bounds \<or>
      unat lo = unat sp - unat sp mod 4096 \<and> unat hi = min (unat lo + 16777216) (2 ^ 64 - 1))"
proof -
  obtain lo hi where b: "bounds = (lo, hi)" by (rule prod.exhaust)
  show ?thesis
  proof (cases "lo \<noteq> 0 \<and> hi \<noteq> 0 \<and> lo \<le> sp \<and> sp < hi")
    case True
    then show ?thesis by (simp add: stack_window_def b)
  next
    case False
    define l where "l = sp AND NOT 0xfff"
    have l: "unat l = unat sp - unat sp mod 4096" by (simp only: l_def page_align_unat)
    have h: "unat (saturating_add l FALLBACK_SPAN) = min (unat l + 16777216) (2 ^ 64 - 1)"
      by (simp add: saturating_add_unat FALLBACK_SPAN_def)
    have "unat sp mod 4096 < 4096" by simp
    then have "sp < saturating_add l FALLBACK_SPAN \<or> sp = - 1"
      using l h unsigned_less [of sp, where ?'a = nat]
      by (auto simp: word_less_nat_alt word_unat_eq_iff unat_minus_one_max min_def)
    moreover have "stack_window bounds sp = (l, saturating_add l FALLBACK_SPAN)"
      using False by (auto simp: stack_window_def b l_def Let_def)
    ultimately show ?thesis using l h by (simp add: word_le_nat_alt)
  qed
qed

text \<open>
  Output-then-advance starts at the captured frame. When initialisation succeeds on either
  architecture, reading the registers and the first step both output the context's instruction
  and stack pointer, and the step's code says whether a frame follows.
\<close>

theorem walk_starts_at_context:
  assumes "reachable (x86_cursor_ops impl) zero_regs g"
    and "cursor_init_bounds2 (x86_cursor_ops impl) bounds ctx lo hi lo2 hi2 g = Some (0, c, g')"
    and "reachable (a64_cursor_ops impl' trampoline) zero_regs' h"
    and "cursor_init_bounds2 (a64_cursor_ops impl' trampoline) bounds ctx lo hi lo2 hi2 h = Some (0, d, h')"
  shows "get_reg (x86_cursor_ops impl) c g' = (context_ip ctx, context_sp ctx) \<and>
    (\<exists>rc g''. step (x86_cursor_ops impl) mem c g' = Some ((rc, context_ip ctx, context_sp ctx), g'') \<and>
       rc \<in> {0, 1}) \<and>
    get_reg (a64_cursor_ops impl' trampoline) d h' = (context_ip ctx, context_sp ctx) \<and>
    (\<exists>rc h''. step (a64_cursor_ops impl' trampoline) mem d h' = Some ((rc, context_ip ctx, context_sp ctx), h'') \<and>
       rc \<in> {0, 1})"
  by (intro conjI x86_cursor.init_live(2) [OF _ assms(2)] x86_cursor.first_step [OF _ assms(2)]
      a64_cursor.init_live(2) [OF _ assms(4)] a64_cursor.first_step [OF _ assms(4)]
      reachable_inv [OF assms(1)] reachable_inv [OF assms(3)])

text \<open>A state with a published, empty module set, for either architecture.\<close>

definition published :: "'regs \<Rightarrow> ('rule, 'regs, 'd UnwinderInternal) Global" where
  "published zero_regs =
     snd (with_writer (\<lambda>_. 0) \<lparr>modules = [], modules_generation = 0\<rparr> 1 (\<lambda>u. ((), u))
       (state_init zero_regs 0 global_start))"

lemma published_reachable: "reachable ops zero_regs (published zero_regs)"
proof (rule reach_write)
  show "reachable ops zero_regs (state_init zero_regs 0 global_start)"
    by (intro reach_slots reach_start)
  show "g_heap (state_init zero_regs 0 global_start) 1 = None"
    by (simp add: state_init_def ensure_slots_def global_start_def)
  show "with_writer (\<lambda>_. 0) \<lparr>modules = [], modules_generation = 0\<rparr> 1 (\<lambda>u. ((), u))
      (state_init zero_regs 0 global_start) = ((), published zero_regs)"
    by (simp add: published_def with_writer_def Let_def)
qed

lemma published_slots: "g_slots (published zero_regs) = replicate 16 (slot_new zero_regs)"
proof -
  have "grow_pool zero_regs 16 [] = replicate 16 (slot_new zero_regs)"
    by (subst grow_pool.simps, subst grow_pool.simps) (simp add: pool_sizes)
  then show ?thesis
    by (simp add: published_def with_writer_def reclaim_def state_init_def ensure_slots_def global_start_def
        Let_def DEFAULT_SLOTS_def)
qed

lemma published_init:
  "\<exists>c g'. cursor_init_bounds2 ops bounds ctx lo hi lo2 hi2 (published zero_regs) = Some (0, c, g')"
proof -
  have "walk_inv (published zero_regs :: ('a, 'b, 'c UnwinderInternal) Global)"
    by (rule reachable_inv [OF published_reachable])
  moreover have "slot_in_use (slot_new zero_regs :: ('a, 'b) Slot) = False" by (simp add: slot_new_def)
  moreover have "g_current (published zero_regs :: ('a, 'b, 'c UnwinderInternal) Global) \<noteq> None"
    by (simp add: published_def with_writer_def reclaim_def Let_def)
  ultimately show ?thesis
    by (cases rule: cursor_init_cases [of "published zero_regs" ops bounds ctx lo hi lo2 hi2])
      (auto simp: published_slots)
qed

definition no_rules :: "(unit, 'rule, 'regs, unit) callback_fn" where
  "no_rules m address rel regs read = (Inl (), regs)"

theorem walk_starts_at_context_witness:
  "\<exists>c g'. cursor_init_bounds2 (x86_cursor_ops no_rules) (0, 0) \<lparr>ctx_r = [5, 16, 32, 0, 0]\<rparr> 0 64 0 0
       (published (x86_new 0 0 0)) = Some (0, c, g') \<and>
     get_reg (x86_cursor_ops no_rules) c g' = (5, 16)"
proof -
  let ?x = "x86_cursor_ops no_rules :: (_, _, unit UnwinderInternal) CursorOps"
  let ?a = "a64_cursor_ops no_rules None :: (_, _, unit UnwinderInternal) CursorOps"
  let ?ctx = "\<lparr>ctx_r = [5, 16, 32, 0, 0]\<rparr>"
  obtain c g' where x: "cursor_init_bounds2 ?x (0, 0) ?ctx 0 64 0 0 (published (x86_new 0 0 0)) = Some (0, c, g')"
    using published_init [of ?x "(0, 0)" ?ctx 0 64 0 0 "x86_new 0 0 0"] by (elim exE)
  obtain d h' where a: "cursor_init_bounds2 ?a (0, 0) ?ctx 0 64 0 0 (published (a64_new 0 0 0)) = Some (0, d, h')"
    using published_init [of ?a "(0, 0)" ?ctx 0 64 0 0 "a64_new 0 0 0"] by (elim exE)
  from walk_starts_at_context [OF published_reachable x published_reachable a, of "\<lambda>_. 0"] x
  show ?thesis by (simp add: context_ip_def context_sp_def)
qed

theorem cursor_never_dangles_witness:
  "step (x86_cursor_ops no_rules) (\<lambda>_. 0) (fresh_cursor 0 7) (published (x86_new 0 0 0)) \<noteq> None"
  by (rule cursor_never_dangles [OF published_reachable, THEN conjunct2, THEN conjunct1])

lemma advance_rc:
  "advance ops u mem inner = (rc, inner') \<Longrightarrow>
     rc = 1 \<and> cur_ip inner' \<noteq> 0 \<and> walk_done inner' = walk_done inner \<or> rc = 0 \<and> walk_done inner'"
  by (auto simp: advance_def go_to_def finish_walk_def Let_def
      split: prod.splits option.splits sum.splits if_splits)

lemma step_advanced_facts:
  assumes "is_live g c" "slot g (unat (cslot c)) = Some s"
    and "g' = update_slot (unat (cslot c)) (\<lambda>s. s\<lparr>slot_inner := inner'\<rparr>) g"
  shows "is_live g' c" "slot g' (unat (cslot c)) = Some (s\<lparr>slot_inner := inner'\<rparr>)"
    "\<And>j. j \<noteq> unat (cslot c) \<Longrightarrow> slot g' j = slot g j"
proof -
  have i: "unat (cslot c) < length (g_slots g)" "g_slots g ! unat (cslot c) = s"
    using assms(2) by (auto simp: slot_def split: if_splits)
  show sl: "slot g' (unat (cslot c)) = Some (s\<lparr>slot_inner := inner'\<rparr>)"
    using i by (simp add: assms(3) slot_update_slot)
  show "is_live g' c" using assms(1,2) sl by (simp add: is_live_iff)
  show "slot g' j = slot g j" if "j \<noteq> unat (cslot c)" for j
    using i that by (simp add: assms(3) slot_update_slot)
qed



lemma not_live_fini: "\<not> is_live g c \<Longrightarrow> snd (cursor_fini c g) = g"
  by (auto simp: cursor_fini_def release_slot_def is_live_iff split: option.splits)

lemma live_fini:
  assumes "is_live g c"
  shows "\<exists>s. slot (snd (cursor_fini c g)) (unat (cslot c)) = Some s \<and> \<not> slot_in_use s \<and>
      slot_hazard s = None \<and> snapshot (slot_inner s) = None \<and> slot_seq s \<noteq> nonce c"
    "j \<noteq> unat (cslot c) \<Longrightarrow> slot (snd (cursor_fini c g)) j = slot g j"
proof -
  from assms obtain s where s: "magic c = CURSOR_MAGIC" "cslot c \<noteq> - 1"
    "slot g (unat (cslot c)) = Some s" "slot_seq s = nonce c" by (auto simp: is_live_iff)
  then have i: "unat (cslot c) < length (g_slots g)" by (auto simp: slot_def split: if_splits)
  from s i show "\<exists>s. slot (snd (cursor_fini c g)) (unat (cslot c)) = Some s \<and> \<not> slot_in_use s \<and>
      slot_hazard s = None \<and> snapshot (slot_inner s) = None \<and> slot_seq s \<noteq> nonce c"
    by (simp add: cursor_fini_def release_slot_def slot_update_slot)
  from s i show "j \<noteq> unat (cslot c) \<Longrightarrow> slot (snd (cursor_fini c g)) j = slot g j"
    by (simp add: cursor_fini_def release_slot_def slot_update_slot)
qed

text \<open>
  A cursor that is not live is inert, and finishing ends it. Stepping it returns an error,
  reading it gives zeros and finishing it changes nothing in the library; after a cursor is
  finished, its copies and the cursor itself are no longer live, its slot is free and
  protects nothing, and every other slot is as it was.
\<close>

theorem cursor_fini_ends:
  "(\<not> is_live g c \<longrightarrow> step ops mem c g = Some ((- 1, 0, 0), g) \<and> get_reg ops c g = (0, 0) \<and>
      snd (cursor_fini c g) = g) \<and>
   (case cursor_fini c g of (c', g') \<Rightarrow>
      c' = dead \<and> \<not> is_live g' c \<and> \<not> is_live g' c' \<and>
      (is_live g c \<longrightarrow> (\<exists>s. slot g' (unat (cslot c)) = Some s \<and> \<not> slot_in_use s \<and> slot_hazard s = None)) \<and>
      (\<forall>j. j \<noteq> unat (cslot c) \<longrightarrow> slot g' j = slot g j))"
proof -
  have dead: "\<not> is_live h dead" for h :: "('a, 'b, 'c) Global" by (simp add: is_live_def dead_def)
  obtain g' where f: "cursor_fini c g = (dead, g')" by (simp add: cursor_fini_def)
  show ?thesis
  proof (cases "is_live g c")
    case False
    then show ?thesis using not_live_fini [OF False] dead by (simp add: step_def get_reg_def f)
  next
    case True
    from live_fini(1) [OF True] obtain s where "slot g' (unat (cslot c)) = Some s" "\<not> slot_in_use s"
      "slot_hazard s = None" "slot_seq s \<noteq> nonce c" by (auto simp: f)
    then show ?thesis using True live_fini(2) [OF True] dead by (auto simp: is_live_iff f)
  qed
qed

theorem cursor_fini_ends_witness:
  "case cursor_fini (fresh_cursor 0 0) (published (x86_new 0 0 0) :: (UnwindRuleX86_64, _, unit UnwinderInternal) Global) of
     (c', g') \<Rightarrow> c' = dead \<and> (\<exists>s. slot g' 0 = Some s \<and> \<not> slot_in_use s)"
proof -
  let ?g = "published (x86_new 0 0 0) :: (UnwindRuleX86_64, _, unit UnwinderInternal) Global"
  have "is_live ?g (fresh_cursor 0 0)"
    by (simp add: is_live_iff fresh_cursor_def slot_def published_slots slot_new_def)
  with cursor_fini_ends [of ?g "fresh_cursor 0 0" "x86_cursor_ops no_rules" "\<lambda>_. 0"] show ?thesis
    by (auto simp: fresh_cursor_def split: prod.splits)
qed

section \<open>Addresses of the walks\<close>

definition addresses_wf :: "('rule, 'regs, 'u) Global \<Rightarrow> bool" where
  "addresses_wf g \<longleftrightarrow> (\<forall>s \<in> set (g_slots g). frame_address_wf (cur_addr (slot_inner s)))"

lemma addresses_wf_update:
  assumes "addresses_wf g" "\<And>s. s \<in> set (g_slots g) \<Longrightarrow> frame_address_wf (cur_addr (slot_inner (f s)))"
  shows "addresses_wf (update_slot i f g)"
proof (cases "i < length (g_slots g)")
  case True
  then have "frame_address_wf (cur_addr (slot_inner (f (g_slots g ! i))))" using assms(2) by simp
  with assms(1) True show ?thesis
    using set_update_subset_insert [of "g_slots g" i "f (g_slots g ! i)"] by (auto simp: addresses_wf_def update_slot_def)
qed (use assms(1) in \<open>simp add: update_slot_def list_update_beyond\<close>)

lemma addresses_wf_release: "addresses_wf g \<Longrightarrow> addresses_wf (release_slot i n g)"
  by (auto simp: release_slot_def intro!: addresses_wf_update split: option.split) (auto simp: addresses_wf_def)

lemma addresses_wf_ensure_slots:
  assumes "walk_inv g" "addresses_wf g"
  shows "addresses_wf (ensure_slots z n g)"
proof -
  from assms(1) obtain k where "grow_pool z n (g_slots g) = g_slots g @ replicate k (slot_new z)"
    using grow_pool_spec [of "g_slots g" z n] by (auto simp: walk_inv_def global_wf_def)
  with assms(2) show ?thesis
    by (auto simp: addresses_wf_def ensure_slots_def slot_new_def placeholder_inner_def from_instruction_pointer_def)
qed

lemma advance_address:
  "advance ops u mem inner = (rc, inner') \<Longrightarrow> frame_address_wf (cur_addr inner) \<Longrightarrow> frame_address_wf (cur_addr inner')"
  by (auto simp: advance_def go_to_def finish_walk_def from_instruction_pointer_def Let_def
      split: prod.splits option.splits sum.splits if_splits)

lemma addresses_wf_init:
  assumes "walk_inv g" "addresses_wf g" "cursor_init_bounds2 ops bounds ctx lo hi lo2 hi2 g = Some (rc, c, g')"
  shows "addresses_wf g'"
  using assms(1)
proof (cases rule: cursor_init_cases [of g ops bounds ctx lo hi lo2 hi2])
  case exhausted
  with assms show ?thesis by simp
next
  case (unpublished i)
  have "addresses_wf (update_slot i (\<lambda>s. s\<lparr>slot_seq := slot_seq s + 2\<rparr>) g)"
    by (rule addresses_wf_update [OF assms(2)]) (use assms(2) in \<open>simp add: addresses_wf_def\<close>)
  with unpublished(4) assms(3) show ?thesis by simp
next
  case (started i p snap)
  have "addresses_wf (update_slot i (started_slot ops ctx (max_code_addr snap) p (read_windows bounds ctx lo hi lo2 hi2)) g)"
    by (rule addresses_wf_update [OF assms(2)])
      (simp add: started_slot_def init_inner_def initial_frame_address_def from_instruction_pointer_def)
  with started assms(3) show ?thesis by simp
qed

lemma addresses_wf_step:
  assumes "walk_inv g" "addresses_wf g" "step ops mem c g = Some (r, g')"
  shows "addresses_wf g'"
  using assms(1)
proof (cases rule: step_cases [of g c ops mem])
  case (advanced s p snap rc inner')
  have "s \<in> set (g_slots g)" using advanced(2) by (auto simp: slot_def split: if_splits)
  then have "frame_address_wf (cur_addr inner')"
    using advance_address [OF advanced(6)] assms(2) by (simp add: addresses_wf_def)
  then have "addresses_wf (update_slot (unat (cslot c)) (\<lambda>s. s\<lparr>slot_inner := inner'\<rparr>) g)"
    by (intro addresses_wf_update [OF assms(2)]) simp
  with advanced(7) assms(3) show ?thesis by simp
qed (use assms in simp_all)

lemma reachable_addresses: "reachable ops zero_regs g \<Longrightarrow> addresses_wf g"
proof (induction rule: reachable.induct)
  case reach_start
  show ?case by (simp add: addresses_wf_def global_start_def)
next
  case (reach_slots g n)
  then show ?case
    by (simp add: state_init_def addresses_wf_ensure_slots [OF reachable_inv [OF reach_slots.hyps]])
next
  case (reach_thread g)
  have threads: "addresses_wf (g\<lparr>g_threads := n\<rparr>) = addresses_wf g" for n by (simp add: addresses_wf_def)
  from reach_thread reachable_inv [OF reach_thread.hyps] show ?case
    by (simp add: thread_registered_def Let_def addresses_wf_ensure_slots threads)
next
  case (reach_write g boxed max_known new_unw f g')
  then show ?case
    by (auto simp: addresses_wf_def with_writer_def reclaim_def Let_def split: prod.splits)
next
  case (reach_init g bounds ctx lo hi lo2 hi2 rc c g')
  show ?case by (rule addresses_wf_init [OF reachable_inv [OF reach_init(1)] reach_init(3,2)])
next
  case (reach_step g mem c r g')
  show ?case by (rule addresses_wf_step [OF reachable_inv [OF reach_step(1)] reach_step(3,2)])
next
  case (reach_fini g c)
  then show ?case by (simp add: cursor_fini_def addresses_wf_release)
qed

text \<open>
  C31: the read path respects the types of its values. In every reachable state, the frame
  address of every walk is an instruction pointer or a non-null return address, whatever was
  on the stack; and the index a successful initialisation writes into a cursor is one of the
  pool's, so it fits the 64-bit field and reads back.
\<close>

theorem cursor_types:
  assumes "reachable ops zero_regs g"
  shows "(\<forall>s \<in> set (g_slots g). frame_address_wf (cur_addr (slot_inner s))) \<and>
    (\<forall>c g'. cursor_init_bounds2 ops bounds ctx lo hi lo2 hi2 g = Some (0, c, g') \<longrightarrow>
       (\<exists>i < length (g_slots g). unat (cslot c) = i \<and> cslot c \<noteq> - 1 \<and> \<not> slot_in_use (g_slots g ! i) \<and>
          length (reserved c) = 5 \<and> is_live g' c))"
proof (intro conjI allI impI)
  show "\<forall>s \<in> set (g_slots g). frame_address_wf (cur_addr (slot_inner s))"
    using reachable_addresses [OF assms] by (simp add: addresses_wf_def)
  fix c g' assume init: "cursor_init_bounds2 ops bounds ctx lo hi lo2 hi2 g = Some (0, c, g')"
  note inv = reachable_inv [OF assms]
  then have wf: "global_wf g" by (simp add: walk_inv_def)
  from inv show "\<exists>i < length (g_slots g). unat (cslot c) = i \<and> cslot c \<noteq> - 1 \<and> \<not> slot_in_use (g_slots g ! i) \<and>
      length (reserved c) = 5 \<and> is_live g' c"
  proof (cases rule: cursor_init_cases [of g ops bounds ctx lo hi lo2 hi2])
    case (started i p snap)
    note idx = slot_index_small [OF wf started(1)]
    from started(5) init have c: "c = fresh_cursor i (slot_seq (g_slots g ! i) + 1)"
      "g' = update_slot i (started_slot ops ctx (max_code_addr snap) p (read_windows bounds ctx lo hi lo2 hi2)) g" by simp_all
    then have "is_live g' c"
      using idx started(1) by (simp add: is_live_iff fresh_cursor_def slot_update_slot started_slot_def)
    with c(1) idx started(1,2) show ?thesis by (auto simp: fresh_cursor_def)
  qed (use init in auto)
qed

theorem cursor_types_witness:
  "\<exists>c g'. cursor_init_bounds2 (x86_cursor_ops no_rules) (0, 0) \<lparr>ctx_r = [5, 16, 32, 0, 0]\<rparr> 0 64 0 0
       (published (x86_new 0 0 0)) = Some (0, c, g') \<and> cslot c \<noteq> - 1 \<and> is_live g' c"
proof -
  let ?x = "x86_cursor_ops no_rules :: (_, _, unit UnwinderInternal) CursorOps"
  let ?ctx = "\<lparr>ctx_r = [5, 16, 32, 0, 0]\<rparr>"
  obtain c g' where i: "cursor_init_bounds2 ?x (0, 0) ?ctx 0 64 0 0 (published (x86_new 0 0 0)) = Some (0, c, g')"
    using published_init [of ?x "(0, 0)" ?ctx 0 64 0 0 "x86_new 0 0 0"] by (elim exE)
  have r: "reachable ?x (x86_new 0 0 0) (published (x86_new 0 0 0))" by (rule published_reachable)
  from cursor_types [OF r, of "(0, 0)" ?ctx 0 64 0 0] i show ?thesis by blast
qed

end
