(* ===== verification/Walk.thy ===== *)
theory Walk
  imports Cursor
begin

text \<open>
  Whole walks: the loop a caller runs over a cursor, and a reference walk that knows nothing of
  cursors, slots, snapshots and caches. The loop is shown to give what the reference walk gives,
  once for every architecture that satisfies the locale \<open>walker\<close>.
\<close>

section \<open>The caller's loop\<close>

text \<open>
  Step until the code is not positive, collecting the frames that were output. The last component
  is the code of the last step, one when \<open>n\<close> steps were not enough.
\<close>

fun backtrace :: "('rule, 'regs, 'u) CursorOps \<Rightarrow> (u64 \<Rightarrow> u64) \<Rightarrow> FhCursor \<Rightarrow> nat \<Rightarrow> ('rule, 'regs, 'u) Global \<Rightarrow>
    (u64 \<times> u64) list \<times> c_int" where
  "backtrace ops mem c 0 g = ([], 1)"
| "backtrace ops mem c (Suc n) g =
     (case step ops mem c g of
        None \<Rightarrow> ([], - 1)
      | Some ((rc, ip, sp), g') \<Rightarrow>
          if rc > 0 then (case backtrace ops mem c n g' of (frames, rc') \<Rightarrow> ((ip, sp) # frames, rc'))
          else ([(ip, sp)], rc))"

section \<open>The reference walk\<close>

text \<open>
  The frame after one: at the signal trampoline the interrupted one, otherwise what \<open>unwind\<close>, an
  unwinder without a cache, says. A null address or an error ends the walk.
\<close>

definition next_frame :: "('rule, 'regs, 'u) CursorOps \<Rightarrow>
    (FrameAddress \<Rightarrow> 'regs \<Rightarrow> read_stack \<Rightarrow> (Error + (u64 \<times> bool) option) \<times> 'regs) \<Rightarrow> read_stack \<Rightarrow>
    FrameAddress \<Rightarrow> u64 \<Rightarrow> 'regs \<Rightarrow> (FrameAddress \<times> u64 \<times> 'regs) option" where
  "next_frame ops unwind read address ip regs =
     (if op_is_trampoline ops ip
      then case op_restore ops regs read of
             (Some pc, regs') \<Rightarrow> if pc \<noteq> 0 then Some (InstructionPointer pc, pc, regs') else None
           | (None, regs') \<Rightarrow> None
      else case unwind address regs read of
             (Inr (Some (ra, interrupted)), regs') \<Rightarrow>
               if ra \<noteq> 0
               then Some (if interrupted then InstructionPointer ra else ReturnAddress ra, ra, regs')
               else None
           | _ \<Rightarrow> None)"

fun reference_walk :: "('rule, 'regs, 'u) CursorOps \<Rightarrow>
    (FrameAddress \<Rightarrow> 'regs \<Rightarrow> read_stack \<Rightarrow> (Error + (u64 \<times> bool) option) \<times> 'regs) \<Rightarrow> read_stack \<Rightarrow>
    nat \<Rightarrow> FrameAddress \<Rightarrow> u64 \<Rightarrow> 'regs \<Rightarrow> (u64 \<times> u64) list \<times> c_int" where
  "reference_walk ops unwind read 0 address ip regs = ([], 1)"
| "reference_walk ops unwind read (Suc n) address ip regs =
     (case next_frame ops unwind read address ip regs of
        None \<Rightarrow> ([(ip, op_sp ops regs)], 0)
      | Some (address', ip', regs') \<Rightarrow>
          (case reference_walk ops unwind read n address' ip' regs' of
             (frames, rc) \<Rightarrow> ((ip, op_sp ops regs) # frames, rc)))"

text \<open>A property of every frame the reference walk unwinds, the trampoline's excepted.\<close>

fun along_walk :: "(FrameAddress \<Rightarrow> 'regs \<Rightarrow> bool) \<Rightarrow> ('rule, 'regs, 'u) CursorOps \<Rightarrow>
    (FrameAddress \<Rightarrow> 'regs \<Rightarrow> read_stack \<Rightarrow> (Error + (u64 \<times> bool) option) \<times> 'regs) \<Rightarrow> read_stack \<Rightarrow>
    nat \<Rightarrow> FrameAddress \<Rightarrow> u64 \<Rightarrow> 'regs \<Rightarrow> bool" where
  "along_walk P ops unwind read 0 address ip regs = True"
| "along_walk P ops unwind read (Suc n) address ip regs =
     ((op_is_trampoline ops ip \<or> P address regs) \<and>
      (case next_frame ops unwind read address ip regs of
         None \<Rightarrow> True
       | Some (address', ip', regs') \<Rightarrow> along_walk P ops unwind read n address' ip' regs'))"

section \<open>A cursor on a frame\<close>

text \<open>The cursor stands on the frame with these registers, with a cache that holds only true rules.\<close>

definition stands_on :: "'rule \<Rightarrow> ('d Module \<Rightarrow> u64 \<Rightarrow> u32 \<Rightarrow> 'rule option) \<Rightarrow> (u64 \<Rightarrow> 'd Module list list) \<Rightarrow>
    'd UnwinderInternal \<Rightarrow> read_stack \<Rightarrow> (u64 \<Rightarrow> u64) \<Rightarrow> FhCursor \<Rightarrow> ('rule, 'regs, 'd UnwinderInternal) Global \<Rightarrow>
    FrameAddress \<Rightarrow> u64 \<Rightarrow> 'regs \<Rightarrow> bool" where
  "stands_on fallback rule_of module_lists u read mem c g address ip regs \<longleftrightarrow>
     is_live g c \<and> (\<exists>s p snap. slot g (unat (cslot c)) = Some s \<and> \<not> walk_done (slot_inner s) \<and>
       snapshot (slot_inner s) = Some p \<and> g_heap g p = Some snap \<and> unw snap = u \<and>
       window_read (slot_inner s) mem = read \<and> cur_addr (slot_inner s) = address \<and> cur_ip (slot_inner s) = ip \<and>
       sl_regs (slot_inner s) = regs \<and> cache_sound fallback rule_of module_lists (sl_cache (slot_inner s)))"

lemma window_read_same: "window_read (inner\<lparr>sl_regs := r, sl_cache := ca, cur_ip := i, cur_addr := a\<rparr>) = window_read inner"
  "window_read (inner\<lparr>sl_regs := r, cur_ip := i, cur_addr := a\<rparr>) = window_read inner"
  by (simp_all add: window_read_def fun_eq_iff)

text \<open>
  What a walk relies on from an architecture: as far as its cached unwinding agrees with the
  uncached one, \<open>op_unwind\<close> gives what \<open>plain\<close> gives and updates the cache as \<open>with_cache\<close> does.
\<close>

locale walker =
  fixes ops :: "('rule, 'regs, 'd UnwinderInternal) CursorOps"
    and exec :: "('rule, 'regs) exec_fn"
    and fallback :: 'rule
    and callback :: "('d, 'rule, 'regs, 'e) callback_fn"
    and plain :: "'d UnwinderInternal \<Rightarrow> FrameAddress \<Rightarrow> 'regs \<Rightarrow> read_stack \<Rightarrow>
      (Error + (u64 \<times> bool) option) \<times> 'regs"
  assumes op_unwind_plain:
    "fst (with_cache exec fallback u callback address regs cache read) =
       without_cache exec fallback u callback address regs read \<Longrightarrow>
     op_unwind ops u address regs cache read =
       (plain u address regs read, snd (with_cache exec fallback u callback address regs cache read))"
begin

lemma advance_next_frame:
  assumes "cache_sound fallback rule_of module_lists (sl_cache inner)"
    and "module_lists (modules_generation u) = modules u"
    and "op_is_trampoline ops (cur_ip inner) \<or>
      determined_at fallback callback rule_of u (cur_addr inner) (sl_regs inner) (window_read inner mem)"
  shows "case next_frame ops (plain u) (window_read inner mem) (cur_addr inner) (cur_ip inner) (sl_regs inner) of
      None \<Rightarrow> \<exists>inner'. advance ops u mem inner = (0, inner')
    | Some (address, ip, regs) \<Rightarrow> \<exists>cache. cache_sound fallback rule_of module_lists cache \<and>
        advance ops u mem inner =
          (1, inner\<lparr>sl_regs := regs, sl_cache := cache, cur_ip := ip, cur_addr := address\<rparr>)"
proof (cases "op_is_trampoline ops (cur_ip inner)")
  case True
  obtain pc regs where r: "op_restore ops (sl_regs inner) (window_read inner mem) = (pc, regs)" by fastforce
  have "inner\<lparr>sl_regs := regs, cur_ip := i, cur_addr := a\<rparr> =
      inner\<lparr>sl_regs := regs, sl_cache := sl_cache inner, cur_ip := i, cur_addr := a\<rparr>" for i a by simp
  with True r assms(1) show ?thesis
    by (auto simp: advance_def next_frame_def go_to_def finish_walk_def from_instruction_pointer_def
        Let_def split: option.split)
next
  case False
  let ?w = "with_cache exec fallback u callback (cur_addr inner) (sl_regs inner) (sl_cache inner) (window_read inner mem)"
  note t = with_cache_transparent_step [OF _ assms(1,2), of callback "cur_addr inner" "sl_regs inner"
      "window_read inner mem" exec]
  have t: "fst ?w = without_cache exec fallback u callback (cur_addr inner) (sl_regs inner) (window_read inner mem)"
    "cache_sound fallback rule_of module_lists (snd ?w)"
    using t False assms(3) by blast+
  obtain r regs where p: "plain u (cur_addr inner) (sl_regs inner) (window_read inner mem) = (r, regs)" by fastforce
  have adv: "advance ops u mem inner =
      (let inner' = inner\<lparr>sl_regs := regs, sl_cache := snd ?w\<rparr> in
       case r of
         Inr (Some (ra, interrupted)) \<Rightarrow>
           if ra \<noteq> 0 then go_to (if interrupted then InstructionPointer ra else ReturnAddress ra) ra inner'
           else finish_walk inner'
       | _ \<Rightarrow> finish_walk inner')"
    using False op_unwind_plain [OF t(1)] p
    by (auto simp: advance_def from_instruction_pointer_def Let_def split: sum.split option.split)
  show ?thesis
    using False p t(2) unfolding adv
    by (auto simp: next_frame_def go_to_def finish_walk_def Let_def split: sum.split option.split)
qed

lemma stands_on_step:
  assumes "stands_on fallback rule_of module_lists u read mem c g address ip regs"
    and "module_lists (modules_generation u) = modules u"
    and "op_is_trampoline ops ip \<or> determined_at fallback callback rule_of u address regs read"
  shows "case next_frame ops (plain u) read address ip regs of
      None \<Rightarrow> \<exists>g'. step ops mem c g = Some ((0, ip, op_sp ops regs), g')
    | Some (address', ip', regs') \<Rightarrow> \<exists>g'. step ops mem c g = Some ((1, ip, op_sp ops regs), g') \<and>
        stands_on fallback rule_of module_lists u read mem c g' address' ip' regs'"
proof -
  from assms(1) obtain s p snap where s: "is_live g c" "slot g (unat (cslot c)) = Some s" "\<not> walk_done (slot_inner s)"
    "snapshot (slot_inner s) = Some p" "g_heap g p = Some snap" "unw snap = u"
    and i: "window_read (slot_inner s) mem = read" "cur_addr (slot_inner s) = address" "cur_ip (slot_inner s) = ip"
      "sl_regs (slot_inner s) = regs" "cache_sound fallback rule_of module_lists (sl_cache (slot_inner s))"
    by (auto simp: stands_on_def)
  have step: "step ops mem c g = (case advance ops u mem (slot_inner s) of
      (rc, inner') \<Rightarrow> Some ((rc, ip, op_sp ops regs), update_slot (unat (cslot c)) (\<lambda>s. s\<lparr>slot_inner := inner'\<rparr>) g))"
    using s i by (simp add: step_def Let_def)
  have on: "stands_on fallback rule_of module_lists u read mem c
      (update_slot (unat (cslot c)) (\<lambda>s. s\<lparr>slot_inner := inner'\<rparr>) g) address' ip' regs'"
    if "inner' = (slot_inner s)\<lparr>sl_regs := regs', sl_cache := cache', cur_ip := ip', cur_addr := address'\<rparr>"
      "cache_sound fallback rule_of module_lists cache'" for inner' address' ip' regs' cache'
    using step_advanced_facts(1,2) [OF s(1,2) refl, of inner'] s(3-6) i(1) that
    by (auto simp: stands_on_def window_read_same)
  from advance_next_frame [OF i(5) assms(2), where mem = mem] assms(3) show ?thesis
    unfolding i step by (auto split: option.splits intro: on)
qed

lemma backtrace_reference:
  assumes "module_lists (modules_generation u) = modules u"
  shows "stands_on fallback rule_of module_lists u read mem c g address ip regs \<Longrightarrow>
    along_walk (\<lambda>address regs. determined_at fallback callback rule_of u address regs read) ops (plain u) read
      n address ip regs \<Longrightarrow>
    backtrace ops mem c n g = reference_walk ops (plain u) read n address ip regs"
proof (induction n arbitrary: g address ip regs)
  case (Suc n)
  note step = stands_on_step [OF Suc.prems(1) assms]
  show ?case
  proof (cases "next_frame ops (plain u) read address ip regs")
    case None
    with step Suc.prems(2) show ?thesis by auto
  next
    case (Some f)
    obtain address' ip' regs' where f: "f = (address', ip', regs')" by (cases f) auto
    with step Some Suc.prems(2) obtain g' where g': "step ops mem c g = Some ((1, ip, op_sp ops regs), g')"
      "stands_on fallback rule_of module_lists u read mem c g' address' ip' regs'" by auto
    from Suc.IH [OF g'(2)] Suc.prems(2) Some f g'(1) show ?thesis by simp
  qed
qed simp

end

section \<open>A walk from its start\<close>

text \<open>The reader of a walk with these two windows.\<close>

definition windows_read :: "(u64 \<times> u64) \<times> u64 \<times> u64 \<Rightarrow> (u64 \<Rightarrow> u64) \<Rightarrow> read_stack" where
  "windows_read windows mem addr =
     (case windows of ((lo, hi), lo2, hi2) \<Rightarrow>
        if (lo \<le> addr \<and> saturating_add addr 8 \<le> hi \<or> lo2 \<le> addr \<and> saturating_add addr 8 \<le> hi2) \<and> addr AND 7 = 0
        then Some (mem addr) else None)"

lemma started_stands_on:
  assumes "walk_inv g" "g_current g = Some p" "g_heap g p = Some snap"
    and "\<forall>s \<in> set (g_slots g). cache_sound fallback rule_of module_lists (sl_cache (slot_inner s))"
    and "cursor_init_bounds2 ops bounds ctx lo hi lo2 hi2 g = Some (0, c, g')"
  shows "stands_on fallback rule_of module_lists (unw snap)
    (windows_read (read_windows bounds ctx lo hi lo2 hi2) mem) mem c g' (InstructionPointer (context_ip ctx))
    (context_ip ctx) (op_make_regs ops ctx (op_ptr_auth_mask ops (max_code_addr snap)))"
proof -
  from assms(1) obtain i where i: "i < length (g_slots g)" "c = fresh_cursor i (slot_seq (g_slots g ! i) + 1)"
    "g' = update_slot i (started_slot ops ctx (max_code_addr snap) p (read_windows bounds ctx lo hi lo2 hi2)) g"
    by (cases rule: cursor_init_cases [of g ops bounds ctx lo hi lo2 hi2]) (use assms(2,3,5) in auto)
  note u = slot_index_small [OF _ i(1)]
  have u: "unat (of_nat i :: u64) = i" "(of_nat i :: u64) \<noteq> - 1" using u assms(1) by (simp_all add: walk_inv_def)
  define s where "s = started_slot ops ctx (max_code_addr snap) p (read_windows bounds ctx lo hi lo2 hi2) (g_slots g ! i)"
  have s: "slot g' (unat (cslot c)) = Some s" using i u by (simp add: fresh_cursor_def slot_update_slot s_def)
  have "is_live g' c" using s u by (simp add: is_live_iff i(2) fresh_cursor_def s_def started_slot_def)
  moreover have "cache_sound fallback rule_of module_lists (sl_cache (slot_inner s))"
    using assms(4) i(1) by (simp add: s_def started_slot_def init_inner_def)
  moreover have "window_read (slot_inner s) mem = windows_read (read_windows bounds ctx lo hi lo2 hi2) mem"
    by (auto simp: fun_eq_iff window_read_def windows_read_def s_def started_slot_def init_inner_def Let_def
        split: prod.splits)
  moreover have "\<not> walk_done (slot_inner s)" "snapshot (slot_inner s) = Some p" "g_heap g' p = Some snap"
    "cur_addr (slot_inner s) = InstructionPointer (context_ip ctx)" "cur_ip (slot_inner s) = context_ip ctx"
    "sl_regs (slot_inner s) = op_make_regs ops ctx (op_ptr_auth_mask ops (max_code_addr snap))"
    by (simp_all add: s_def started_slot_def init_inner_def initial_frame_address_def from_instruction_pointer_def
        i(3) assms(3))
  ultimately show ?thesis using s by (auto simp: stands_on_def)
qed


text \<open>The two architectures; the aarch64 unwinder does not say which frames were interrupted.\<close>

definition forget_interruption :: "(FrameAddress \<Rightarrow> 'regs \<Rightarrow> read_stack \<Rightarrow> (Error + (u64 \<times> bool) option) \<times> 'regs) \<Rightarrow>
    FrameAddress \<Rightarrow> 'regs \<Rightarrow> read_stack \<Rightarrow> (Error + (u64 \<times> bool) option) \<times> 'regs" where
  "forget_interruption unwind address regs read =
     (case unwind address regs read of
        (r, regs') \<Rightarrow> (bind_res r (\<lambda>x. Inr (map_option (\<lambda>f. (fst f, False)) x)), regs'))"

interpretation x86_walk: walker "x86_cursor_ops impl" exec_x86 fallback_rule_x86 impl
  "\<lambda>u. without_cache exec_x86 fallback_rule_x86 u impl" for impl
  by unfold_locales (simp add: x86_cursor_ops_def unwinder_x86_signal_aware_def unwind_frame_signal_aware_def prod_eq_iff)

interpretation a64_walk: walker "a64_cursor_ops impl trampoline" exec_a64 fallback_rule_a64 impl
  "\<lambda>u. forget_interruption (without_cache exec_a64 fallback_rule_a64 u impl)" for impl trampoline
proof
  fix u address regs cache read
  let ?w = "with_cache exec_a64 fallback_rule_a64 u impl address regs cache read"
  assume w: "fst ?w = without_cache exec_a64 fallback_rule_a64 u impl address regs read"
  obtain r regs' cache' where r: "?w = ((r, regs'), cache')" by (metis prod.collapse)
  with w show "op_unwind (a64_cursor_ops impl trampoline) u address regs cache read =
      (forget_interruption (without_cache exec_a64 fallback_rule_a64 u impl) address regs read, snd ?w)"
    by (cases r) (auto simp: a64_cursor_ops_def signal_aware_default_def unwinder_a64_frame_def unwind_frame_def unwind_frame_signal_aware_def
        forget_interruption_def not_interrupted_def bind_res_def option.map_comp comp_def
        split: prod.splits)
qed

end
