(* ===== verification/Registry.thy ===== *)
theory Registry
  imports State Unwinder
begin

text \<open>
  Module bookkeeping (\<^verbatim>\<open>src/modules/mod.rs\<close>) and JIT registration (\<^verbatim>\<open>src/modules/jit.rs\<close>): which
  static and JIT modules are published, the rescan of the loaded objects, the dyld callbacks,
  and registering and deregistering an \<open>.eh_frame\<close>. Every operation runs under the registry
  lock and publishes through \<open>with_writer\<close>.
\<close>

section \<open>Data\<close>

text \<open>
  A hash map whose entries are iterated is the list of its entries, in an order the code does
  not rely on; a map or set that is only looked up is a function or a set.
\<close>

record 'd Registry =
  static_mods :: "(u64 \<times> u64) list"
  jit_keys :: "u64 set"
  jit_by_eh_frame :: "u64 \<rightharpoonup> u64"
  jit_eh_frame_by_key :: "u64 \<rightharpoonup> u64"
  load_counts :: "(u64 \<times> u64) option"
  batching :: bool
  pending :: "(u64 \<times> u64 \<times> 'd Module) list"

record 'd EnumResult =
  enum_current :: "(u64 \<times> u64) list"
  new_modules :: "(u64 \<times> 'd Module) list"

definition registry_new :: "'d Registry" where
  "registry_new = \<lparr>static_mods = [], jit_keys = {}, jit_by_eh_frame = (\<lambda>_. None),
     jit_eh_frame_by_key = (\<lambda>_. None), load_counts = None, batching = False, pending = []\<rparr>"

text \<open>The statics the mutating path works on, with framehop's generation counter.\<close>

record ('rule, 'regs, 'd) Library =
  lib_registry :: "'d Registry"
  lib_global :: "('rule, 'regs, 'd UnwinderInternal) Global"
  lib_generation :: u64
  lib_jit_failures :: nat

section \<open>Fingerprints\<close>

text \<open>
  \<open>fingerprint_of\<close> feeds a \<open>DefaultHasher\<close>, whose algorithm the standard library leaves open: a hasher is
  a function of the byte strings written to it. Hashing a slice writes its length and then its
  elements.
\<close>

type_synonym hasher = "u8 list list \<Rightarrow> u64"

definition hash_slice :: "nat \<Rightarrow> u8 list \<Rightarrow> u8 list list" where
  "hash_slice len elements = [to_le_bytes 8 (of_nat len :: u64), elements]"

definition fingerprint_writes :: "u64 list \<Rightarrow> u8 list \<Rightarrow> u8 list list" where
  "fingerprint_writes parts name =
     hash_slice (length parts) (concat (map (to_le_bytes 8) parts)) @ hash_slice (length name) name"

definition fingerprint_of :: "hasher \<Rightarrow> u64 list \<Rightarrow> u8 list \<Rightarrow> u64" where
  "fingerprint_of finish parts name = finish (fingerprint_writes parts name)"

text \<open>Nothing that goes into a fingerprint is lost before the hasher sees it.\<close>

lemma to_le_bytes_inject: "to_le_bytes 8 v = to_le_bytes 8 (w :: u64) \<longleftrightarrow> v = w"
proof
  assume "to_le_bytes 8 v = to_le_bytes 8 w"
  then have "unat v mod 256 ^ 8 = unat w mod 256 ^ 8" by (metis le_value_to_le_bytes)
  moreover have "unat v < 256 ^ 8" "unat w < 256 ^ 8"
    using unsigned_less [where 'a = nat, of v] unsigned_less [where 'a = nat, of w] by simp_all
  ultimately show "v = w" by (simp add: word_unat_eq_iff)
qed simp

lemma fingerprint_writes_inject:
  "fingerprint_writes parts name = fingerprint_writes parts' name' \<longleftrightarrow> parts = parts' \<and> name = name'"
proof -
  have "concat (map (to_le_bytes 8) parts) = concat (map (to_le_bytes 8) parts') \<longleftrightarrow> parts = parts'"
  proof (induction parts arbitrary: parts')
    case Nil
    have "to_le_bytes 8 w \<noteq> []" for w :: u64 by (metis length_to_le_bytes list.size(3) zero_neq_numeral)
    then show ?case by (cases parts') auto
  next
    case (Cons w parts)
    have "to_le_bytes 8 w \<noteq> []" for w :: u64 by (metis length_to_le_bytes list.size(3) zero_neq_numeral)
    with Cons show ?case by (cases parts') (auto simp: to_le_bytes_inject append_eq_append_conv)
  qed
  then show ?thesis by (auto simp: fingerprint_writes_def hash_slice_def)
qed

section \<open>Publishing\<close>

text \<open>The body of a writer's closure: additions and removals in order, \<open>None\<close> for a panic.\<close>

fun apply_changes :: "'d change list \<Rightarrow> 'd UnwinderInternal \<Rightarrow> u64 \<Rightarrow> ('d UnwinderInternal \<times> u64) option" where
  "apply_changes [] u counter = Some (u, counter)"
| "apply_changes (Add m # changes) u counter =
     Option.bind (add_module u m counter) (\<lambda>(u', counter'). apply_changes changes u' counter')"
| "apply_changes (Remove start # changes) u counter =
     Option.bind (remove_module u start counter) (\<lambda>(u', counter'). apply_changes changes u' counter')"

text \<open>
  \<open>state::with_writer\<close> with such a closure. The first writer starts from a new unwinder, which
  takes a generation; \<open>boxed\<close> is the address the new snapshot is allocated at.
\<close>

definition writer_start :: "('rule, 'regs, 'd) Library \<Rightarrow> ('d UnwinderInternal \<times> u64) option" where
  "writer_start lib =
     (if g_current (lib_global lib) = None then unwinder_new (lib_generation lib)
      else Some (\<lparr>modules = [], modules_generation = 0\<rparr>, lib_generation lib))"

definition write_modules :: "ptr \<Rightarrow> 'd change list \<Rightarrow> ('rule, 'regs, 'd) Library \<Rightarrow> ('rule, 'regs, 'd) Library option" where
  "write_modules boxed changes lib =
     (case writer_start lib of
        None \<Rightarrow> None
      | Some (new_unw, counter) \<Rightarrow>
          (case with_writer max_known_code_address new_unw boxed
                  (\<lambda>u. case apply_changes changes u counter of
                         Some (u', counter') \<Rightarrow> (Some counter', u')
                       | None \<Rightarrow> (None, u)) (lib_global lib) of
             (None, _) \<Rightarrow> None
           | (Some counter', g) \<Rightarrow> Some (lib\<lparr>lib_global := g, lib_generation := counter'\<rparr>)))"

section \<open>Static modules\<close>

text \<open>
  \<open>refresh\<close>: the keys that are gone and those whose base address was reused, then the scan.
  \<open>counts\<close> is what the loader reports, \<open>None\<close> where it reports nothing, and
  \<open>scan\<close> the platform's scan, \<open>None\<close> when it failed.
\<close>

definition removed_keys :: "(u64 \<times> u64) list \<Rightarrow> (u64 \<times> u64) list \<Rightarrow> u64 list" where
  "removed_keys known loaded = filter (\<lambda>k. map_of loaded k = None) (map fst known)"

definition changed_keys :: "(u64 \<times> u64) list \<Rightarrow> (u64 \<times> u64) list \<Rightarrow> u64 list" where
  "changed_keys known loaded = map fst (filter (\<lambda>(k, fp).
     case map_of loaded k of Some nfp \<Rightarrow> nfp \<noteq> fp | None \<Rightarrow> False) known)"

definition refresh :: "ptr \<Rightarrow> (u64 \<times> u64) option \<Rightarrow> ((u64 \<times> u64) list \<Rightarrow> 'd EnumResult option) \<Rightarrow>
    ('rule, 'regs, 'd) Library \<Rightarrow> ('rule, 'regs, 'd) Library option" where
  "refresh boxed counts scan lib =
     (let reg = lib_registry lib in
      if counts \<noteq> None \<and> counts = load_counts reg then Some lib
      else case scan (static_mods reg) of
        None \<Rightarrow> Some lib
      | Some res \<Rightarrow>
          (let loaded = enum_current res;
               removed = removed_keys (static_mods reg) loaded;
               changed = changed_keys (static_mods reg) loaded;
               reg' = reg\<lparr>load_counts := counts\<rparr>
           in if new_modules res = [] \<and> removed = [] \<and> changed = [] then Some (lib\<lparr>lib_registry := reg'\<rparr>)
              else map_option (\<lambda>lib'. lib'\<lparr>lib_registry := reg'\<lparr>static_mods := loaded\<rparr>\<rparr>)
                (write_modules boxed
                  (map Remove changed @ map Add (map snd (new_modules res)) @
                   map Remove (filter (\<lambda>k. k \<notin> jit_keys reg) removed)) lib)))"

text \<open>\<open>HashMap::insert\<close> and \<open>remove\<close> on the entries.\<close>

definition entries_insert :: "u64 \<Rightarrow> u64 \<Rightarrow> (u64 \<times> u64) list \<Rightarrow> (u64 \<times> u64) list" where
  "entries_insert k v es = (k, v) # filter (\<lambda>(k', _). k' \<noteq> k) es"

definition entries_remove :: "u64 \<Rightarrow> (u64 \<times> u64) list \<Rightarrow> (u64 \<times> u64) list" where
  "entries_remove k es = filter (\<lambda>(k', _). k' \<noteq> k) es"

definition macos_begin_batch :: "('rule, 'regs, 'd) Library \<Rightarrow> ('rule, 'regs, 'd) Library" where
  "macos_begin_batch lib = lib\<lparr>lib_registry := (lib_registry lib)\<lparr>batching := True\<rparr>\<rparr>"

definition macos_end_batch :: "ptr \<Rightarrow> ('rule, 'regs, 'd) Library \<Rightarrow> ('rule, 'regs, 'd) Library option" where
  "macos_end_batch boxed lib =
     (let reg = lib_registry lib;
          reg' = reg\<lparr>batching := False, pending := []\<rparr> in
      if pending reg = [] then Some (lib\<lparr>lib_registry := reg'\<rparr>)
      else map_option (\<lambda>lib'. lib'\<lparr>lib_registry := reg'\<lparr>static_mods :=
               fold (\<lambda>(k, fp, _). entries_insert k fp) (pending reg) (static_mods reg)\<rparr>\<rparr>)
             (write_modules boxed (map (\<lambda>(_, _, m). Add m) (pending reg)) lib))"

definition macos_add_image :: "ptr \<Rightarrow> u64 \<Rightarrow> u64 \<Rightarrow> 'd Module \<Rightarrow> ('rule, 'regs, 'd) Library \<Rightarrow>
    ('rule, 'regs, 'd) Library option" where
  "macos_add_image boxed key fp m lib =
     (let reg = lib_registry lib in
      if batching reg then Some (lib\<lparr>lib_registry := reg\<lparr>pending := pending reg @ [(key, fp, m)]\<rparr>\<rparr>)
      else map_option (\<lambda>lib'. lib'\<lparr>lib_registry := reg\<lparr>static_mods := entries_insert key fp (static_mods reg)\<rparr>\<rparr>)
             (write_modules boxed
               ((if map_of (static_mods reg) key \<noteq> None then [Remove key] else []) @ [Add m]) lib))"

definition macos_remove_image :: "ptr \<Rightarrow> u64 \<Rightarrow> ('rule, 'regs, 'd) Library \<Rightarrow> ('rule, 'regs, 'd) Library option" where
  "macos_remove_image boxed key lib =
     (let reg = lib_registry lib;
          reg1 = (if batching reg
                  then reg\<lparr>pending := filter (\<lambda>(k, _, _). k \<noteq> key) (pending reg)\<rparr> else reg) in
      if map_of (static_mods reg1) key = None then Some (lib\<lparr>lib_registry := reg1\<rparr>)
      else let reg2 = reg1\<lparr>static_mods := entries_remove key (static_mods reg1)\<rparr> in
           if key \<in> jit_keys reg2 then Some (lib\<lparr>lib_registry := reg2\<rparr>)
           else map_option (\<lambda>lib'. lib'\<lparr>lib_registry := reg2\<rparr>) (write_modules boxed [Remove key] lib))"

section \<open>JIT modules\<close>

definition forget_jit_eh_frame :: "u64 \<Rightarrow> 'd Registry \<Rightarrow> 'd Registry" where
  "forget_jit_eh_frame key reg =
     (case jit_eh_frame_by_key reg key of
        None \<Rightarrow> reg
      | Some eh_frame_addr \<Rightarrow>
          (let reg' = reg\<lparr>jit_eh_frame_by_key := (jit_eh_frame_by_key reg)(key := None)\<rparr> in
           if jit_by_eh_frame reg' eh_frame_addr = Some key
           then reg'\<lparr>jit_by_eh_frame := (jit_by_eh_frame reg')(eh_frame_addr := None)\<rparr> else reg'))"

definition record_jit_eh_frame :: "u64 \<Rightarrow> u64 \<Rightarrow> 'd Registry \<Rightarrow> 'd Registry" where
  "record_jit_eh_frame key eh_frame_addr reg =
     (let reg1 = forget_jit_eh_frame key (reg\<lparr>jit_keys := insert key (jit_keys reg)\<rparr>);
          reg2 = reg1\<lparr>jit_by_eh_frame := (jit_by_eh_frame reg1)(eh_frame_addr \<mapsto> key)\<rparr>;
          reg3 = (case jit_by_eh_frame reg1 eh_frame_addr of
                    Some prev_key \<Rightarrow>
                      reg2\<lparr>jit_eh_frame_by_key := (jit_eh_frame_by_key reg2)(prev_key := None)\<rparr>
                  | None \<Rightarrow> reg2)
      in reg3\<lparr>jit_eh_frame_by_key := (jit_eh_frame_by_key reg3)(key \<mapsto> eh_frame_addr)\<rparr>)"

definition add_jit_module :: "ptr \<Rightarrow> u64 \<Rightarrow> u64 \<Rightarrow> 'd Module \<Rightarrow> ('rule, 'regs, 'd) Library \<Rightarrow>
    ('rule, 'regs, 'd) Library option" where
  "add_jit_module boxed key eh_frame_addr m lib =
     (let reg = lib_registry lib in
      map_option (\<lambda>lib'. lib'\<lparr>lib_registry := record_jit_eh_frame key eh_frame_addr reg\<rparr>)
        (write_modules boxed ((if key \<in> jit_keys reg then [Remove key] else []) @ [Add m]) lib))"

definition remove_jit_locked :: "ptr \<Rightarrow> u64 \<Rightarrow> ('rule, 'regs, 'd) Library \<Rightarrow> ('rule, 'regs, 'd) Library option" where
  "remove_jit_locked boxed key lib =
     (let reg = lib_registry lib in
      if key \<notin> jit_keys reg then Some lib
      else map_option (\<lambda>lib'. lib'\<lparr>lib_registry :=
               forget_jit_eh_frame key (reg\<lparr>jit_keys := jit_keys reg - {key}\<rparr>)\<rparr>)
             (write_modules boxed [Remove key] lib))"

definition remove_jit_module :: "ptr \<Rightarrow> u64 \<Rightarrow> ('rule, 'regs, 'd) Library \<Rightarrow> ('rule, 'regs, 'd) Library option" where
  "remove_jit_module boxed key lib = remove_jit_locked boxed key lib"

definition remove_jit_module_by_eh_frame :: "ptr \<Rightarrow> u64 \<Rightarrow> ('rule, 'regs, 'd) Library \<Rightarrow>
    ('rule, 'regs, 'd) Library option" where
  "remove_jit_module_by_eh_frame boxed eh_frame_addr lib =
     (case jit_by_eh_frame (lib_registry lib) eh_frame_addr of
        None \<Rightarrow> Some lib
      | Some key \<Rightarrow> remove_jit_locked boxed key lib)"

definition jit_module_count :: "('rule, 'regs, 'd) Library \<Rightarrow> nat" where
  "jit_module_count lib = card (jit_keys (lib_registry lib))"

definition jit_register_failures :: "('rule, 'regs, 'd) Library \<Rightarrow> nat" where
  "jit_register_failures lib = lib_jit_failures lib"

section \<open>Registering an .eh_frame\<close>

text \<open>
  gimli's entries are as in the theory \<open>Dwarf\<close>; the length of an FDE's range is given by its
  offset.
\<close>

fun fde_range_loop :: "(u64 \<Rightarrow> u64) \<Rightarrow> 'g Entry list \<Rightarrow> u64 \<Rightarrow> u64 \<Rightarrow> bool \<Rightarrow> (u64 \<times> u64) option" where
  "fde_range_loop fde_len [] lo hi found = (if found \<and> hi > lo then Some (lo, hi) else None)"
| "fde_range_loop fde_len (EntryError e # es) lo hi found = None"
| "fde_range_loop fde_len (CieEntry # es) lo hi found = fde_range_loop fde_len es lo hi found"
| "fde_range_loop fde_len (FdeEntry (Inl e) # es) lo hi found = None"
| "fde_range_loop fde_len (FdeEntry (Inr (start, offset)) # es) lo hi found =
     (let end = start + fde_len offset
      in fde_range_loop fde_len es (if start < lo then start else lo) (if end > hi then end else hi) True)"

definition fde_pc_range :: "(u64 \<Rightarrow> u64) \<Rightarrow> 'g Entry list \<Rightarrow> (u64 \<times> u64) option" where
  "fde_pc_range fde_len es = fde_range_loop fde_len es (- 1) 0 False"

text \<open>gimli as JIT registration uses it: the entries and FDE lengths of bytes that live at an address.\<close>

record 'g JitGimli =
  jg_entries :: "bytes \<Rightarrow> u64 \<Rightarrow> 'g Entry list"
  jg_fde_len :: "bytes \<Rightarrow> u64 \<Rightarrow> u64 \<Rightarrow> u64"
  jg_section_entries :: "UnwindSectionType \<Rightarrow> bytes \<Rightarrow> BaseAddresses \<Rightarrow> 'g Entry list"

definition note_fail :: "int \<Rightarrow> ('rule, 'regs, 'd) Library \<Rightarrow> int \<times> ('rule, 'regs, 'd) Library" where
  "note_fail rc lib =
     (rc, if rc < 0 then lib\<lparr>lib_jit_failures := lib_jit_failures lib + 1\<rparr> else lib)"

definition jit_section_info :: "u64 \<Rightarrow> u64 \<Rightarrow> bytes \<Rightarrow> ExplicitModuleSectionInfo" where
  "jit_section_info text_lo eh_frame_runtime eh_frame =
     \<lparr>x_base_svma = text_lo, x_text_svma = None, x_text = None, x_stubs_svma = None,
      x_stub_helper_svma = None, x_got_svma = None, x_unwind_info = None,
      x_eh_frame_svma = Some (eh_frame_runtime, eh_frame_runtime + of_nat (length eh_frame)),
      x_eh_frame = Some eh_frame, x_eh_frame_hdr_svma = None, x_eh_frame_hdr = None,
      x_debug_frame = None, x_text_segment_svma = None, x_text_segment = None\<rparr>"

definition jit_module :: "'g JitGimli \<Rightarrow> u64 \<Rightarrow> bytes \<Rightarrow> u64 \<Rightarrow> u64 \<Rightarrow> ModuleUnwindDataInternal Module" where
  "jit_module gi eh_frame_runtime eh_frame text_lo text_hi =
     module_new (jg_section_entries gi) [] (text_lo, text_hi) text_lo
       (explicit_section_info (jit_section_info text_lo eh_frame_runtime eh_frame))"

text \<open>The buffer is its address and its bytes; address zero is the null pointer.\<close>

definition register_jit_eh_frame :: "'g JitGimli \<Rightarrow> ptr \<Rightarrow> u64 \<Rightarrow> bytes \<Rightarrow> u64 \<Rightarrow> u64 \<Rightarrow>
    ('rule, 'regs, ModuleUnwindDataInternal) Library \<Rightarrow>
    (int \<times> ('rule, 'regs, ModuleUnwindDataInternal) Library) option" where
  "register_jit_eh_frame gi boxed eh_frame_ptr eh_frame text_lo text_hi lib =
     (if eh_frame_ptr = 0 \<or> eh_frame = [] \<or> text_hi \<le> text_lo then Some (note_fail (- 1) lib)
      else if text_hi - text_lo > 0xffffffff then Some (note_fail (- 2) lib)
      else if fde_pc_range (jg_fde_len gi eh_frame eh_frame_ptr) (jg_entries gi eh_frame eh_frame_ptr) = None
        then Some (note_fail (- 3) lib)
      else map_option (\<lambda>lib'. (0, lib'))
        (add_jit_module boxed text_lo eh_frame_ptr (jit_module gi eh_frame_ptr eh_frame text_lo text_hi) lib))"

definition register_jit_eh_frame_auto :: "'g JitGimli \<Rightarrow> ptr \<Rightarrow> u64 \<Rightarrow> bytes \<Rightarrow>
    ('rule, 'regs, ModuleUnwindDataInternal) Library \<Rightarrow>
    (int \<times> ('rule, 'regs, ModuleUnwindDataInternal) Library) option" where
  "register_jit_eh_frame_auto gi boxed eh_frame_ptr eh_frame lib =
     (if eh_frame_ptr = 0 \<or> eh_frame = [] then Some (note_fail (- 1) lib)
      else case fde_pc_range (jg_fde_len gi eh_frame eh_frame_ptr) (jg_entries gi eh_frame eh_frame_ptr) of
        None \<Rightarrow> Some (note_fail (- 3) lib)
      | Some (text_lo, text_hi) \<Rightarrow> register_jit_eh_frame gi boxed eh_frame_ptr eh_frame text_lo text_hi lib)"

definition deregister_jit :: "ptr \<Rightarrow> u64 \<Rightarrow> ('rule, 'regs, 'd) Library \<Rightarrow> ('rule, 'regs, 'd) Library option" where
  "deregister_jit boxed text_lo lib = remove_jit_module boxed text_lo lib"

definition deregister_jit_eh_frame :: "ptr \<Rightarrow> u64 \<Rightarrow> ('rule, 'regs, 'd) Library \<Rightarrow> ('rule, 'regs, 'd) Library option" where
  "deregister_jit_eh_frame boxed eh_frame_ptr lib = remove_jit_module_by_eh_frame boxed eh_frame_ptr lib"

section \<open>What is published\<close>

definition current_chunks :: "('rule, 'regs, 'd) Library \<Rightarrow> 'd Module list list" where
  "current_chunks lib =
     (case g_current (lib_global lib) of
        None \<Rightarrow> []
      | Some p \<Rightarrow> (case g_heap (lib_global lib) p of Some s \<Rightarrow> modules (unw s) | None \<Rightarrow> []))"

definition listed :: "('rule, 'regs, 'd) Library \<Rightarrow> 'd Module list" where
  "listed lib = concat (current_chunks lib)"

definition lib_ok :: "('rule, 'regs, 'd) Library \<Rightarrow> bool" where
  "lib_ok lib \<longleftrightarrow> global_wf (lib_global lib) \<and> chunks_wf (current_chunks lib) \<and>
     distinct (map avma_start (listed lib))"

lemma apply_changes_modules:
  "apply_changes changes u counter = Some (u', counter') \<Longrightarrow>
     modules u' = fold (\<lambda>c s. store_change add_chunked remove_chunked s c) changes (modules u)"
proof (induction changes u counter rule: apply_changes.induct)
  case (2 m changes u counter)
  then show ?case by (auto simp: add_module_def bind_eq_Some_conv)
next
  case (3 start changes u counter)
  then show ?case by (auto simp: remove_module_def bind_eq_Some_conv split: option.splits)
qed simp

lemma next_modules_generation_total:
  "unat counter + 1 < 2 ^ 64 \<Longrightarrow>
     \<exists>counter'. next_modules_generation counter = Some (counter, counter') \<and> unat counter' = unat counter + 1"
  by (auto simp: next_modules_generation_def checked_add_def unat_add_no_overflow)

lemma apply_changes_total:
  "unat counter + length changes < 2 ^ 64 \<Longrightarrow> apply_changes changes u counter \<noteq> None"
proof (induction changes u counter rule: apply_changes.induct)
  case (2 m changes u counter)
  then show ?case using next_modules_generation_total [of counter]
    by (auto simp: add_module_def)
next
  case (3 start changes u counter)
  then show ?case using next_modules_generation_total [of counter]
    by (auto simp: remove_module_def split: option.splits)
qed simp

lemma with_writer_result:
  assumes "global_wf g" "g_heap g boxed = None" "with_writer mk nu boxed f g = (r, g')"
  shows "g_current g' = Some boxed" "map_option unw (g_heap g' boxed) =
      Some (snd (f (case g_current g of None \<Rightarrow> nu | Some p \<Rightarrow> unw (the (g_heap g p)))))"
    "r = fst (f (case g_current g of None \<Rightarrow> nu | Some p \<Rightarrow> unw (the (g_heap g p))))"
proof -
  have fresh: "boxed \<notin> set (g_retired g)" "g_current g \<noteq> Some boxed"
    using assms(1,2) by (auto simp: global_wf_def)
  have cur: "\<exists>s. g_heap g p = Some s" if "g_current g = Some p" for p
    using assms(1) that by (auto simp: global_wf_def)
  define u where "u = (case g_current g of None \<Rightarrow> nu | Some p \<Rightarrow> unw (the (g_heap g p)))"
  have u: "u = (case g_current g of None \<Rightarrow> nu
      | Some p \<Rightarrow> (case g_heap g p of Some s \<Rightarrow> unw s | None \<Rightarrow> nu))"
    using cur by (force simp: u_def split: option.splits)
  obtain x y where f: "f u = (x, y)" by (rule prod.exhaust)
  from assms(3) show "g_current g' = Some boxed"
    "map_option unw (g_heap g' boxed) = Some (snd (f (case g_current g of None \<Rightarrow> nu | Some p \<Rightarrow> unw (the (g_heap g p)))))"
    "r = fst (f (case g_current g of None \<Rightarrow> nu | Some p \<Rightarrow> unw (the (g_heap g p))))"
    unfolding with_writer_def u [symmetric] u_def [symmetric]
    using fresh f by (auto simp: reclaim_def Let_def split: option.splits)
qed

lemma history_distinct:
  "distinct (map avma_start ms) \<Longrightarrow> history_ok ms changes \<Longrightarrow>
     distinct (map avma_start (fold (\<lambda>c ms. list_change ms c) changes ms))"
proof (induction changes arbitrary: ms)
  case (Cons c cs)
  then show ?case using list_change_distinct [of ms c] by (auto split: change.splits)
qed simp

lemma write_modules_spec:
  assumes "lib_ok lib" "g_heap (lib_global lib) boxed = None" "history_ok (listed lib) changes"
    and "write_modules boxed changes lib = Some lib'"
  shows "lib_ok lib'" "listed lib' = fold (\<lambda>c ms. list_change ms c) changes (listed lib)"
    "lib_registry lib' = lib_registry lib" "lib_jit_failures lib' = lib_jit_failures lib"
proof -
  have wf: "global_wf (lib_global lib)" using assms(1) by (simp add: lib_ok_def)
  obtain nu counter where nu: "writer_start lib = Some (nu, counter)"
    using assms(4) by (auto simp: write_modules_def split: option.splits prod.splits)
  have "modules nu = []"
    using nu by (auto simp: writer_start_def unwinder_new_def split: if_splits)
  define f where "f = (\<lambda>u. case apply_changes changes u counter of
      Some (u', counter') \<Rightarrow> (Some counter', u') | None \<Rightarrow> (None, u))"
  have "write_modules boxed changes lib =
      (case with_writer max_known_code_address nu boxed f (lib_global lib) of
         (None, _) \<Rightarrow> None
       | (Some counter', g) \<Rightarrow> Some (lib\<lparr>lib_global := g, lib_generation := counter'\<rparr>))"
    by (simp add: write_modules_def nu f_def)
  with assms(4) obtain counter' g where
    w: "with_writer max_known_code_address nu boxed f (lib_global lib) = (Some counter', g)"
    and lib': "lib' = lib\<lparr>lib_global := g, lib_generation := counter'\<rparr>"
    by (auto split: option.splits prod.splits)
  note res = with_writer_result [OF wf assms(2) w]
  define u where "u = (case g_current (lib_global lib) of None \<Rightarrow> nu | Some p \<Rightarrow> unw (the (g_heap (lib_global lib) p)))"
  have cur: "modules u = current_chunks lib"
    using wf \<open>modules nu = []\<close> by (auto simp: u_def current_chunks_def global_wf_def split: option.splits)
  have "fst (f u) = Some counter'" using res(3) by (simp add: u_def)
  then obtain u' where u': "apply_changes changes u counter = Some (u', counter')" "f u = (Some counter', u')"
    by (auto simp: f_def split: option.splits)
  have chunks: "current_chunks lib' = fold (\<lambda>c s. store_change add_chunked remove_chunked s c) changes (current_chunks lib)"
    using res(1,2) u'(2) apply_changes_modules [OF u'(1)] unfolding lib' cur [symmetric]
    by (auto simp: current_chunks_def u_def)
  have ok: "chunks_wf (current_chunks lib)" "distinct (map avma_start (concat (current_chunks lib)))"
    "history_ok (concat (current_chunks lib)) changes"
    using assms(1,3) by (auto simp: lib_ok_def listed_def)
  note hist = chunked.history_refines [OF ok]
  show l: "listed lib' = fold (\<lambda>c ms. list_change ms c) changes (listed lib)"
    using hist by (simp add: listed_def chunks)
  have "distinct (map avma_start (listed lib'))" using ok l by (simp add: listed_def history_distinct)
  moreover have "global_wf g" using with_writer_wf [OF wf assms(2)] w by (metis snd_conv)
  ultimately show "lib_ok lib'" using hist chunks by (simp add: lib_ok_def lib')
  show "lib_registry lib' = lib_registry lib" "lib_jit_failures lib' = lib_jit_failures lib"
    by (simp_all add: lib')
qed

lemma fold_Remove:
  "fold (\<lambda>c ms. list_change ms c) (map Remove ks) ms = filter (\<lambda>m. avma_start m \<notin> set ks) ms"
  by (induction ks arbitrary: ms) (auto simp: filter_filter intro!: filter_cong)

lemma set_fold_Add: "set (fold (\<lambda>c ms. list_change ms c) (map Add ns) ms) = set ms \<union> set ns"
  by (induction ns arbitrary: ms) (auto simp: set_insort_key)

lemma history_ok_append:
  "history_ok ms (xs @ ys) \<longleftrightarrow> history_ok ms xs \<and> history_ok (fold (\<lambda>c ms. list_change ms c) xs ms) ys"
  by (induction xs arbitrary: ms) auto

lemma history_ok_Remove: "history_ok ms (map Remove ks)"
  by (induction ks arbitrary: ms) auto

lemma history_ok_Add:
  "distinct (map avma_start ns) \<Longrightarrow> avma_start ` set ns \<inter> avma_start ` set ms = {} \<Longrightarrow>
     history_ok ms (map Add ns)"
proof (induction ns arbitrary: ms)
  case (Cons n ns)
  then show ?case by (auto simp: set_insort_key)
qed simp

lemmas history_simps = history_ok_append history_ok_Remove fold_Remove set_fold_Add

text \<open>
  The registry's invariant: the two eh_frame maps are inverse to each other on registered JIT
  keys, every JIT key has its module published, every published module is a JIT or a static
  one, and no address is the key of both.
\<close>

definition eh_frames_ok :: "'d Registry \<Rightarrow> bool" where
  "eh_frames_ok reg \<longleftrightarrow>
     (\<forall>e k. jit_by_eh_frame reg e = Some k \<longleftrightarrow> jit_eh_frame_by_key reg k = Some e) \<and>
     dom (jit_eh_frame_by_key reg) \<subseteq> jit_keys reg"

definition static_keys :: "'d Registry \<Rightarrow> u64 set" where
  "static_keys reg = fst ` set (static_mods reg)"

definition reg_ok :: "('rule, 'regs, 'd) Library \<Rightarrow> bool" where
  "reg_ok lib \<longleftrightarrow> lib_ok lib \<and> eh_frames_ok (lib_registry lib) \<and>
     distinct (map fst (static_mods (lib_registry lib))) \<and>
     jit_keys (lib_registry lib) \<subseteq> avma_start ` set (listed lib) \<and>
     avma_start ` set (listed lib) \<subseteq> jit_keys (lib_registry lib) \<union> static_keys (lib_registry lib) \<and>
     jit_keys (lib_registry lib) \<inter> static_keys (lib_registry lib) = {}"

lemma reg_okD:
  assumes "reg_ok lib"
  shows "lib_ok lib" "eh_frames_ok (lib_registry lib)" "distinct (map fst (static_mods (lib_registry lib)))"
    "jit_keys (lib_registry lib) \<subseteq> avma_start ` set (listed lib)"
    "avma_start ` set (listed lib) \<subseteq> jit_keys (lib_registry lib) \<union> static_keys (lib_registry lib)"
    "jit_keys (lib_registry lib) \<inter> static_keys (lib_registry lib) = {}"
  using assms by (auto simp: reg_ok_def)

text \<open>
  What a rescan keeps of the published modules: those of the JIT, and the static ones whose
  image is still the one recorded.
\<close>

definition kept_modules :: "('rule, 'regs, 'd) Library \<Rightarrow> (u64 \<times> u64) list \<Rightarrow> 'd Module set" where
  "kept_modules lib loaded =
     {m \<in> set (listed lib). avma_start m \<in> jit_keys (lib_registry lib) \<or>
        map_of (static_mods (lib_registry lib)) (avma_start m) = map_of loaded (avma_start m)}"

lemma in_changed_keys:
  assumes "distinct (map fst known)"
  shows "k \<in> set (changed_keys known loaded) \<longleftrightarrow>
    map_of known k \<noteq> None \<and> map_of loaded k \<noteq> None \<and> map_of known k \<noteq> map_of loaded k"
  using map_of_eq_Some_iff [OF assms]
  by (auto simp: changed_keys_def image_iff split: option.splits) (metis option.inject)+

lemma in_removed_keys:
  "k \<in> set (removed_keys known loaded) \<longleftrightarrow> map_of known k \<noteq> None \<and> map_of loaded k = None"
  by (auto simp: removed_keys_def map_of_eq_None_iff)

lemma kept_modules_keys:
  assumes "reg_ok lib"
  shows "kept_modules lib loaded = {m \<in> set (listed lib).
    avma_start m \<notin> set (changed_keys (static_mods (lib_registry lib)) loaded) \<and>
    avma_start m \<notin> set (filter (\<lambda>k. k \<notin> jit_keys (lib_registry lib))
      (removed_keys (static_mods (lib_registry lib)) loaded))}"
proof -
  note ok = reg_okD [OF assms]
  have static: "map_of (static_mods (lib_registry lib)) (avma_start m) = None \<longleftrightarrow>
      avma_start m \<in> jit_keys (lib_registry lib)" if "m \<in> set (listed lib)" for m
    using ok(5,6) that by (auto simp: static_keys_def map_of_eq_None_iff)
  have "avma_start m \<in> jit_keys (lib_registry lib) \<or>
      map_of (static_mods (lib_registry lib)) (avma_start m) = map_of loaded (avma_start m) \<longleftrightarrow>
      avma_start m \<notin> set (changed_keys (static_mods (lib_registry lib)) loaded) \<and>
      avma_start m \<notin> set (filter (\<lambda>k. k \<notin> jit_keys (lib_registry lib))
        (removed_keys (static_mods (lib_registry lib)) loaded))" if "m \<in> set (listed lib)" for m
    unfolding set_filter mem_Collect_eq in_changed_keys [OF ok(3)] in_removed_keys
    using static [OF that] by (metis (full_types))
  then show ?thesis unfolding kept_modules_def by blast
qed

lemma kept_modules_static:
  assumes "reg_ok lib" "m \<in> kept_modules lib loaded" "avma_start m \<notin> jit_keys (lib_registry lib)"
  shows "avma_start m \<in> fst ` set loaded"
proof -
  have "avma_start m \<in> static_keys (lib_registry lib)"
    using reg_okD(5) [OF assms(1)] assms(2,3) by (auto simp: kept_modules_def)
  then have "map_of (static_mods (lib_registry lib)) (avma_start m) \<noteq> None"
    by (simp add: static_keys_def map_of_eq_None_iff)
  with assms(2,3) have "map_of loaded (avma_start m) \<noteq> None" by (auto simp: kept_modules_def)
  then show ?thesis by (simp add: map_of_eq_None_iff)
qed

lemma current_chunks_registry [simp]: "current_chunks (lib\<lparr>lib_registry := r\<rparr>) = current_chunks lib"
  by (simp add: current_chunks_def split: option.split)

lemma listed_registry [simp]: "listed (lib\<lparr>lib_registry := r\<rparr>) = listed lib"
  by (simp add: listed_def)

lemma lib_ok_registry [simp]: "lib_ok (lib\<lparr>lib_registry := r\<rparr>) = lib_ok lib"
  by (simp add: lib_ok_def)

section \<open>What refresh relies on\<close>

text \<open>
  A platform's scan of the loaded objects: \<open>os\<close> is what the loader reports. On a report in which
  no two objects share their lowest address, the scan lists each key once and builds modules,
  starting at their keys, only for keys that are new or whose fingerprint changed.
\<close>

locale module_scan =
  fixes valid :: "'s \<Rightarrow> bool"
    and scan :: "'s \<Rightarrow> (u64 \<times> u64) list \<Rightarrow> 'd EnumResult option"
  assumes current_distinct: "valid os \<Longrightarrow> scan os known = Some res \<Longrightarrow> distinct (map fst (enum_current res))"
    and new_distinct: "valid os \<Longrightarrow> scan os known = Some res \<Longrightarrow> distinct (map fst (new_modules res))"
    and new_start: "valid os \<Longrightarrow> scan os known = Some res \<Longrightarrow> (k, m) \<in> set (new_modules res) \<Longrightarrow> avma_start m = k"
    and new_changed: "valid os \<Longrightarrow> scan os known = Some res \<Longrightarrow> (k, m) \<in> set (new_modules res) \<Longrightarrow>
      map_of (enum_current res) k \<noteq> None \<and> map_of known k \<noteq> map_of (enum_current res) k"
begin

lemma refresh_unfold:
  fixes lib :: "('rule, 'regs, 'd) Library"
  assumes "counts = None \<or> counts \<noteq> load_counts (lib_registry lib)"
    and "scan os (static_mods (lib_registry lib)) = Some res"
    and "changed = changed_keys (static_mods (lib_registry lib)) (enum_current res)"
    and "removed = removed_keys (static_mods (lib_registry lib)) (enum_current res)"
    and "reg' = (lib_registry lib)\<lparr>load_counts := counts\<rparr>"
  shows "refresh boxed counts (scan os) lib =
      (if new_modules res = [] \<and> removed = [] \<and> changed = [] then Some (lib\<lparr>lib_registry := reg'\<rparr>)
       else map_option (\<lambda>lib'. lib'\<lparr>lib_registry := reg'\<lparr>static_mods := enum_current res\<rparr>\<rparr>)
         (write_modules boxed (map Remove changed @ map Add (map snd (new_modules res)) @
            map Remove (filter (\<lambda>k. k \<notin> jit_keys (lib_registry lib)) removed)) lib))"
proof -
  have guard: "(counts \<noteq> None \<and> counts = load_counts (lib_registry lib)) = False" using assms(1) by auto
  show ?thesis unfolding refresh_def Let_def guard by (simp add: assms(2-5))
qed

lemma new_key:
  fixes lib :: "('rule, 'regs, 'd) Library"
  assumes "valid os" "reg_ok lib" "scan os (static_mods (lib_registry lib)) = Some res"
    and "jit_keys (lib_registry lib) \<inter> fst ` set (enum_current res) = {}"
    and "m \<in> snd ` set (new_modules res)"
  shows "avma_start m \<in> fst ` set (enum_current res)"
    "avma_start m \<in> avma_start ` set (listed lib) \<Longrightarrow>
       avma_start m \<in> set (changed_keys (static_mods (lib_registry lib)) (enum_current res))"
proof -
  from assms(5) obtain k where k: "(k, m) \<in> set (new_modules res)" by auto
  note c = new_start [OF assms(1,3) k] new_changed [OF assms(1,3) k]
  show cur: "avma_start m \<in> fst ` set (enum_current res)" using c by (auto simp: map_of_eq_None_iff)
  assume "avma_start m \<in> avma_start ` set (listed lib)"
  moreover have "avma_start m \<notin> jit_keys (lib_registry lib)" using assms(4) cur by blast
  ultimately have "avma_start m \<in> static_keys (lib_registry lib)" using reg_okD(5) [OF assms(2)] by blast
  then have "map_of (static_mods (lib_registry lib)) (avma_start m) \<noteq> None"
    by (simp add: static_keys_def map_of_eq_None_iff)
  with c show "avma_start m \<in> set (changed_keys (static_mods (lib_registry lib)) (enum_current res))"
    by (simp add: in_changed_keys [OF reg_okD(3) [OF assms(2)]])
qed

lemma refresh_publishes:
  fixes lib :: "('rule, 'regs, 'd) Library"
  assumes "valid os" "reg_ok lib" "g_heap (lib_global lib) boxed = None"
    and "counts = None \<or> counts \<noteq> load_counts (lib_registry lib)"
    and res: "scan os (static_mods (lib_registry lib)) = Some res"
    and jit: "jit_keys (lib_registry lib) \<inter> fst ` set (enum_current res) = {}"
    and "refresh boxed counts (scan os) lib = Some lib'"
  shows "set (listed lib') = kept_modules lib (enum_current res) \<union> snd ` set (new_modules res) \<and> reg_ok lib'"
proof -
  let ?reg = "lib_registry lib" and ?cur = "enum_current res"
  define removed where "removed = removed_keys (static_mods ?reg) ?cur"
  define changed where "changed = changed_keys (static_mods ?reg) ?cur"
  define gone where "gone = filter (\<lambda>k. k \<notin> jit_keys ?reg) removed"
  define news where "news = map snd (new_modules res)"
  define reg' where "reg' = ?reg\<lparr>load_counts := counts\<rparr>"
  let ?changes = "map Remove changed @ map Add news @ map Remove gone"
  note ok = reg_okD [OF assms(2)]
  note key = new_key [OF assms(1,2) res jit]
  note kept = kept_modules_keys [OF assms(2), of ?cur, folded removed_def changed_def, folded gone_def]
  have gone: "avma_start m \<notin> set gone" if "m \<in> set news" for m
    using key(1) [of m] that by (auto simp: gone_def removed_def removed_keys_def news_def map_of_eq_None_iff)
  note unfold = refresh_unfold [OF assms(4) res changed_def removed_def reg'_def, of boxed,
      folded gone_def news_def]
  show ?thesis
  proof (cases "new_modules res = [] \<and> removed = [] \<and> changed = []")
    case True
    then have lib': "lib' = lib\<lparr>lib_registry := reg'\<rparr>" using unfold assms(7) by simp
    have "gone = []" using True by (simp add: gone_def)
    with True kept have "set (listed lib') = kept_modules lib ?cur \<union> snd ` set (new_modules res)"
      by (auto simp: lib')
    with ok show ?thesis by (simp add: reg_ok_def eh_frames_ok_def static_keys_def lib' reg'_def)
  next
    case False
    from assms(7) [unfolded unfold if_not_P [OF False] map_option_eq_Some]
    obtain lib1 where w: "write_modules boxed ?changes lib = Some lib1"
      and lib': "lib' = lib1\<lparr>lib_registry := reg'\<lparr>static_mods := ?cur\<rparr>\<rparr>" by blast
    have "map avma_start news = map fst (new_modules res)"
      using new_start [OF assms(1) res] by (auto simp: news_def)
    then have "distinct (map avma_start news)" using new_distinct [OF assms(1) res] by metis
    moreover have "avma_start m \<notin> avma_start ` set (filter (\<lambda>m. avma_start m \<notin> set changed) (listed lib))"
      if "m \<in> set news" for m
      using key(2) [of m] that by (auto simp: changed_def news_def)
    ultimately have "history_ok (filter (\<lambda>m. avma_start m \<notin> set changed) (listed lib)) (map Add news)"
      by (intro history_ok_Add) blast+
    then have "history_ok (listed lib) ?changes" by (simp add: history_simps)
    note spec = write_modules_spec [OF ok(1) assms(3) this w]
    have l: "set (listed lib') = kept_modules lib ?cur \<union> set news"
      using gone unfolding kept lib' listed_registry spec(2) by (auto simp: history_simps)
    have "jit_keys ?reg \<subseteq> avma_start ` set (listed lib')"
      using ok(4) unfolding l by (fastforce simp: kept_modules_def)
    moreover have "avma_start ` set (listed lib') \<subseteq> jit_keys ?reg \<union> fst ` set ?cur"
      using key(1) kept_modules_static [OF assms(2), of _ ?cur] unfolding l by (auto simp: news_def)
    ultimately have "reg_ok lib'"
      using ok(2) current_distinct [OF assms(1) res] jit spec(1)
      by (auto simp: reg_ok_def eh_frames_ok_def static_keys_def lib' reg'_def)
    with l show ?thesis by (simp add: news_def)
  qed
qed

end

section \<open>The JIT bookkeeping keeps the invariant\<close>

lemma forget_jit_eh_frame_eq:
  assumes "\<And>e k. jit_by_eh_frame reg e = Some k \<longleftrightarrow> jit_eh_frame_by_key reg k = Some e"
  shows "forget_jit_eh_frame key reg =
    reg\<lparr>jit_eh_frame_by_key := (jit_eh_frame_by_key reg)(key := None),
        jit_by_eh_frame := (\<lambda>e. if jit_by_eh_frame reg e = Some key then None else jit_by_eh_frame reg e)\<rparr>"
proof (cases "jit_eh_frame_by_key reg key")
  case None
  then have "jit_by_eh_frame reg e \<noteq> Some key" for e using assms by simp
  moreover have "(jit_eh_frame_by_key reg)(key := None) = jit_eh_frame_by_key reg"
    using None by (auto simp: fun_eq_iff)
  ultimately show ?thesis using None by (simp add: forget_jit_eh_frame_def)
next
  case (Some addr)
  then have "jit_by_eh_frame reg e = Some key \<longleftrightarrow> e = addr" for e using assms by auto
  then have "(jit_by_eh_frame reg)(addr := None) =
      (\<lambda>e. if jit_by_eh_frame reg e = Some key then None else jit_by_eh_frame reg e)" by (auto simp: fun_eq_iff)
  with Some assms show ?thesis by (simp add: forget_jit_eh_frame_def Let_def)
qed

lemma eh_frames_inverse:
  "eh_frames_ok reg \<Longrightarrow> jit_by_eh_frame reg e = Some k \<longleftrightarrow> jit_eh_frame_by_key reg k = Some e"
  by (simp add: eh_frames_ok_def)

lemma forget_ok:
  assumes "eh_frames_ok reg"
  shows "eh_frames_ok (forget_jit_eh_frame key (reg\<lparr>jit_keys := jit_keys reg - {key}\<rparr>))"
    "jit_keys (forget_jit_eh_frame key (reg\<lparr>jit_keys := K\<rparr>)) = K"
    "static_mods (forget_jit_eh_frame key (reg\<lparr>jit_keys := K\<rparr>)) = static_mods reg"
proof -
  let ?r = "forget_jit_eh_frame key (reg\<lparr>jit_keys := jit_keys reg - {key}\<rparr>)"
  have eh: "jit_by_eh_frame ?r e = (if jit_by_eh_frame reg e = Some key then None else jit_by_eh_frame reg e)"
    and key: "jit_eh_frame_by_key ?r k = (if k = key then None else jit_eh_frame_by_key reg k)"
    and keys: "jit_keys ?r = jit_keys reg - {key}" for e k
    using assms by (simp_all add: forget_jit_eh_frame_eq eh_frames_inverse)
  have "dom (jit_eh_frame_by_key ?r) \<subseteq> jit_keys ?r"
    using assms unfolding eh_frames_ok_def dom_def key keys by (auto split: if_splits)
  moreover have "jit_by_eh_frame ?r e = Some k \<longleftrightarrow> jit_eh_frame_by_key ?r k = Some e" for e k
    unfolding eh key using eh_frames_inverse [OF assms] by (metis option.inject option.distinct(1))
  ultimately show "eh_frames_ok ?r" by (simp add: eh_frames_ok_def)
  show "jit_keys (forget_jit_eh_frame key (reg\<lparr>jit_keys := K\<rparr>)) = K"
    "static_mods (forget_jit_eh_frame key (reg\<lparr>jit_keys := K\<rparr>)) = static_mods reg"
    using assms by (simp_all add: forget_jit_eh_frame_eq eh_frames_inverse)
qed

lemma record_ok:
  assumes "eh_frames_ok reg"
  shows "eh_frames_ok (record_jit_eh_frame key addr reg)"
    "jit_keys (record_jit_eh_frame key addr reg) = insert key (jit_keys reg)"
    "static_mods (record_jit_eh_frame key addr reg) = static_mods reg"
    "jit_by_eh_frame (record_jit_eh_frame key addr reg) e =
       (if e = addr then Some key else if jit_by_eh_frame reg e = Some key then None else jit_by_eh_frame reg e)"
proof -
  let ?r = "record_jit_eh_frame key addr reg"
  note unfold = record_jit_eh_frame_def Let_def forget_jit_eh_frame_eq eh_frames_inverse [OF assms]
  have eh: "jit_by_eh_frame ?r e =
       (if e = addr then Some key else if jit_by_eh_frame reg e = Some key then None else jit_by_eh_frame reg e)" for e
    by (simp add: unfold split: option.split)
  then show "jit_by_eh_frame ?r e =
       (if e = addr then Some key else if jit_by_eh_frame reg e = Some key then None else jit_by_eh_frame reg e)" .
  have key: "jit_eh_frame_by_key ?r k =
      (if k = key then Some addr else if jit_eh_frame_by_key reg k = Some addr then None
       else jit_eh_frame_by_key reg k)" for k
  proof (cases "jit_by_eh_frame reg addr")
    case None
    then have "jit_eh_frame_by_key reg k \<noteq> Some addr" for k using eh_frames_inverse [OF assms, of addr k] by simp
    with None show ?thesis by (simp add: unfold split: option.split)
  next
    case (Some k0)
    then have inj: "jit_eh_frame_by_key reg k = Some addr \<longleftrightarrow> k = k0" for k
      using eh_frames_inverse [OF assms, of addr k] by auto
    have forget: "forget_jit_eh_frame key (reg\<lparr>jit_keys := insert key (jit_keys reg)\<rparr>) =
        reg\<lparr>jit_keys := insert key (jit_keys reg), jit_eh_frame_by_key := (jit_eh_frame_by_key reg)(key := None),
          jit_by_eh_frame := (\<lambda>e. if jit_by_eh_frame reg e = Some key then None else jit_by_eh_frame reg e)\<rparr>"
      by (subst forget_jit_eh_frame_eq) (simp_all add: eh_frames_inverse [OF assms] cong: if_cong)
    show ?thesis unfolding record_jit_eh_frame_def Let_def forget
      by (cases "k0 = key") (simp_all add: Some inj)
  qed
  show keys: "jit_keys ?r = insert key (jit_keys reg)" and "static_mods ?r = static_mods reg"
    by (simp_all add: unfold split: option.split)
  have "dom (jit_eh_frame_by_key ?r) \<subseteq> jit_keys ?r"
    using assms unfolding eh_frames_ok_def dom_def key keys by (auto split: if_splits)
  moreover have "jit_by_eh_frame ?r e = Some k \<longleftrightarrow> jit_eh_frame_by_key ?r k = Some e" for e k
    unfolding eh key using eh_frames_inverse [OF assms, of e k] by (cases "e = addr"; cases "k = key") auto
  ultimately show "eh_frames_ok ?r" by (simp add: eh_frames_ok_def)
qed

lemma add_jit_module_spec:
  assumes "reg_ok lib" "g_heap (lib_global lib) boxed = None" "key \<notin> static_keys (lib_registry lib)"
    and "avma_start m = key" "add_jit_module boxed key addr m lib = Some lib'"
  shows "reg_ok lib'" "set (listed lib') = {m' \<in> set (listed lib). avma_start m' \<noteq> key} \<union> {m}"
    "lib_registry lib' = record_jit_eh_frame key addr (lib_registry lib)"
proof -
  note ok = reg_okD [OF assms(1)]
  let ?old = "if key \<in> jit_keys (lib_registry lib) then [Remove key] else []"
  from assms(5) obtain lib1 where w: "write_modules boxed (?old @ [Add m]) lib = Some lib1"
    and lib': "lib' = lib1\<lparr>lib_registry := record_jit_eh_frame key addr (lib_registry lib)\<rparr>"
    unfolding add_jit_module_def Let_def map_option_eq_Some by blast
  have fresh: "avma_start m' \<noteq> key" if "m' \<in> set (listed lib)" "key \<notin> jit_keys (lib_registry lib)" for m'
    using ok(5) that assms(3) by blast
  have "history_ok (listed lib) (?old @ [Add m])"
    using assms(4) fresh by (cases "key \<in> jit_keys (lib_registry lib)") force+
  note spec = write_modules_spec [OF ok(1) assms(2) this w]
  show l: "set (listed lib') = {m' \<in> set (listed lib). avma_start m' \<noteq> key} \<union> {m}"
    unfolding lib' listed_registry spec(2) using fresh by (auto simp: set_insort_key)
  show r: "lib_registry lib' = record_jit_eh_frame key addr (lib_registry lib)" by (simp add: lib')
  have "jit_keys (lib_registry lib) \<subseteq> insert key (avma_start ` set (listed lib'))"
    using ok(4) unfolding l by blast
  then have "insert key (jit_keys (lib_registry lib)) \<subseteq> avma_start ` set (listed lib')"
    unfolding l using assms(4) by blast
  moreover have "avma_start ` set (listed lib') \<subseteq> insert key (jit_keys (lib_registry lib)) \<union> static_keys (lib_registry lib)"
    using ok(5) assms(4) unfolding l by blast
  moreover have "lib_ok lib'" using spec(1) by (simp add: lib')
  ultimately show "reg_ok lib'"
    using ok(2,3,6) assms(3) unfolding reg_ok_def r record_ok(2) [OF ok(2)]
    by (auto simp: record_ok(1,3) [OF ok(2)] static_keys_def)
qed

lemma remove_jit_locked_spec:
  assumes "reg_ok lib" "g_heap (lib_global lib) boxed = None"
    and "remove_jit_locked boxed key lib = Some lib'"
  shows "reg_ok lib'" "set (listed lib') =
      {m \<in> set (listed lib). avma_start m \<noteq> key \<or> key \<notin> jit_keys (lib_registry lib)}"
    "jit_keys (lib_registry lib') = jit_keys (lib_registry lib) - {key}"
proof -
  note ok = reg_okD [OF assms(1)]
  let ?reg = "forget_jit_eh_frame key ((lib_registry lib)\<lparr>jit_keys := jit_keys (lib_registry lib) - {key}\<rparr>)"
  have "reg_ok lib' \<and> set (listed lib') =
      {m \<in> set (listed lib). avma_start m \<noteq> key \<or> key \<notin> jit_keys (lib_registry lib)} \<and>
    jit_keys (lib_registry lib') = jit_keys (lib_registry lib) - {key}"
  proof (cases "key \<in> jit_keys (lib_registry lib)")
    case False
    with assms show ?thesis by (auto simp: remove_jit_locked_def)
  next
    case True
    with assms(3) obtain lib1 where w: "write_modules boxed (map Remove [key]) lib = Some lib1"
      and lib': "lib' = lib1\<lparr>lib_registry := ?reg\<rparr>"
      by (auto simp: remove_jit_locked_def Let_def)
    note spec = write_modules_spec [OF ok(1) assms(2) history_ok_Remove w]
    have l: "set (listed lib') = {m \<in> set (listed lib). avma_start m \<noteq> key}"
      unfolding lib' listed_registry spec(2) by auto
    have "jit_keys (lib_registry lib) - {key} \<subseteq> avma_start ` set (listed lib')"
      "avma_start ` set (listed lib') \<subseteq> (jit_keys (lib_registry lib) - {key}) \<union> static_keys (lib_registry lib)"
      using ok(4,5) unfolding l by blast+
    with ok spec(1) have "reg_ok lib'"
      by (auto simp: reg_ok_def lib' forget_ok [OF ok(2)] static_keys_def)
    with l True show ?thesis by (simp add: lib' forget_ok [OF ok(2)])
  qed
  then show "reg_ok lib'" "set (listed lib') =
      {m \<in> set (listed lib). avma_start m \<noteq> key \<or> key \<notin> jit_keys (lib_registry lib)}"
    "jit_keys (lib_registry lib') = jit_keys (lib_registry lib) - {key}" by blast+
qed

section \<open>The index of a registered .eh_frame\<close>

lemma fde_range_loop_Some:
  "fde_range_loop len es lo hi found = Some (l, h) \<Longrightarrow>
     l \<le> lo \<and> hi \<le> h \<and> l < h \<and>
     (\<forall>(start, offset) \<in> set (section_fdes es). l \<le> start \<and> start + len offset \<le> h) \<and>
     (\<forall>e. EntryError e \<notin> set es \<and> FdeEntry (Inl e) \<notin> set es)"
proof (induction len es lo hi found rule: fde_range_loop.induct)
  case (5 len start offset es lo hi found)
  let ?lo = "if start < lo then start else lo" and ?stop = "start + len offset"
  let ?hi = "if ?stop > hi then ?stop else hi"
  have "fde_range_loop len es ?lo ?hi True = Some (l, h)" using "5.prems" by (simp add: Let_def)
  with "5.IH" have ih: "l \<le> ?lo" "?hi \<le> h" "l < h"
    "\<forall>(start, offset) \<in> set (section_fdes es). l \<le> start \<and> start + len offset \<le> h"
    "\<forall>e. EntryError e \<notin> set es \<and> FdeEntry (Inl e) \<notin> set es" by auto
  have "l \<le> start" "l \<le> lo" "?stop \<le> h" "hi \<le> h" using ih(1,2) by (auto split: if_splits)
  with ih show ?case by auto
qed (auto split: if_splits)

lemma collect_fdes_total:
  assumes "\<forall>e. EntryError e \<notin> set es \<and> FdeEntry (Inl e) \<notin> set es"
    and "\<forall>(start, offset) \<in> set (section_fdes es). base \<le> start \<and> start - base \<le> 0xffffffff \<and> offset \<le> 0xffffffff"
  shows "\<exists>fdes. collect_fdes base es = Inr fdes"
  using assms
proof (induction base es rule: collect_fdes.induct)
  case (5 base start offset es)
  have small: "try_unsigned (uint w) \<noteq> (None :: u32 option)" if "w \<le> 0xffffffff" for w :: u64
    using that by (simp add: try_unsigned_def word_le_def)
  from 5 obtain fdes where "collect_fdes base es = Inr fdes" by auto
  with 5(3) small [of "start - base"] small [of offset] show ?case
    by (auto simp: checked_sub_def ok_or_def bind_res_def)
qed auto

lemma jit_module_data:
  "unwind_data (jit_module gi addr eh_frame lo hi) =
     (case try_new lo (jg_section_entries gi EhFrame eh_frame
             \<lparr>ba_eh_frame = addr, ba_eh_frame_hdr = 0, ba_text = 0, ba_got = 0\<rparr>) of
        Inr index \<Rightarrow> DwarfCfiIndexAndEhFrame index eh_frame
          \<lparr>ba_eh_frame = addr, ba_eh_frame_hdr = 0, ba_text = 0, ba_got = 0\<rparr>
      | Inl _ \<Rightarrow> NoUnwindData)"
  by (simp add: jit_module_def module_new_def unwind_data_new_def explicit_section_info_def
      jit_section_info_def base_addresses_for_sections_def start_addr_def first_section_def Let_def)

section \<open>Properties\<close>

text \<open>
  C33: JIT registration and deregistration by the eh_frame pointer match up. Adding a module under
  a key that is not a static module's replaces what was registered under that key and nothing
  else; deregistering by the eh_frame address it was registered with removes exactly that
  module; and both keep the registry's invariant.
\<close>

theorem jit_register_deregister:
  assumes "reg_ok lib" "g_heap (lib_global lib) boxed = None" "key \<notin> static_keys (lib_registry lib)"
    and "avma_start m = key" "add_jit_module boxed key addr m lib = Some lib1"
    and "g_heap (lib_global lib1) boxed' = None" "deregister_jit_eh_frame boxed' addr lib1 = Some lib2"
  shows "reg_ok lib1 \<and> set (listed lib1) = {m' \<in> set (listed lib). avma_start m' \<noteq> key} \<union> {m} \<and>
    key \<in> jit_keys (lib_registry lib1) \<and>
    reg_ok lib2 \<and> set (listed lib2) = {m' \<in> set (listed lib). avma_start m' \<noteq> key} \<and>
    jit_keys (lib_registry lib2) = jit_keys (lib_registry lib) - {key}"
proof -
  note add = add_jit_module_spec [OF assms(1-5)]
  note ok = reg_okD(2) [OF assms(1)]
  have "jit_by_eh_frame (lib_registry lib1) addr = Some key" by (simp add: add(3) record_ok(4) [OF ok])
  then have "remove_jit_locked boxed' key lib1 = Some lib2"
    using assms(7) by (simp add: deregister_jit_eh_frame_def remove_jit_module_by_eh_frame_def)
  note rem = remove_jit_locked_spec [OF add(1) assms(6) this]
  have "key \<in> jit_keys (lib_registry lib1)" by (simp add: add(3) record_ok(2) [OF ok])
  with add(1,2) rem assms(4) show ?thesis by (auto simp: add(3) record_ok(2) [OF ok])
qed

text \<open>
  A stale eh_frame pointer is harmless. After a key is registered again with another eh_frame
  address, deregistering by the old address changes nothing.
\<close>

theorem stale_eh_frame_ignored:
  assumes "reg_ok lib" "g_heap (lib_global lib) boxed = None" "key \<notin> static_keys (lib_registry lib)"
    and "avma_start m = key" "add_jit_module boxed key addr m lib = Some lib1"
    and "add_jit_module boxed' key addr' m' lib1 = Some lib2" "addr' \<noteq> addr"
  shows "deregister_jit_eh_frame boxed'' addr lib2 = Some lib2"
proof -
  note add = add_jit_module_spec [OF assms(1-5)]
  have "lib_registry lib2 = record_jit_eh_frame key addr' (lib_registry lib1)"
    using assms(6) by (auto simp: add_jit_module_def Let_def)
  then have "jit_by_eh_frame (lib_registry lib2) addr = None"
    using assms(7) reg_okD(2) [OF assms(1)] reg_okD(2) [OF add(1)]
    by (simp add: record_ok(4) add(3))
  then show ?thesis by (simp add: deregister_jit_eh_frame_def remove_jit_module_by_eh_frame_def)
qed

text \<open>
  A registration that fails leaves the library as it was. A negative code counts one
  failure and changes nothing else: the published modules, the registry and the snapshots stay.
  The codes say which check failed.
\<close>

theorem register_jit_errors:
  assumes "register_jit_eh_frame gi boxed addr eh_frame lo hi lib = Some (rc, lib')"
  shows "rc \<in> {0, - 1, - 2, - 3} \<and>
    (rc \<noteq> 0 \<longrightarrow> lib' = lib\<lparr>lib_jit_failures := lib_jit_failures lib + 1\<rparr> \<and> listed lib' = listed lib) \<and>
    (rc = - 1 \<longleftrightarrow> addr = 0 \<or> eh_frame = [] \<or> hi \<le> lo) \<and>
    (rc = - 2 \<longrightarrow> hi - lo > 0xffffffff) \<and>
    (rc = 0 \<longrightarrow> lo < hi \<and> hi - lo \<le> 0xffffffff \<and> jit_register_failures lib' = jit_register_failures lib)"
proof -
  have fails: "lib_jit_failures lib1 = lib_jit_failures lib"
    if "write_modules boxed changes lib = Some lib1" for changes lib1
    using that by (auto simp: write_modules_def split: option.splits prod.splits)
  have "current_chunks (lib\<lparr>lib_jit_failures := n\<rparr>) = current_chunks lib" for n
    by (simp add: current_chunks_def split: option.split)
  with assms fails show ?thesis
    by (auto simp: register_jit_eh_frame_def note_fail_def listed_def add_jit_module_def Let_def
        jit_register_failures_def split: if_splits)
qed


text \<open>
  A registration can succeed and publish a module without unwind data. When the caller's
  \<open>text_lo\<close> lies above the start of an FDE, the section passes the validation and the code is
  zero, but the index cannot be built, so the published module covers the range and every
  lookup in it fails.
\<close>

theorem jit_register_without_index:
  assumes "reg_ok lib" "g_heap (lib_global lib) boxed = None" "lo \<notin> static_keys (lib_registry lib)"
    and "(start, offset) \<in> set (section_fdes (jg_entries gi eh_frame addr))" "start < lo"
    and "\<And>bases. ba_eh_frame bases = addr \<Longrightarrow> jg_section_entries gi EhFrame eh_frame bases = jg_entries gi eh_frame addr"
    and "register_jit_eh_frame gi boxed addr eh_frame lo hi lib = Some (0, lib')"
  shows "\<exists>m \<in> set (listed lib'). avma_start m = lo \<and> avma_end m = hi \<and> unwind_data m = NoUnwindData"
proof -
  let ?m = "jit_module gi addr eh_frame lo hi"
  have add: "add_jit_module boxed lo addr ?m lib = Some lib'"
    using assms(7) by (auto simp: register_jit_eh_frame_def note_fail_def split: if_splits)
  have "collect_fdes lo (jg_entries gi eh_frame addr) \<noteq> Inr fdes" for fdes
    using collect_fdes_Inr [of lo "jg_entries gi eh_frame addr" fdes] assms(4,5) by force
  then obtain e where "try_new lo (jg_entries gi eh_frame addr) = Inl e"
    by (cases "collect_fdes lo (jg_entries gi eh_frame addr)") (auto simp: try_new_def bind_res_def)
  then have "unwind_data ?m = NoUnwindData" by (simp add: jit_module_data assms(6))
  moreover have start: "avma_start ?m = lo" "avma_end ?m = hi" by (simp_all add: jit_module_def module_new_def)
  moreover have "?m \<in> set (listed lib')"
    using add_jit_module_spec(2) [OF assms(1-3) start(1) add] by simp
  ultimately show ?thesis by blast
qed

section \<open>Witnesses\<close>

lemma write_modules_total:
  assumes "unat (lib_generation lib) + length changes + 1 < 2 ^ 64"
  shows "write_modules boxed changes lib \<noteq> None"
proof -
  obtain nu counter where nu: "writer_start lib = Some (nu, counter)" "unat counter \<le> unat (lib_generation lib) + 1"
  proof (cases "g_current (lib_global lib)")
    case None
    with next_modules_generation_total [of "lib_generation lib"] assms that show ?thesis
      by (auto simp: writer_start_def unwinder_new_def)
  next
    case (Some p)
    with that show ?thesis by (simp add: writer_start_def)
  qed
  have "apply_changes changes u counter \<noteq> None" for u
    using apply_changes_total [of counter changes u] nu(2) assms by simp
  then show ?thesis
    by (auto simp: write_modules_def nu(1) with_writer_def Let_def split: option.splits prod.splits)
qed

lemma write_modules_heap:
  "write_modules boxed changes lib = Some lib' \<Longrightarrow> p \<noteq> boxed \<Longrightarrow> g_heap (lib_global lib) p = None \<Longrightarrow>
     g_heap (lib_global lib') p = None"
  by (auto simp: write_modules_def with_writer_def reclaim_def Let_def split: option.splits prod.splits)

definition empty_library :: "(unit, unit, 'd) Library" where
  "empty_library = \<lparr>lib_registry = registry_new, lib_global = global_start, lib_generation = 0, lib_jit_failures = 0\<rparr>"

lemma empty_library_ok: "reg_ok empty_library"
  by (simp add: reg_ok_def lib_ok_def empty_library_def global_start_def global_wf_def listed_def
      current_chunks_def chunked.inv_empty eh_frames_ok_def registry_new_def static_keys_def)

lemma empty_library_simps [simp]:
  "g_heap (lib_global empty_library) p = None" "static_keys (lib_registry empty_library) = {}"
  "listed empty_library = []" "lib_generation empty_library = 0" "jit_keys (lib_registry empty_library) = {}"
  by (simp_all add: empty_library_def global_start_def registry_new_def static_keys_def listed_def current_chunks_def)

lemma add_jit_module_total:
  "unat (lib_generation lib) + 3 < 2 ^ 64 \<Longrightarrow> \<exists>lib'. add_jit_module boxed key addr m lib = Some lib'"
  using write_modules_total [of lib "(if key \<in> jit_keys (lib_registry lib) then [Remove key] else []) @ [Add m]" boxed]
  by (auto simp: add_jit_module_def Let_def)

lemma apply_changes_counter:
  "apply_changes changes u counter = Some (u', counter') \<Longrightarrow> unat counter' \<le> unat counter + length changes"
proof (induction changes u counter rule: apply_changes.induct)
  case (2 m changes u counter)
  then show ?case
    by (fastforce simp: add_module_def bind_eq_Some_conv next_modules_generation_def dest: checked_add_unat)
next
  case (3 start changes u counter)
  then show ?case
    by (fastforce simp: remove_module_def bind_eq_Some_conv next_modules_generation_def dest: checked_add_unat
        split: option.splits)
qed simp

lemma write_modules_generation:
  "write_modules boxed changes lib = Some lib' \<Longrightarrow>
     unat (lib_generation lib') \<le> unat (lib_generation lib) + length changes + 1"
  by (fastforce simp: write_modules_def writer_start_def unwinder_new_def next_modules_generation_def
      with_writer_def Let_def dest: apply_changes_counter checked_add_unat split: option.splits prod.splits if_splits)

lemma deregister_jit_eh_frame_total:
  "unat (lib_generation lib) + 2 < 2 ^ 64 \<Longrightarrow> \<exists>lib'. deregister_jit_eh_frame boxed addr lib = Some lib'"
  using write_modules_total [of lib "[Remove key]" boxed for key]
  by (force simp: deregister_jit_eh_frame_def remove_jit_module_by_eh_frame_def remove_jit_locked_def Let_def
      split: option.splits)

lemma jit_added:
  obtains lib1 where "add_jit_module 1 key addr m (empty_library :: (unit, unit, 'd) Library) = Some lib1"
    "g_heap (lib_global lib1) 2 = None" "unat (lib_generation lib1) \<le> 2"
proof -
  have "unat (lib_generation (empty_library :: (unit, unit, 'd) Library)) + 3 < 2 ^ 64" by simp
  from add_jit_module_total [OF this, of 1 key addr m]
  obtain lib1 where a: "add_jit_module 1 key addr m empty_library = Some lib1" by blast
  then obtain lib0 where w: "write_modules 1 [Add m] empty_library = Some lib0"
    and l: "lib_global lib1 = lib_global lib0" "lib_generation lib1 = lib_generation lib0"
    by (auto simp: add_jit_module_def)
  from write_modules_heap [OF w, of 2] write_modules_generation [OF w] l a that show ?thesis by simp
qed

theorem jit_register_deregister_witness:
  "\<exists>lib1 lib2. add_jit_module 1 0x1000 0x5000 (unit_module 0x1000) empty_library = Some lib1 \<and>
     set (listed lib1) = {unit_module 0x1000} \<and>
     deregister_jit_eh_frame 2 0x5000 lib1 = Some lib2 \<and> listed lib2 = []"
proof -
  obtain lib1 where a: "add_jit_module 1 0x1000 0x5000 (unit_module 0x1000) (empty_library :: (unit, unit, unit) Library) = Some lib1"
    and h: "g_heap (lib_global lib1) 2 = None" "unat (lib_generation lib1) \<le> 2" by (rule jit_added)
  obtain lib2 where d: "deregister_jit_eh_frame 2 0x5000 lib1 = Some lib2"
    using deregister_jit_eh_frame_total [of lib1 2 "0x5000"] h(2) by auto
  have s: "avma_start (unit_module 0x1000) = 0x1000" by (simp add: unit_module_def)
  from jit_register_deregister [OF empty_library_ok _ _ s a h(1) d] a d show ?thesis by auto
qed

theorem stale_eh_frame_ignored_witness:
  "\<exists>lib1 lib2. add_jit_module 1 0x1000 0x5000 (unit_module 0x1000) empty_library = Some lib1 \<and>
     add_jit_module 2 0x1000 0x6000 (unit_module 0x1000) lib1 = Some lib2 \<and>
     deregister_jit_eh_frame 3 0x5000 lib2 = Some lib2"
proof -
  obtain lib1 where a: "add_jit_module 1 0x1000 0x5000 (unit_module 0x1000) (empty_library :: (unit, unit, unit) Library) = Some lib1"
    and h: "g_heap (lib_global lib1) 2 = None" "unat (lib_generation lib1) \<le> 2" by (rule jit_added)
  obtain lib2 where b: "add_jit_module 2 0x1000 0x6000 (unit_module 0x1000) lib1 = Some lib2"
    using add_jit_module_total [of lib1] h(2) by force
  have s: "avma_start (unit_module 0x1000) = 0x1000" by (simp add: unit_module_def)
  from stale_eh_frame_ignored [OF empty_library_ok _ _ s a b] a b show ?thesis by auto
qed

definition one_fde :: "unit JitGimli" where
  "one_fde = \<lparr>jg_entries = (\<lambda>_ _. [CieEntry, FdeEntry (Inr (0x1000, 0x18))]), jg_fde_len = (\<lambda>_ _ _. 0x40),
     jg_section_entries = (\<lambda>_ _ _. [CieEntry, FdeEntry (Inr (0x1000, 0x18))])\<rparr>"

lemma one_fde_range: "fde_pc_range (jg_fde_len one_fde bs a) (jg_entries one_fde bs a) = Some (0x1000, 0x1040)"
  by (simp add: one_fde_def fde_pc_range_def)

theorem register_jit_errors_witness:
  "register_jit_eh_frame one_fde 1 0x5000 [0] 0x1000 0x1000 empty_library =
     Some (- 1, empty_library\<lparr>lib_jit_failures := 1\<rparr>)"
proof -
  have r: "register_jit_eh_frame one_fde 1 0x5000 [0] 0x1000 0x1000 empty_library =
      Some (note_fail (- 1) empty_library)" by (simp add: register_jit_eh_frame_def)
  from register_jit_errors [of one_fde 1 "0x5000" "[0]" "0x1000" "0x1000" empty_library "- 1" "snd (note_fail (- 1) empty_library)"] r
  show ?thesis by (simp add: note_fail_def empty_library_def)
qed

lemma one_fde_registered:
  assumes "lo < 0x1040"
  obtains lib' where "register_jit_eh_frame one_fde 1 0x5000 [0] lo 0x1040
      (empty_library :: (unit, unit, ModuleUnwindDataInternal) Library) = Some (0, lib')"
proof -
  have "unat (lib_generation (empty_library :: (unit, unit, ModuleUnwindDataInternal) Library)) + 3 < 2 ^ 64" by simp
  from add_jit_module_total [OF this, of 1 lo "0x5000" "jit_module one_fde 0x5000 [0] lo 0x1040"]
  obtain lib' where a: "add_jit_module 1 lo 0x5000 (jit_module one_fde 0x5000 [0] lo 0x1040)
      (empty_library :: (unit, unit, ModuleUnwindDataInternal) Library) = Some lib'" by blast
  note lo = assms
  then have "unat (0x1040 - lo) \<le> 0x1040" by (subst unat_sub_no_underflow) simp_all
  then have "\<not> 0x1040 - lo > (0xffffffff :: u64)" by (simp add: word_less_nat_alt)
  moreover have "\<not> 0x1040 \<le> lo" using lo by (simp add: not_le)
  ultimately have "register_jit_eh_frame one_fde 1 0x5000 [0] lo 0x1040 empty_library = Some (0, lib')"
    using a by (simp add: register_jit_eh_frame_def one_fde_range)
  then show ?thesis by (rule that)
qed


theorem jit_register_without_index_witness:
  "\<exists>lib'. register_jit_eh_frame one_fde 1 0x5000 [0] 0x1010 0x1040 empty_library = Some (0, lib') \<and>
     (\<exists>m \<in> set (listed lib'). avma_start m = 0x1010 \<and> unwind_data m = NoUnwindData)"
proof -
  obtain lib' where r: "register_jit_eh_frame one_fde 1 0x5000 [0] 0x1010 0x1040
      (empty_library :: (unit, unit, ModuleUnwindDataInternal) Library) = Some (0, lib')"
    by (rule one_fde_registered [of "0x1010"]) (simp, blast)
  have "\<exists>m \<in> set (listed lib'). avma_start m = 0x1010 \<and> avma_end m = 0x1040 \<and> unwind_data m = NoUnwindData"
    by (rule jit_register_without_index [OF empty_library_ok _ _ _ _ _ r, of "0x1000" "0x18"])
      (simp_all add: one_fde_def)
  with r show ?thesis by blast
qed

end
