(* ===== verification/Elf_Modules.thy ===== *)
theory Elf_Modules
  imports Registry Platform
begin

text \<open>
  The scan of the loaded ELF objects (\<^verbatim>\<open>src/modules/elf.rs\<close>): the geometry of an object from its
  program headers, its fingerprint, decoding where \<open>.eh_frame\<close> starts, and the framehop module
  built from the two sections in place. What \<open>dl_iterate_phdr\<close> reports is an argument, and so is
  the memory of the process.
\<close>

section \<open>Data\<close>

text \<open>The fields of \<open>dl_phdr_info\<close>; \<open>None\<close> is a null pointer. Names are without their terminator.\<close>

record DlPhdrInfo =
  dlpi_addr :: u64
  dlpi_name :: "u8 list option"
  dlpi_phdr :: "Phdr list option"

record RawSpec =
  rs_key :: u64
  rs_name :: string
  rs_base_avma :: u64
  rs_avma :: "u64 \<times> u64"
  rs_eh_frame_hdr :: bytes
  rs_eh_frame_hdr_svma :: svma_range
  rs_eh_frame :: bytes
  rs_eh_frame_svma :: svma_range
  rs_text_svma :: "svma_range option"

record Collector =
  col_current :: "(u64 \<times> u64) list"
  col_specs :: "RawSpec list"

text \<open>Memory, and \<open>slice::from_raw_parts\<close>.\<close>

type_synonym memory = "u64 \<Rightarrow> u8"

definition bytes_at :: "memory \<Rightarrow> u64 \<Rightarrow> nat \<Rightarrow> bytes" where
  "bytes_at mem addr n = map (\<lambda>i. mem (addr + of_nat i)) [0..<n]"

text \<open>A byte-string literal.\<close>

definition bytes_of :: "string \<Rightarrow> bytes" where
  "bytes_of s = map of_char s"

text \<open>\<open>{base:#x}\<close>.\<close>

fun hex_digits :: "nat \<Rightarrow> string" where
  "hex_digits n = (if n < 16 then [''0123456789abcdef'' ! n]
                   else hex_digits (n div 16) @ [''0123456789abcdef'' ! (n mod 16)])"

declare hex_digits.simps [simp del]

definition PT_GNU_EH_FRAME :: u32 where "PT_GNU_EH_FRAME = 0x6474e550"

section \<open>Decoding the start of .eh_frame\<close>

text \<open>\<open>iN::from_le_bytes(..) as i64 as u64\<close> sign-extends.\<close>

definition udata :: "'a::len itself \<Rightarrow> nat \<Rightarrow> bytes \<Rightarrow> (u64 \<times> nat) option" where
  "udata ty n b = map_option (\<lambda>v. (ucast (from_le_bytes v :: 'a word), n)) (slice_get b 0 n)"

definition sdata :: "'a::len itself \<Rightarrow> nat \<Rightarrow> bytes \<Rightarrow> (u64 \<times> nat) option" where
  "sdata ty n b = map_option (\<lambda>v. (scast (from_le_bytes v :: 'a word), n)) (slice_get b 0 n)"

definition decode_value :: "bytes \<Rightarrow> u8 \<Rightarrow> (u64 \<times> nat) option" where
  "decode_value b fmt =
     (if fmt = 0x02 then udata TYPE(16) 2 b
      else if fmt = 0x0a then sdata TYPE(16) 2 b
      else if fmt = 0x03 then udata TYPE(32) 4 b
      else if fmt = 0x0b then sdata TYPE(32) 4 b
      else if fmt = 0x04 then udata TYPE(64) 8 b
      else if fmt = 0x0c then sdata TYPE(64) 8 b
      else if fmt = 0x00 then udata TYPE(64) 8 b
      else None)"

definition decode_eh_frame_start :: "u64 \<Rightarrow> bytes \<Rightarrow> u64 option" where
  "decode_eh_frame_start hdr b =
     (if length b < 4 \<or> b ! 0 \<noteq> 1 then None
      else let enc = b ! 1; app = enc AND 0x70; fmt = enc AND 0x0f; field_avma = hdr + 4 in
        case decode_value (drop 4 b) fmt of
          None \<Rightarrow> None
        | Some (value, _) \<Rightarrow>
            if app = 0x00 then Some (0 + value)
            else if app = 0x10 then Some (field_avma + value)
            else None)"

fun containing_segment_end :: "Phdr list \<Rightarrow> u64 \<Rightarrow> u64 \<Rightarrow> u64 option" where
  "containing_segment_end [] bias addr = None"
| "containing_segment_end (ph # phdrs) bias addr =
     (if p_type ph \<noteq> PT_LOAD then containing_segment_end phdrs bias addr
      else let lo = bias + p_vaddr ph; hi = lo + p_memsz ph in
        if addr \<ge> lo \<and> addr < hi then Some hi else containing_segment_end phdrs bias addr)"

section \<open>One object\<close>

record Geometry =
  geo_lo :: u64
  geo_hi :: u64
  geo_text :: "svma_range option"
  geo_hdr :: "Phdr option"

definition geometry_start :: Geometry where
  "geometry_start = \<lparr>geo_lo = - 1, geo_hi = 0, geo_text = None, geo_hdr = None\<rparr>"

definition geometry_step :: "u64 \<Rightarrow> Phdr \<Rightarrow> Geometry \<Rightarrow> Geometry" where
  "geometry_step bias ph geo =
     (if p_type ph = PT_LOAD then
        let lo = bias + p_vaddr ph; hi = lo + p_memsz ph in
        geo\<lparr>geo_lo := (if lo < geo_lo geo then lo else geo_lo geo),
            geo_hi := (if hi > geo_hi geo then hi else geo_hi geo),
            geo_text := (if p_flags ph AND PF_X \<noteq> 0 \<and> geo_text geo = None
                         then Some (p_vaddr ph, p_vaddr ph + p_memsz ph) else geo_text geo)\<rparr>
      else if p_type ph = PT_GNU_EH_FRAME then geo\<lparr>geo_hdr := Some ph\<rparr>
      else geo)"

definition geometry :: "u64 \<Rightarrow> Phdr list \<Rightarrow> Geometry" where
  "geometry bias phdrs = fold (geometry_step bias) phdrs geometry_start"

text \<open>
  The platform's arguments of the scan: the hasher of \<open>fingerprint_of\<close>, the lossy conversion of a
  name, and the memory.
\<close>

record ElfEnv =
  ee_hash :: hasher
  ee_lossy :: "u8 list \<Rightarrow> string"
  ee_mem :: memory

definition elf_fingerprint :: "ElfEnv \<Rightarrow> DlPhdrInfo \<Rightarrow> Geometry \<Rightarrow> u64" where
  "elf_fingerprint env info geo =
     (let name_bytes = (case dlpi_name info of None \<Rightarrow> [] | Some n \<Rightarrow> n);
          (hdr_vaddr, hdr_memsz) = (case geo_hdr geo of Some p \<Rightarrow> (p_vaddr p, p_memsz p) | None \<Rightarrow> (0, 0))
      in fingerprint_of (ee_hash env) [hdr_vaddr, hdr_memsz, geo_hi geo - geo_lo geo] name_bytes)"

definition object_name :: "ElfEnv \<Rightarrow> DlPhdrInfo \<Rightarrow> string" where
  "object_name env info =
     (case dlpi_name info of
        None \<Rightarrow> ''<main>''
      | Some n \<Rightarrow> if n = [] then ''<main>'' else ee_lossy env n)"

text \<open>The second half of the callback: the sections of an object that is to be published.\<close>

definition raw_spec :: "ElfEnv \<Rightarrow> DlPhdrInfo \<Rightarrow> Phdr list \<Rightarrow> Geometry \<Rightarrow> RawSpec option" where
  "raw_spec env info phdrs geo =
     (let bias = dlpi_addr info in
      case geo_hdr geo of
        None \<Rightarrow> None
      | Some hdr_phdr \<Rightarrow>
          (let hdr_avma = bias + p_vaddr hdr_phdr;
               hdr_len = unat (p_memsz hdr_phdr);
               eh_frame_hdr = bytes_at (ee_mem env) hdr_avma hdr_len in
           if hdr_len < 4 then None
           else case decode_eh_frame_start hdr_avma eh_frame_hdr of
             None \<Rightarrow> None
           | Some eh_frame_avma \<Rightarrow>
               (case containing_segment_end phdrs bias eh_frame_avma of
                  None \<Rightarrow> None
                | Some eh_frame_end \<Rightarrow>
                    if \<not> eh_frame_end > eh_frame_avma then None
                    else let eh_frame_len = unat (eh_frame_end - eh_frame_avma) in
                      Some \<lparr>rs_key = geo_lo geo, rs_name = object_name env info, rs_base_avma = bias,
                            rs_avma = (geo_lo geo, geo_hi geo),
                            rs_eh_frame_hdr = eh_frame_hdr,
                            rs_eh_frame_hdr_svma = (hdr_avma - bias, hdr_avma - bias + of_nat hdr_len),
                            rs_eh_frame = bytes_at (ee_mem env) eh_frame_avma eh_frame_len,
                            rs_eh_frame_svma = (eh_frame_avma - bias, eh_frame_avma - bias + of_nat eh_frame_len),
                            rs_text_svma = geo_text geo\<rparr>)))"

definition elf_callback :: "ElfEnv \<Rightarrow> (u64 \<times> u64) list \<Rightarrow> DlPhdrInfo \<Rightarrow> Collector \<Rightarrow> Collector" where
  "elf_callback env known info col =
     (case dlpi_phdr info of
        None \<Rightarrow> col
      | Some phdrs \<Rightarrow>
          if phdrs = [] then col
          else let geo = geometry (dlpi_addr info) phdrs in
            if geo_lo geo = - 1 \<or> geo_hi geo \<le> geo_lo geo then col
            else let fp = elf_fingerprint env info geo;
                     col' = col\<lparr>col_current := entries_insert (geo_lo geo) fp (col_current col)\<rparr> in
              if map_of known (geo_lo geo) = Some fp then col'
              else case raw_spec env info phdrs geo of
                None \<Rightarrow> col'
              | Some s \<Rightarrow> col'\<lparr>col_specs := col_specs col' @ [s]\<rparr>)"

section \<open>The scan\<close>

definition elf_section_info :: "RawSpec \<Rightarrow> ExplicitModuleSectionInfo" where
  "elf_section_info s =
     \<lparr>x_base_svma = 0, x_text_svma = rs_text_svma s, x_text = None, x_stubs_svma = None,
      x_stub_helper_svma = None, x_got_svma = None, x_unwind_info = None,
      x_eh_frame_svma = Some (rs_eh_frame_svma s), x_eh_frame = Some (rs_eh_frame s),
      x_eh_frame_hdr_svma = Some (rs_eh_frame_hdr_svma s), x_eh_frame_hdr = Some (rs_eh_frame_hdr s),
      x_debug_frame = None, x_text_segment_svma = None, x_text_segment = None\<rparr>"

definition build_module :: "(UnwindSectionType \<Rightarrow> bytes \<Rightarrow> BaseAddresses \<Rightarrow> 'g Entry list) \<Rightarrow> RawSpec \<Rightarrow>
    ModuleUnwindDataInternal Module" where
  "build_module section_entries s =
     module_new section_entries (rs_name s) (rs_avma s) (rs_base_avma s)
       (explicit_section_info (elf_section_info s))"

definition elf_enumerate :: "(UnwindSectionType \<Rightarrow> bytes \<Rightarrow> BaseAddresses \<Rightarrow> 'g Entry list) \<Rightarrow> ElfEnv \<Rightarrow>
    DlPhdrInfo list \<Rightarrow> (u64 \<times> u64) list \<Rightarrow> ModuleUnwindDataInternal EnumResult" where
  "elf_enumerate section_entries env objects known =
     (let col = fold (elf_callback env known) objects \<lparr>col_current = [], col_specs = []\<rparr>
      in \<lparr>enum_current = col_current col,
          new_modules = map (\<lambda>s. (rs_key s, build_module section_entries s)) (col_specs col)\<rparr>)"

text \<open>
  \<open>load_counts\<close>: the first callback stops the iteration; a C library whose structure is too short
  to hold the counts, or that reports no object, gives nothing.
\<close>

definition elf_load_counts :: "nat \<Rightarrow> (nat \<times> u64 \<times> u64) list \<Rightarrow> (u64 \<times> u64) option" where
  "elf_load_counts end_of_counts reports =
     (case reports of
        [] \<Rightarrow> None
      | (struct_size, adds, subs) # _ \<Rightarrow> if struct_size \<ge> end_of_counts then Some (adds, subs) else None)"

section \<open>The scan is what refresh relies on\<close>

text \<open>The key an object is recorded under, if it is recorded.\<close>

definition object_keys :: "DlPhdrInfo \<Rightarrow> u64 list" where
  "object_keys info =
     (case dlpi_phdr info of
        None \<Rightarrow> []
      | Some phdrs \<Rightarrow>
          (let geo = geometry (dlpi_addr info) phdrs in
           if phdrs = [] \<or> geo_lo geo = - 1 \<or> geo_hi geo \<le> geo_lo geo then [] else [geo_lo geo]))"

definition distinct_objects :: "DlPhdrInfo list \<Rightarrow> bool" where
  "distinct_objects objects \<longleftrightarrow> distinct (concat (map object_keys objects))"

definition collector_ok :: "(u64 \<times> u64) list \<Rightarrow> Collector \<Rightarrow> bool" where
  "collector_ok known col \<longleftrightarrow>
     distinct (map fst (col_current col)) \<and> distinct (map rs_key (col_specs col)) \<and>
     (\<forall>s \<in> set (col_specs col). fst (rs_avma s) = rs_key s \<and> map_of (col_current col) (rs_key s) \<noteq> None \<and>
        map_of known (rs_key s) \<noteq> map_of (col_current col) (rs_key s))"

lemma entries_insert_simps [simp]:
  "fst ` set (entries_insert k v es) = insert k (fst ` set es)"
  "distinct (map fst es) \<Longrightarrow> distinct (map fst (entries_insert k v es))"
  "map_of (entries_insert k v es) k' = (if k' = k then Some v else map_of es k')"
proof -
  show "fst ` set (entries_insert k v es) = insert k (fst ` set es)"
    by (auto simp: entries_insert_def image_iff)
  show "distinct (map fst es) \<Longrightarrow> distinct (map fst (entries_insert k v es))"
    by (auto simp: entries_insert_def distinct_map_filter)
  have "map_of (filter (\<lambda>(k', _). k' \<noteq> k) es) k' = map_of es k'" if "k' \<noteq> k"
    using that by (induction es) auto
  then show "map_of (entries_insert k v es) k' = (if k' = k then Some v else map_of es k')"
    by (auto simp: entries_insert_def)
qed

lemma raw_spec_key: "raw_spec env info phdrs geo = Some s \<Longrightarrow> rs_key s = geo_lo geo \<and> fst (rs_avma s) = geo_lo geo"
  by (auto simp: raw_spec_def Let_def split: option.splits if_splits)

lemma elf_callback_cases:
  obtains
    (skipped) "object_keys info = []" "elf_callback env known info col = col"
  | (recorded) phdrs geo fp where "geo = geometry (dlpi_addr info) phdrs" "object_keys info = [geo_lo geo]"
      "elf_callback env known info col =
        (let col' = col\<lparr>col_current := entries_insert (geo_lo geo) fp (col_current col)\<rparr> in
         if map_of known (geo_lo geo) = Some fp then col'
         else case raw_spec env info phdrs geo of
           None \<Rightarrow> col' | Some s \<Rightarrow> col'\<lparr>col_specs := col_specs col' @ [s]\<rparr>)"
proof (cases "dlpi_phdr info")
  case None
  then show ?thesis by (intro skipped) (simp_all add: object_keys_def elf_callback_def)
next
  case (Some phdrs)
  define geo where "geo = geometry (dlpi_addr info) phdrs"
  show ?thesis
  proof (cases "phdrs = [] \<or> geo_lo geo = - 1 \<or> geo_hi geo \<le> geo_lo geo")
    case True
    with Some show ?thesis
      by (intro skipped) (auto simp: object_keys_def elf_callback_def geo_def Let_def)
  next
    case False
    with Some show ?thesis
      by (intro recorded [OF geo_def, of "elf_fingerprint env info geo"])
        (auto simp: object_keys_def elf_callback_def geo_def Let_def)
  qed
qed

lemma elf_callback_ok:
  assumes "collector_ok known col" "set (object_keys info) \<inter> fst ` set (col_current col) = {}"
  shows "collector_ok known (elf_callback env known info col) \<and>
    fst ` set (col_current (elf_callback env known info col)) = fst ` set (col_current col) \<union> set (object_keys info)"
proof (cases rule: elf_callback_cases [of info env known col])
  case skipped
  with assms show ?thesis by simp
next
  case (recorded phdrs geo fp)
  have fresh: "geo_lo geo \<notin> fst ` set (col_current col)" using assms(2) recorded(2) by auto
  have other: "rs_key s \<noteq> geo_lo geo" if "s \<in> set (col_specs col)" for s
  proof -
    have "map_of (col_current col) (rs_key s) \<noteq> None" using assms(1) that unfolding collector_ok_def by blast
    with fresh show ?thesis by (metis map_of_eq_None_iff)
  qed
  then have "geo_lo geo \<notin> rs_key ` set (col_specs col)" by (metis imageE)
  with other show ?thesis
    using assms(1) recorded(2) unfolding recorded(3)
    by (auto simp: collector_ok_def Let_def simp del: map_of_eq_Some_iff Some_eq_map_of_iff
        split: option.split dest: raw_spec_key)
qed

lemma elf_scan_ok:
  assumes "collector_ok known col" "distinct (concat (map object_keys objects))"
    and "set (concat (map object_keys objects)) \<inter> fst ` set (col_current col) = {}"
  shows "collector_ok known (fold (elf_callback env known) objects col)"
  using assms
proof (induction objects arbitrary: col)
  case (Cons info objects)
  have "set (object_keys info) \<inter> fst ` set (col_current col) = {}" using Cons.prems(3) by auto
  note step = elf_callback_ok [OF Cons.prems(1) this, of env]
  let ?rest = "set (concat (map object_keys objects))"
  have "?rest \<inter> fst ` set (col_current col) = {}" "?rest \<inter> set (object_keys info) = {}"
    using Cons.prems(2,3) by auto
  then have "?rest \<inter> fst ` set (col_current (elf_callback env known info col)) = {}"
    using step by (simp only: Int_Un_distrib) simp
  with Cons.IH [of "elf_callback env known info col"] step Cons.prems(2) show ?case by simp
qed simp

interpretation elf_scan: module_scan distinct_objects
  "\<lambda>objects known. Some (elf_enumerate section_entries env objects known)" for section_entries env
proof -
  have ok: "collector_ok known (fold (elf_callback env known) objects \<lparr>col_current = [], col_specs = []\<rparr>)"
    if "distinct_objects objects" for objects known
    using that by (intro elf_scan_ok) (simp_all add: distinct_objects_def collector_ok_def)
  have keys: "map fst (new_modules (elf_enumerate section_entries env objects known)) =
      map rs_key (col_specs (fold (elf_callback env known) objects \<lparr>col_current = [], col_specs = []\<rparr>))"
    for objects known
    by (simp add: elf_enumerate_def Let_def comp_def)
  have current: "enum_current (elf_enumerate section_entries env objects known) =
      col_current (fold (elf_callback env known) objects \<lparr>col_current = [], col_specs = []\<rparr>)" for objects known
    by (simp add: elf_enumerate_def Let_def)
  have new: "(k, m) \<in> set (new_modules (elf_enumerate section_entries env objects known)) \<longleftrightarrow>
      (\<exists>s \<in> set (col_specs (fold (elf_callback env known) objects \<lparr>col_current = [], col_specs = []\<rparr>)).
         k = rs_key s \<and> m = build_module section_entries s)" for k m objects known
    by (auto simp: elf_enumerate_def Let_def)
  show "module_scan distinct_objects (\<lambda>objects known. Some (elf_enumerate section_entries env objects known))"
  proof (unfold_locales, unfold option.inject)
    fix os known and res :: "ModuleUnwindDataInternal EnumResult"
    assume "distinct_objects os" and res: "elf_enumerate section_entries env os known = res"
    note c = ok [OF this(1), of known, unfolded collector_ok_def]
    show "distinct (map fst (enum_current res))" "distinct (map fst (new_modules res))"
      using c by (simp_all only: res [symmetric] current keys)
    fix k m assume "(k, m) \<in> set (new_modules res)"
    with c show "avma_start m = k"
      "map_of (enum_current res) k \<noteq> None \<and> map_of known k \<noteq> map_of (enum_current res) k"
      by (auto simp: res [symmetric] current new build_module_def module_new_def)
  qed
qed

section \<open>Properties\<close>

text \<open>
  C37: the start of \<open>.eh_frame\<close> is decoded as the linker encoded it. A header at \<open>hdr\<close> whose pointer
  is encoded relative to its field in four signed bytes, when the distance fits, in eight
  signed bytes, or as an absolute eight-byte address, decodes to the address that was encoded.
\<close>

theorem decode_eh_frame_start_roundtrip:
  fixes hdr target :: u64
  assumes "- (2 ^ 31) \<le> sint (target - (hdr + 4))" "sint (target - (hdr + 4)) < 2 ^ 31"
  shows "decode_eh_frame_start hdr ([1, 0x1b, c, t] @ to_le_bytes 4 (ucast (target - (hdr + 4)) :: u32) @ rest) = Some target \<and>
    decode_eh_frame_start hdr ([1, 0x1c, c, t] @ to_le_bytes 8 (target - (hdr + 4)) @ rest) = Some target \<and>
    decode_eh_frame_start hdr ([1, 0x00, c, t] @ to_le_bytes 8 target @ rest) = Some target"
proof -
  define d where "d = target - (hdr + 4)"
  have "(ucast d :: u32) = word_of_int (sint d)"
    unfolding scast_eq [symmetric] by (rule bit_word_eqI) (simp add: bit_simps)
  moreover have "signed_take_bit 31 (sint d) = sint d"
    using assms by (intro signed_take_bit_int_eq_self) (simp_all add: d_def)
  ultimately have "sint (ucast d :: u32) = sint d" by (simp only: signed_of_int) simp
  then have "scast (ucast d :: u32) = (word_of_int (sint d) :: u64)" by (simp only: scast_eq)
  then have "scast (ucast d :: u32) = d" by simp
  then have "sdata TYPE(32) 4 (to_le_bytes 4 (ucast d :: u32) @ rest) = Some (d, 4)"
    by (simp add: sdata_def slice_to_le_bytes from_to_le_bytes)
  moreover have "sdata TYPE(64) 8 (to_le_bytes 8 d @ rest) = Some (d, 8)"
    by (simp add: sdata_def slice_to_le_bytes from_to_le_bytes)
  moreover have "udata TYPE(64) 8 (to_le_bytes 8 target @ rest) = Some (target, 8)"
    by (simp add: udata_def slice_to_le_bytes from_to_le_bytes)
  moreover have "target = hdr + 4 + d" by (simp add: d_def)
  ultimately show ?thesis
    by (simp add: decode_eh_frame_start_def decode_value_def d_def [symmetric])
qed

theorem decode_eh_frame_start_roundtrip_witness:
  "decode_eh_frame_start 0x1000 [1, 0x1b, 3, 0x3b, 0xfc, 0x0f, 0, 0] = Some 0x2000"
proof -
  have "to_le_bytes 4 (ucast (0x2000 - (0x1000 + 4) :: u64) :: u32) = [0xfc, 0x0f, 0, 0]" by code_simp
  then show ?thesis using decode_eh_frame_start_roundtrip [of "0x2000" "0x1000" 3 "0x3b" "[]"] by simp
qed

lemma geometry_step_mono:
  "geo_lo (fold (geometry_step bias) phdrs geo) \<le> geo_lo geo \<and>
   geo_hi geo \<le> geo_hi (fold (geometry_step bias) phdrs geo)"
proof (induction phdrs arbitrary: geo)
  case (Cons ph phdrs)
  have "geo_lo (geometry_step bias ph geo) \<le> geo_lo geo \<and> geo_hi geo \<le> geo_hi (geometry_step bias ph geo)"
    by (auto simp: geometry_step_def Let_def)
  with Cons [of "geometry_step bias ph geo"] show ?case by auto
qed simp

lemma geometry_covers:
  assumes "ph \<in> set phdrs" "p_type ph = PT_LOAD"
  shows "geo_lo (fold (geometry_step bias) phdrs geo) \<le> bias + p_vaddr ph"
    "bias + p_vaddr ph + p_memsz ph \<le> geo_hi (fold (geometry_step bias) phdrs geo)"
proof -
  from assms(1) obtain xs ys where p: "phdrs = xs @ ph # ys" by (auto simp: in_set_conv_decomp)
  define g where "g = geometry_step bias ph (fold (geometry_step bias) xs geo)"
  have "geo_lo g \<le> bias + p_vaddr ph" "bias + p_vaddr ph + p_memsz ph \<le> geo_hi g"
    using assms(2) by (auto simp: g_def geometry_step_def Let_def)
  moreover have "fold (geometry_step bias) phdrs geo = fold (geometry_step bias) ys g"
    by (simp add: p g_def)
  ultimately show "geo_lo (fold (geometry_step bias) phdrs geo) \<le> bias + p_vaddr ph"
    "bias + p_vaddr ph + p_memsz ph \<le> geo_hi (fold (geometry_step bias) phdrs geo)"
    using geometry_step_mono [of bias ys g] by auto
qed

lemma containing_segment_end_Some:
  "containing_segment_end phdrs bias addr = Some hi \<Longrightarrow>
     addr < hi \<and> (\<exists>ph \<in> set phdrs. p_type ph = PT_LOAD \<and> bias + p_vaddr ph \<le> addr \<and>
       hi = bias + p_vaddr ph + p_memsz ph)"
  by (induction phdrs bias addr rule: containing_segment_end.induct)
    (auto simp: Let_def split: if_splits)

lemma raw_specE:
  assumes "raw_spec env info phdrs geo = Some s"
  obtains ph :: Phdr and hdr_avma a e where "hdr_avma = dlpi_addr info + p_vaddr ph"
    "rs_eh_frame_hdr s = bytes_at (ee_mem env) hdr_avma (unat (p_memsz ph))"
    "rs_eh_frame_hdr_svma s = (p_vaddr ph, p_vaddr ph + p_memsz ph)"
    "decode_eh_frame_start hdr_avma (rs_eh_frame_hdr s) = Some a"
    "containing_segment_end phdrs (dlpi_addr info) a = Some e" "a < e"
    "rs_eh_frame s = bytes_at (ee_mem env) a (unat (e - a))"
    "rs_eh_frame_svma s = (a - dlpi_addr info, e - dlpi_addr info)"
    "rs_base_avma s = dlpi_addr info" "rs_avma s = (geo_lo geo, geo_hi geo)"
proof -
  from assms obtain ph a e where p: "geo_hdr geo = Some ph"
    "decode_eh_frame_start (dlpi_addr info + p_vaddr ph)
       (bytes_at (ee_mem env) (dlpi_addr info + p_vaddr ph) (unat (p_memsz ph))) = Some a"
    "containing_segment_end phdrs (dlpi_addr info) a = Some e" "a < e"
    by (auto simp: raw_spec_def Let_def split: option.splits if_splits)
  show thesis
    by (rule that [of _ ph a e, OF refl]) (use assms p in \<open>auto simp: raw_spec_def Let_def split: if_splits\<close>)
qed


text \<open>
  C35: a rescan publishes exactly what is loaded. With a valid report of the loader and no JIT
  module at the start of a loaded object, \<open>refresh\<close> leaves the JIT modules, the modules of
  objects whose fingerprint is unchanged, and the newly built ones; everything else is
  gone; and the registry's invariant holds again.
\<close>

theorem elf_refresh_tracks_objects:
  fixes lib :: "('rule, 'regs, ModuleUnwindDataInternal) Library"
  assumes "reg_ok lib" "g_heap (lib_global lib) boxed = None" "distinct_objects objects"
    and "counts = None \<or> counts \<noteq> load_counts (lib_registry lib)"
    and "res = elf_enumerate section_entries env objects (static_mods (lib_registry lib))"
    and "jit_keys (lib_registry lib) \<inter> fst ` set (enum_current res) = {}"
    and "refresh boxed counts (\<lambda>known. Some (elf_enumerate section_entries env objects known)) lib = Some lib'"
  shows "set (listed lib') =
      {m \<in> set (listed lib). avma_start m \<in> jit_keys (lib_registry lib) \<or>
         map_of (static_mods (lib_registry lib)) (avma_start m) = map_of (enum_current res) (avma_start m)} \<union>
      snd ` set (new_modules res) \<and> reg_ok lib'"
  using elf_scan.refresh_publishes [OF assms(3,1,2,4) assms(5) [THEN sym, THEN arg_cong [of _ _ Some]] assms(6,7)]
  by (simp add: kept_modules_def)

section \<open>Witnesses\<close>

definition tiny_object :: DlPhdrInfo where
  "tiny_object = \<lparr>dlpi_addr = 0x400000, dlpi_name = None, dlpi_phdr = Some
     [\<lparr>p_type = 1, p_flags = 5, p_offset = 0, p_vaddr = 0, p_filesz = 0x1010, p_memsz = 0x1010\<rparr>,
      \<lparr>p_type = 0x6474e550, p_flags = 4, p_offset = 0x1000, p_vaddr = 0x1000, p_filesz = 8, p_memsz = 8\<rparr>]\<rparr>"

definition tiny_env :: ElfEnv where
  "tiny_env = \<lparr>ee_hash = (\<lambda>_. 7), ee_lossy = (\<lambda>_. []),
     ee_mem = (\<lambda>a. if a = 0x401000 then 1 else if a = 0x401001 then 0x1b else if a = 0x401004 then 4 else 0)\<rparr>"


lemma refresh_total:
  assumes "scan (static_mods (lib_registry lib)) = Some res" "static_mods (lib_registry lib) = []"
    and "unat (lib_generation lib) + length (new_modules res) + 1 < 2 ^ 64"
  shows "\<exists>lib'. refresh boxed None scan lib = Some lib'"
  using assms write_modules_total [of lib "map Add (map snd (new_modules res))" boxed]
  by (auto simp: refresh_def Let_def removed_keys_def changed_keys_def)

theorem elf_refresh_tracks_objects_witness:
  "\<exists>lib' :: (unit, unit, ModuleUnwindDataInternal) Library.
     refresh 1 None (\<lambda>known. Some (elf_enumerate (\<lambda>_ _ _. [] :: unit Entry list) tiny_env [tiny_object] known)) empty_library = Some lib' \<and>
     avma_start ` set (listed lib') = {0x400000}"
proof -
  let ?scan = "\<lambda>known. Some (elf_enumerate (\<lambda>_ _ _. [] :: unit Entry list) tiny_env [tiny_object] known)"
  let ?lib = "empty_library :: (unit, unit, ModuleUnwindDataInternal) Library"
  define res where "res = elf_enumerate (\<lambda>_ _ _. [] :: unit Entry list) tiny_env [tiny_object] (static_mods (lib_registry ?lib))"
  have static: "static_mods (lib_registry ?lib) = []" by (simp add: empty_library_def registry_new_def)
  have "map (avma_start \<circ> snd) (new_modules (elf_enumerate (\<lambda>_ _ _. [] :: unit Entry list) tiny_env [tiny_object] [])) = [0x400000]"
    by code_simp
  then have "map (avma_start \<circ> snd) (new_modules res) = [0x400000]" by (simp only: res_def static)
  then obtain x where "new_modules res = [x]" "avma_start (snd x) = 0x400000"
    by (auto simp: map_eq_Cons_conv)
  then have new: "avma_start ` snd ` set (new_modules res) = {0x400000}" "length (new_modules res) = 1"
    by simp_all
  obtain lib' where r: "refresh 1 None ?scan ?lib = Some lib'"
    using refresh_total [of ?scan ?lib res 1] new(2) static by (auto simp: res_def)
  have "distinct_objects [tiny_object]" by code_simp
  from elf_refresh_tracks_objects [OF empty_library_ok _ this _ res_def _ r] new(1) r
  show ?thesis by auto
qed

end
