(* ===== verification/Pe_Modules.thy ===== *)
theory Pe_Modules
  imports Elf_Modules
begin

text \<open>
  The scan of the loaded PE modules on Windows (\<^verbatim>\<open>src/modules/pe.rs\<close>): growing the handle buffer,
  pinning each module, parsing its headers in memory and building a framehop module over its
  \<open>.pdata\<close>, \<open>.xdata\<close>, \<open>.rdata\<close> and \<open>.text\<close>. The answers of the Windows calls and the memory of the
  process are arguments.
\<close>

section \<open>Reading the image\<close>

definition SECTION_HEADER_SIZE :: nat where "SECTION_HEADER_SIZE = 40"

definition read_u16 :: "memory \<Rightarrow> u64 \<Rightarrow> nat \<Rightarrow> u16" where
  "read_u16 mem base off = from_le_bytes (bytes_at mem (base + of_nat off) 2)"

definition read_u32 :: "memory \<Rightarrow> u64 \<Rightarrow> nat \<Rightarrow> u32" where
  "read_u32 mem base off = from_le_bytes (bytes_at mem (base + of_nat off) 4)"

definition pe_timestamp :: "memory \<Rightarrow> u64 \<Rightarrow> u32" where
  "pe_timestamp mem base =
     (if read_u16 mem base 0 \<noteq> 0x5a4d then 0
      else let e_lfanew = unat (read_u32 mem base 0x3c) in
        if read_u32 mem base e_lfanew \<noteq> 0x00004550 then 0
        else read_u32 mem base (e_lfanew + 4 + 4))"

text \<open>\<open>field\<close> has eight bytes.\<close>

definition section_name_eq :: "bytes \<Rightarrow> bytes \<Rightarrow> bool" where
  "section_name_eq field name =
     (if length name > 8 then False
      else if \<not> (\<forall>i < length name. field ! i = name ! i) then False
      else length name = 8 \<or> field ! length name = 0)"

fun find_section :: "memory \<Rightarrow> u64 \<Rightarrow> u64 \<Rightarrow> bytes \<Rightarrow> nat \<Rightarrow> nat \<Rightarrow> (u32 \<times> bytes) option" where
  "find_section mem base size_of_image want sh_off 0 = None"
| "find_section mem base size_of_image want sh_off (Suc n) =
     (if section_name_eq (bytes_at mem (base + of_nat sh_off) 8) want then
        let virtual_size = read_u32 mem base (sh_off + 8);
            rva = read_u32 mem base (sh_off + 12);
            len = unat (min (ucast virtual_size) (saturating_sub size_of_image (ucast rva)))
        in if len = 0 then None else Some (rva, bytes_at mem (base + ucast rva) len)
      else find_section mem base size_of_image want (sh_off + SECTION_HEADER_SIZE) n)"

section \<open>The section info of a module\<close>

record PeSectionInfo =
  pe_base_svma :: u64
  pe_pdata :: "(u32 \<times> bytes) option"
  pe_xdata :: "(u32 \<times> bytes) option"
  pe_rdata :: "(u32 \<times> bytes) option"
  pe_text :: "(u32 \<times> bytes) option"

definition pe_slot :: "PeSectionInfo \<Rightarrow> string \<Rightarrow> (u32 \<times> bytes) option" where
  "pe_slot info name =
     (if name = ''.pdata'' then pe_pdata info
      else if name = ''.xdata'' then pe_xdata info
      else if name = ''.rdata'' then pe_rdata info
      else if name = ''.text'' then pe_text info
      else None)"

text \<open>
  The implementation of \<open>ModuleSectionInfo\<close>. framehop asks for a section's range before it takes
  its data, so taking the data out is not visible to it.
\<close>

definition pe_section_info :: "PeSectionInfo \<Rightarrow> ModuleSectionInfo" where
  "pe_section_info info =
     \<lparr>si_base_svma = pe_base_svma info,
      si_section_svma_range = (\<lambda>name. map_option (\<lambda>(rva, bs).
        (pe_base_svma info + ucast rva, pe_base_svma info + ucast rva + of_nat (length bs))) (pe_slot info name)),
      si_section_data = (\<lambda>name. map_option snd (pe_slot info name)),
      si_segment_svma_range = (\<lambda>_. None), si_segment_data = (\<lambda>_. None)\<rparr>"

definition build_pe_module :: "(UnwindSectionType \<Rightarrow> bytes \<Rightarrow> BaseAddresses \<Rightarrow> 'g Entry list) \<Rightarrow> memory \<Rightarrow> u64 \<Rightarrow> u64 \<Rightarrow>
    ModuleUnwindDataInternal Module option" where
  "build_pe_module section_entries mem base size_of_image =
     (if read_u16 mem base 0 \<noteq> 0x5a4d then None
      else let e_lfanew = unat (read_u32 mem base 0x3c) in
      if read_u32 mem base e_lfanew \<noteq> 0x00004550 then None
      else let file_header = e_lfanew + 4;
               num_sections = unat (read_u16 mem base (file_header + 2));
               size_of_optional = unat (read_u16 mem base (file_header + 16));
               section_table = file_header + 20 + size_of_optional;
               sec = (\<lambda>want. find_section mem base size_of_image (bytes_of want) section_table num_sections) in
        (case sec ''.pdata'' of
           None \<Rightarrow> None
         | Some pdata \<Rightarrow>
             Some (module_new section_entries (''<pe:0x'' @ hex_digits (unat base) @ ''>'')
               (base, base + size_of_image) base
               (pe_section_info \<lparr>pe_base_svma = base, pe_pdata = Some pdata, pe_xdata = sec ''.xdata'',
                  pe_rdata = sec ''.rdata'', pe_text = sec ''.text''\<rparr>))))"

section \<open>The scan\<close>

text \<open>
  The Windows calls: \<open>EnumProcessModules\<close> at each attempt is given the bytes of the buffer and
  gives what the buffer holds afterwards and the bytes needed; pinning gives a handle, whose
  information is base and size. A null handle or a failing call is \<open>None\<close>.
\<close>

record WinOs =
  win_enum :: "nat \<Rightarrow> u32 \<Rightarrow> (u64 list \<times> u32) option"
  win_pin :: "u64 \<Rightarrow> u64 option"
  win_info :: "u64 \<Rightarrow> (u64 \<times> u32) option"
  win_mem :: memory

text \<open>\<open>n\<close> is the length of the buffer.\<close>

function enum_handles :: "(nat \<Rightarrow> u32 \<Rightarrow> (u64 list \<times> u32) option) \<Rightarrow> nat \<Rightarrow> nat \<Rightarrow> u64 list option" where
  "enum_handles enum attempt n =
     (if attempt \<ge> 8 then None
      else case enum attempt (of_nat (n * 8)) of
        None \<Rightarrow> None
      | Some (handles, needed) \<Rightarrow>
          (let cnt = unat needed div 8 in
           if cnt \<le> n then Some (take cnt handles) else enum_handles enum (attempt + 1) (cnt + 8)))"
  by pat_completeness auto
termination
  by (relation "measure (\<lambda>(_, attempt, _). 8 - attempt)") auto

declare enum_handles.simps [simp del]

text \<open>One pinned module; the hasher of \<open>fingerprint_of\<close> is an argument.\<close>

definition pe_module_step :: "(UnwindSectionType \<Rightarrow> bytes \<Rightarrow> BaseAddresses \<Rightarrow> 'g Entry list) \<Rightarrow>
    hasher \<Rightarrow> WinOs \<Rightarrow> (u64 \<times> u64) list \<Rightarrow> u64 \<Rightarrow>
    ModuleUnwindDataInternal EnumResult \<Rightarrow> ModuleUnwindDataInternal EnumResult" where
  "pe_module_step section_entries hash os known hmod res =
     (case win_pin os hmod of
        None \<Rightarrow> res
      | Some pinned \<Rightarrow>
          (case win_info os pinned of
             None \<Rightarrow> res
           | Some (base, size_of_image) \<Rightarrow>
               if base = 0 then res
               else let fp = fingerprint_of hash [ucast size_of_image, ucast (pe_timestamp (win_mem os) base)] [];
                        res' = res\<lparr>enum_current := entries_insert base fp (enum_current res)\<rparr> in
                 if map_of known base = Some fp then res'
                 else case build_pe_module section_entries (win_mem os) base (ucast size_of_image) of
                   None \<Rightarrow> res'
                 | Some m \<Rightarrow> res'\<lparr>new_modules := new_modules res' @ [(base, m)]\<rparr>))"

definition pe_enumerate :: "(UnwindSectionType \<Rightarrow> bytes \<Rightarrow> BaseAddresses \<Rightarrow> 'g Entry list) \<Rightarrow>
    hasher \<Rightarrow> WinOs \<Rightarrow> (u64 \<times> u64) list \<Rightarrow> ModuleUnwindDataInternal EnumResult option" where
  "pe_enumerate section_entries hash os known =
     (case enum_handles (win_enum os) 0 0 of
        None \<Rightarrow> None
      | Some handles \<Rightarrow>
          Some (fold (pe_module_step section_entries hash os known) handles \<lparr>enum_current = [], new_modules = []\<rparr>))"

section \<open>The scan is what refresh relies on\<close>

definition pe_keys :: "WinOs \<Rightarrow> u64 \<Rightarrow> u64 list" where
  "pe_keys os hmod =
     (case win_pin os hmod of
        None \<Rightarrow> []
      | Some pinned \<Rightarrow>
          (case win_info os pinned of
             None \<Rightarrow> []
           | Some (base, _) \<Rightarrow> if base = 0 then [] else [base]))"

definition distinct_bases :: "WinOs \<Rightarrow> bool" where
  "distinct_bases os \<longleftrightarrow>
     (case enum_handles (win_enum os) 0 0 of
        None \<Rightarrow> True
      | Some handles \<Rightarrow> distinct (concat (map (pe_keys os) handles)))"

definition scan_result_ok :: "(u64 \<times> u64) list \<Rightarrow> 'd EnumResult \<Rightarrow> bool" where
  "scan_result_ok known res \<longleftrightarrow>
     distinct (map fst (enum_current res)) \<and> distinct (map fst (new_modules res)) \<and>
     (\<forall>(k, m) \<in> set (new_modules res). avma_start m = k \<and> map_of (enum_current res) k \<noteq> None \<and>
        map_of known k \<noteq> map_of (enum_current res) k)"

lemma build_pe_module_start: "build_pe_module section_entries mem base n = Some m \<Longrightarrow> avma_start m = base"
  by (auto simp: build_pe_module_def Let_def module_new_def split: if_splits option.splits)

lemma pe_module_step_cases:
  obtains
    (skipped) "pe_keys os hmod = []" "pe_module_step section_entries hash os known hmod res = res"
  | (recorded) base fp n where "pe_keys os hmod = [base]"
      "pe_module_step section_entries hash os known hmod res =
        (let res' = res\<lparr>enum_current := entries_insert base fp (enum_current res)\<rparr> in
         if map_of known base = Some fp then res'
         else case build_pe_module section_entries (win_mem os) base n of
           None \<Rightarrow> res' | Some m \<Rightarrow> res'\<lparr>new_modules := new_modules res' @ [(base, m)]\<rparr>)"
proof (cases "pe_keys os hmod = []")
  case True
  then show ?thesis
    by (intro skipped) (auto simp: pe_keys_def pe_module_step_def split: option.splits if_splits)
next
  case False
  then obtain pinned base n where "win_pin os hmod = Some pinned" "win_info os pinned = Some (base, n)" "base \<noteq> 0"
    by (auto simp: pe_keys_def split: option.splits if_splits)
  then show ?thesis
    by (intro recorded [of base "fingerprint_of hash [ucast n, ucast (pe_timestamp (win_mem os) base)] []" "ucast n"])
      (simp_all add: pe_keys_def pe_module_step_def Let_def)
qed

lemma pe_module_step_ok:
  assumes "scan_result_ok known res" "set (pe_keys os hmod) \<inter> fst ` set (enum_current res) = {}"
  shows "scan_result_ok known (pe_module_step section_entries hash os known hmod res) \<and>
    fst ` set (enum_current (pe_module_step section_entries hash os known hmod res)) =
      fst ` set (enum_current res) \<union> set (pe_keys os hmod)"
proof (cases rule: pe_module_step_cases [of os hmod section_entries hash known res])
  case skipped
  with assms show ?thesis by simp
next
  case (recorded base fp n)
  have fresh: "base \<notin> fst ` set (enum_current res)" using assms(2) recorded(1) by auto
  have other: "k \<noteq> base" if "(k, m) \<in> set (new_modules res)" for k m
  proof -
    have "map_of (enum_current res) k \<noteq> None" using assms(1) that unfolding scan_result_ok_def by blast
    with fresh show ?thesis by (metis map_of_eq_None_iff)
  qed
  then have "base \<notin> fst ` set (new_modules res)" by force
  with other show ?thesis
    using assms(1) recorded(1) unfolding recorded(2)
    by (auto simp: scan_result_ok_def Let_def simp del: map_of_eq_Some_iff Some_eq_map_of_iff
        split: option.split dest: build_pe_module_start)
qed

lemma pe_scan_ok:
  assumes "scan_result_ok known res" "distinct (concat (map (pe_keys os) handles))"
    and "set (concat (map (pe_keys os) handles)) \<inter> fst ` set (enum_current res) = {}"
  shows "scan_result_ok known (fold (pe_module_step section_entries hash os known) handles res)"
  using assms
proof (induction handles arbitrary: res)
  case (Cons hmod handles)
  have "set (pe_keys os hmod) \<inter> fst ` set (enum_current res) = {}" using Cons.prems(3) by auto
  note step = pe_module_step_ok [OF Cons.prems(1) this, of section_entries hash]
  let ?rest = "set (concat (map (pe_keys os) handles))"
  have "?rest \<inter> fst ` set (enum_current res) = {}" "?rest \<inter> set (pe_keys os hmod) = {}"
    using Cons.prems(2,3) by auto
  then have "?rest \<inter> fst ` set (enum_current (pe_module_step section_entries hash os known hmod res)) = {}"
    using step by (simp only: Int_Un_distrib) simp
  with Cons.IH [of "pe_module_step section_entries hash os known hmod res"] step Cons.prems(2) show ?case by simp
qed simp

lemma pe_enumerate_ok:
  "distinct_bases os \<Longrightarrow> pe_enumerate section_entries hash os known = Some res \<Longrightarrow> scan_result_ok known res"
proof -
  assume d: "distinct_bases os" and r: "pe_enumerate section_entries hash os known = Some res"
  from r obtain handles where h: "enum_handles (win_enum os) 0 0 = Some handles"
    "res = fold (pe_module_step section_entries hash os known) handles \<lparr>enum_current = [], new_modules = []\<rparr>"
    by (auto simp: pe_enumerate_def split: option.splits)
  from d h(1) show ?thesis unfolding h(2) distinct_bases_def
    by (intro pe_scan_ok) (simp_all add: scan_result_ok_def)
qed

interpretation pe_scan: module_scan distinct_bases "pe_enumerate section_entries hash" for section_entries hash
  by unfold_locales (drule (1) pe_enumerate_ok, fastforce simp: scan_result_ok_def)+

section \<open>The handles\<close>

lemma enum_handles_complete:
  "enum_handles enum attempt n = Some hs \<Longrightarrow>
     \<exists>a \<ge> attempt. \<exists>k buf needed. a < 8 \<and> enum a (of_nat (k * 8)) = Some (buf, needed) \<and>
       unat needed div 8 \<le> k \<and> hs = take (unat needed div 8) buf"
proof (induction enum attempt n rule: enum_handles.induct)
  case (1 enum attempt n)
  show ?case
  proof (cases "attempt \<ge> 8 \<or> enum attempt (of_nat (n * 8)) = None")
    case True
    then have "enum_handles enum attempt n = None"
      by (subst enum_handles.simps) (auto simp del: of_nat_mult)
    with "1.prems" show ?thesis by simp
  next
    case False
    then obtain buf needed where e: "enum attempt (of_nat (n * 8)) = Some (buf, needed)" by auto
    show ?thesis
    proof (cases "unat needed div 8 \<le> n")
      case True
      with "1.prems" e False have "hs = take (unat needed div 8) buf"
        by (subst (asm) enum_handles.simps) (simp add: Let_def del: of_nat_mult)
      with True e False show ?thesis
        by (intro exI [of _ attempt] conjI exI [of _ n] exI [of _ buf] exI [of _ needed])
          (simp_all del: of_nat_mult)
    next
      case c: False
      with "1.prems" e False have "enum_handles enum (attempt + 1) (unat needed div 8 + 8) = Some hs"
        by (subst (asm) enum_handles.simps) (simp add: Let_def del: of_nat_mult)
      with "1.IH" False e c show ?thesis by (metis (no_types, lifting) add_leD1)
    qed
  qed
qed

lemma pe_enumerate_fails_iff:
  "pe_enumerate section_entries hash os known = None \<longleftrightarrow> enum_handles (win_enum os) 0 0 = None"
  by (simp add: pe_enumerate_def split: option.split)

section \<open>Sections stay inside the image\<close>

definition in_image :: "memory \<Rightarrow> u64 \<Rightarrow> u32 \<Rightarrow> u32 \<Rightarrow> bytes \<Rightarrow> bool" where
  "in_image mem base size_of_image rva bs \<longleftrightarrow>
     bs \<noteq> [] \<and> bs = bytes_at mem (base + ucast rva) (length bs) \<and> unat rva + length bs \<le> unat size_of_image"

lemma unat_u32_up: "unat (ucast (x :: u32) :: u64) = unat x"
  by (rule unat_ucast_up) simp

lemma find_section_in_image:
  "find_section mem base (ucast size_of_image) want sh_off n = Some (rva, bs) \<Longrightarrow> in_image mem base size_of_image rva bs"
proof (induction n arbitrary: sh_off)
  case (Suc n)
  show ?case
  proof (cases "section_name_eq (bytes_at mem (base + of_nat sh_off) 8) want")
    case True
    let ?len = "min (ucast (read_u32 mem base (sh_off + 8))) (saturating_sub (ucast size_of_image) (ucast rva)) :: u64"
    from Suc.prems True have len: "unat ?len \<noteq> 0" "bs = bytes_at mem (base + ucast rva) (unat ?len)"
      by (auto simp: Let_def split: if_splits)
    have l: "?len \<le> saturating_sub (ucast size_of_image) (ucast rva)" by simp
    have le: "(ucast rva :: u64) \<le> ucast size_of_image"
      using len(1) by (auto simp: saturating_sub_def split: if_splits)
    then have "unat ?len \<le> unat (ucast size_of_image - ucast rva :: u64)"
      using l by (simp add: saturating_sub_def word_le_nat_alt)
    also have "\<dots> = unat size_of_image - unat rva"
      using le by (simp add: unat_sub_no_underflow unat_u32_up)
    finally have "unat rva + unat ?len \<le> unat size_of_image" using len(1) by linarith
    with len show ?thesis by (auto simp: in_image_def bytes_at_def)
  next
    case False
    with Suc show ?thesis by simp
  qed
qed simp

lemma in_image_range:
  assumes "in_image mem base size_of_image rva bs"
  shows "try_unsigned (uint (base + ucast rva - base)) = Some rva"
    "try_unsigned (uint (base + ucast rva + of_nat (length bs) - base)) = Some (rva + of_nat (length bs))"
    "unat (rva + of_nat (length bs)) = unat rva + length bs"
proof -
  have le: "unat rva + length bs \<le> unat size_of_image" using assms by (simp add: in_image_def)
  moreover have "unat size_of_image < 2 ^ 32" using unsigned_less [where 'a = nat, of size_of_image] by simp
  ultimately have lt: "unat rva + length bs < 2 ^ 32" by linarith
  then have small: "unat (of_nat (length bs) :: u32) = length bs" "unat (of_nat (length bs) :: u64) = length bs"
    by (simp_all add: unat_of_nat)
  show sum: "unat (rva + of_nat (length bs)) = unat rva + length bs"
    using lt small(1) by (subst unat_add_lem [THEN iffD1]) simp_all
  have "unat (ucast rva + of_nat (length bs) :: u64) = unat rva + length bs"
    using lt small(2) unat_u32_up [of rva] by (subst unat_add_lem [THEN iffD1]) simp_all
  with sum have "uint (ucast rva + of_nat (length bs) :: u64) = uint (rva + of_nat (length bs))"
    by (metis uint_nat)
  then show "try_unsigned (uint (base + ucast rva + of_nat (length bs) - base)) = Some (rva + of_nat (length bs))"
    unfolding try_unsigned_iff_uint by (metis add.assoc add_diff_cancel_left')
  show "try_unsigned (uint (base + ucast rva - base)) = Some rva"
    using unat_u32_up [of rva] unfolding try_unsigned_iff_uint by (metis add_diff_cancel_left' uint_nat)
qed

lemma range_and_data_pe:
  assumes "pe_slot info name = Some (rva, bs)" "in_image mem (pe_base_svma info) size_of_image rva bs"
  shows "range_and_data (pe_section_info info) name = Some (bs, rva, rva + of_nat (length bs))"
  using in_image_range [OF assms(2)] assms(1) by (simp add: range_and_data_def pe_section_info_def del: add_diff_cancel_left')

lemma range_and_data_absent: "pe_slot info name = None \<Longrightarrow> range_and_data (pe_section_info info) name = None"
  by (simp add: range_and_data_def pe_section_info_def)

text \<open>The section called \<open>want\<close> of the image at \<open>base\<close>, from its headers.\<close>

definition pe_section :: "memory \<Rightarrow> u64 \<Rightarrow> u64 \<Rightarrow> string \<Rightarrow> (u32 \<times> bytes) option" where
  "pe_section mem base size_of_image want =
     (let file_header = unat (read_u32 mem base 0x3c) + 4 in
      find_section mem base size_of_image (bytes_of want)
        (file_header + 20 + unat (read_u16 mem base (file_header + 16)))
        (unat (read_u16 mem base (file_header + 2))))"

definition rva_data_of :: "u32 \<times> bytes \<Rightarrow> rva_data" where
  "rva_data_of = (\<lambda>(rva, bs). (bs, rva, rva + of_nat (length bs)))"

lemma build_pe_moduleE:
  assumes "build_pe_module section_entries mem base n = Some m"
  obtains pdata where "pe_section mem base n ''.pdata'' = Some pdata"
    "m = module_new section_entries (''<pe:0x'' @ hex_digits (unat base) @ ''>'') (base, base + n) base
      (pe_section_info \<lparr>pe_base_svma = base, pe_pdata = Some pdata, pe_xdata = pe_section mem base n ''.xdata'',
         pe_rdata = pe_section mem base n ''.rdata'', pe_text = pe_section mem base n ''.text''\<rparr>)"
proof (cases "pe_section mem base n ''.pdata''")
  case None
  with assms show thesis by (simp add: build_pe_module_def pe_section_def Let_def split: if_splits)
next
  case (Some pdata)
  with assms show thesis
    by (intro that [of pdata]) (simp_all add: build_pe_module_def pe_section_def Let_def split: if_splits)
qed

lemma pe_section_range:
  fixes size_of_image :: u32
  assumes "pe_slot info name = pe_section mem (pe_base_svma info) (ucast size_of_image) want"
  shows "range_and_data (pe_section_info info) name =
    map_option rva_data_of (pe_section mem (pe_base_svma info) (ucast size_of_image) want)"
proof (cases "pe_section mem (pe_base_svma info) (ucast size_of_image) want")
  case None
  with assms range_and_data_absent show ?thesis by simp
next
  case (Some s)
  obtain rva bs where s: "s = (rva, bs)" by fastforce
  with Some have "in_image mem (pe_base_svma info) size_of_image rva bs"
    by (auto simp: pe_section_def Let_def dest: find_section_in_image)
  from range_and_data_pe [OF _ this] assms Some s show ?thesis by (simp add: rva_data_of_def)
qed

text \<open>
  C38: a module built from a loaded PE image holds the sections its headers name, and nothing
  outside the image. Its unwind data is PE data over \<open>.pdata\<close>; the relative ranges framehop
  computes for \<open>.rdata\<close>, \<open>.xdata\<close> and \<open>.text\<close> are exactly the relative addresses of the headers with
  the length cut at the size of the image; and every section found is non-empty, is read in
  place, and ends at or below the size of the image, whatever the headers claim.
\<close>

theorem pe_module_sections:
  fixes size_of_image :: u32
  assumes "build_pe_module section_entries mem base (ucast size_of_image) = Some m"
  shows "avma_start m = base \<and> base_avma m = base \<and> base_svma m = base \<and> avma_end m = base + ucast size_of_image \<and>
    (\<exists>rva pdata. pe_section mem base (ucast size_of_image) ''.pdata'' = Some (rva, pdata) \<and>
       unwind_data m = PeUnwindInfo pdata
         (map_option rva_data_of (pe_section mem base (ucast size_of_image) ''.rdata''))
         (map_option rva_data_of (pe_section mem base (ucast size_of_image) ''.xdata''))
         (map_option rva_data_of (pe_section mem base (ucast size_of_image) ''.text''))) \<and>
    (\<forall>want rva bs. pe_section mem base (ucast size_of_image) want = Some (rva, bs) \<longrightarrow>
       in_image mem base size_of_image rva bs \<and> unat (rva + of_nat (length bs)) = unat rva + length bs)"
proof -
  let ?sec = "pe_section mem base (ucast size_of_image)"
  from assms obtain p where p: "?sec ''.pdata'' = Some p"
    and m: "m = module_new section_entries (''<pe:0x'' @ hex_digits (unat base) @ ''>'') (base, base + ucast size_of_image) base
      (pe_section_info \<lparr>pe_base_svma = base, pe_pdata = Some p, pe_xdata = ?sec ''.xdata'',
         pe_rdata = ?sec ''.rdata'', pe_text = ?sec ''.text''\<rparr>)" (is "m = module_new _ _ _ _ (pe_section_info ?info)")
    by (rule build_pe_moduleE)
  have slots: "pe_slot ?info ''.rdata'' = ?sec ''.rdata''" "pe_slot ?info ''.xdata'' = ?sec ''.xdata''"
    "pe_slot ?info ''.text'' = ?sec ''.text''" "pe_slot ?info ''.pdata'' = Some p" "pe_slot ?info ''__unwind_info'' = None"
    by (simp_all add: pe_slot_def)
  have ranges: "range_and_data (pe_section_info ?info) ''.rdata'' = map_option rva_data_of (?sec ''.rdata'')"
    "range_and_data (pe_section_info ?info) ''.xdata'' = map_option rva_data_of (?sec ''.xdata'')"
    "range_and_data (pe_section_info ?info) ''.text'' = map_option rva_data_of (?sec ''.text'')"
    using pe_section_range [of ?info "''.rdata''" mem size_of_image "''.rdata''"]
      pe_section_range [of ?info "''.xdata''" mem size_of_image "''.xdata''"]
      pe_section_range [of ?info "''.text''" mem size_of_image "''.text''"] slots(1-3) by simp_all
  have section_data: "si_section_data (pe_section_info ?info) ''__unwind_info'' = None"
    "si_section_data (pe_section_info ?info) ''.pdata'' = Some (snd p)"
    using slots(4,5) by (simp_all add: pe_section_info_def)
  have "unwind_data_new section_entries (pe_section_info ?info) = PeUnwindInfo (snd p)
      (map_option rva_data_of (?sec ''.rdata'')) (map_option rva_data_of (?sec ''.xdata'')) (map_option rva_data_of (?sec ''.text''))"
    unfolding unwind_data_new_def Let_def section_data ranges by simp
  moreover have "si_base_svma (pe_section_info ?info) = base" by (simp add: pe_section_info_def)
  moreover have "in_image mem base size_of_image rva bs" if "?sec want = Some (rva, bs)" for want rva bs
    using that by (auto simp: pe_section_def Let_def dest: find_section_in_image)
  ultimately show ?thesis using p in_image_range(3) [of mem base size_of_image]
    unfolding m module_new_def by (cases p) simp
qed

lemma build_pe_module_total:
  "read_u16 mem base 0 = 0x5a4d \<Longrightarrow> read_u32 mem base (unat (read_u32 mem base 0x3c)) = 0x00004550 \<Longrightarrow>
     pe_section mem base n ''.pdata'' \<noteq> None \<Longrightarrow> \<exists>m. build_pe_module section_entries mem base n = Some m"
  by (auto simp: build_pe_module_def pe_section_def Let_def)

text \<open>An image with one section header, \<open>.pdata\<close>, whose virtual size runs past the image.\<close>

definition tiny_pe :: memory where
  "tiny_pe = (\<lambda>a. case map_of [(0, 0x4d), (1, 0x5a), (0x3c, 0x40), (0x40, 0x50), (0x41, 0x45), (0x46, 1),
       (0x58, 0x2e), (0x59, 0x70), (0x5a, 0x64), (0x5b, 0x61), (0x5c, 0x74), (0x5d, 0x61),
       (0x60, 0x20), (0x64, 0x80)] (a - 0x10000) of Some b \<Rightarrow> b | None \<Rightarrow> 0)"

theorem pe_module_sections_witness:
  "\<exists>m rva bs. build_pe_module (\<lambda>_ _ _. [] :: unit Entry list) tiny_pe 0x10000 0x90 = Some m \<and>
     pe_section tiny_pe 0x10000 0x90 ''.pdata'' = Some (rva, bs) \<and>
     unwind_data m = PeUnwindInfo bs None None None \<and> rva = 0x80 \<and> length bs = 16 \<and> base_svma m = 0x10000"
proof -
  let ?se = "\<lambda>_ _ _. [] :: unit Entry list"
  have sec: "pe_section tiny_pe 0x10000 0x90 ''.pdata'' = Some (0x80, replicate 16 0)"
    "pe_section tiny_pe 0x10000 0x90 ''.rdata'' = None" "pe_section tiny_pe 0x10000 0x90 ''.xdata'' = None"
    "pe_section tiny_pe 0x10000 0x90 ''.text'' = None" by code_simp+
  have "read_u16 tiny_pe 0x10000 0 = 0x5a4d"
    "read_u32 tiny_pe 0x10000 (unat (read_u32 tiny_pe 0x10000 0x3c)) = 0x00004550" by code_simp+
  then obtain m where m: "build_pe_module ?se tiny_pe 0x10000 0x90 = Some m"
    using build_pe_module_total [of tiny_pe "0x10000" "0x90" ?se] sec(1) by auto
  then have "build_pe_module ?se tiny_pe 0x10000 (ucast (0x90 :: u32)) = Some m" by simp
  from pe_module_sections [OF this] sec m show ?thesis by auto
qed

end
