(* ===== verification/Macho_Modules.thy ===== *)
theory Macho_Modules
  imports Elf_Modules
begin

text \<open>
  Tracking the loaded Mach-O images through dyld's callbacks (\<^verbatim>\<open>src/modules/macho.rs\<close>): walking the
  load commands of an image, finding its \<open>__TEXT\<close> segment and its unwind sections, and the
  callbacks that add and remove its module. The memory of the process is an argument; fields are
  read at their offsets in \<open>mach_header_64\<close>, \<open>load_command\<close>, \<open>segment_command_64\<close> and \<open>section_64\<close>.
\<close>

section \<open>Reading the image\<close>

definition LC_SEGMENT_64 :: u32 where "LC_SEGMENT_64 = 0x19"

definition u32_at :: "memory \<Rightarrow> u64 \<Rightarrow> u32" where
  "u32_at mem p = from_le_bytes (bytes_at mem p 4)"

definition u64_at :: "memory \<Rightarrow> u64 \<Rightarrow> u64" where
  "u64_at mem p = from_le_bytes (bytes_at mem p 8)"

record Section64 =
  sectname :: bytes
  sec_segname :: bytes
  sec_addr :: u64
  sec_size :: u64
  sec_offset :: u32
  sec_align :: u32
  sec_reloff :: u32
  sec_nreloc :: u32
  sec_flags :: u32
  reserved1 :: u32
  reserved2 :: u32
  reserved3 :: u32

definition section_at :: "memory \<Rightarrow> u64 \<Rightarrow> Section64" where
  "section_at mem p =
     \<lparr>sectname = bytes_at mem p 16, sec_segname = bytes_at mem (p + 16) 16, sec_addr = u64_at mem (p + 32),
      sec_size = u64_at mem (p + 40), sec_offset = u32_at mem (p + 48), sec_align = u32_at mem (p + 52),
      sec_reloff = u32_at mem (p + 56), sec_nreloc = u32_at mem (p + 60), sec_flags = u32_at mem (p + 64),
      reserved1 = u32_at mem (p + 68), reserved2 = u32_at mem (p + 72), reserved3 = u32_at mem (p + 76)\<rparr>"

record SegmentCommand64 =
  seg_segname :: bytes
  seg_vmaddr :: u64
  seg_vmsize :: u64
  seg_nsects :: u32

definition segment_at :: "memory \<Rightarrow> u64 \<Rightarrow> SegmentCommand64" where
  "segment_at mem p =
     \<lparr>seg_segname = bytes_at mem (p + 8) 16, seg_vmaddr = u64_at mem (p + 24),
      seg_vmsize = u64_at mem (p + 32), seg_nsects = u32_at mem (p + 64)\<rparr>"

definition SIZEOF_HEADER :: u64 where "SIZEOF_HEADER = 32"
definition SIZEOF_SEGMENT :: u64 where "SIZEOF_SEGMENT = 72"
definition SIZEOF_SECTION :: u64 where "SIZEOF_SECTION = 80"

definition ncmds :: "memory \<Rightarrow> u64 \<Rightarrow> nat" where
  "ncmds mem header = unat (u32_at mem (header + 16))"

definition cmd :: "memory \<Rightarrow> u64 \<Rightarrow> u32" where
  "cmd mem p = u32_at mem p"

definition cmdsize :: "memory \<Rightarrow> u64 \<Rightarrow> u64" where
  "cmdsize mem p = ucast (u32_at mem (p + 4))"

definition name_eq :: "bytes \<Rightarrow> bytes \<Rightarrow> bool" where
  "name_eq field name =
     (if length name > 16 then False
      else if \<not> (\<forall>i < length name. field ! i = name ! i) then False
      else length name = 16 \<or> field ! length name = 0)"

definition seg_name_eq :: "bytes \<Rightarrow> bytes \<Rightarrow> bool" where
  "seg_name_eq field name = name_eq field name"

definition sect_name_eq :: "bytes \<Rightarrow> bytes \<Rightarrow> bool" where
  "sect_name_eq field name = name_eq field name"

definition mapped :: "memory \<Rightarrow> u64 \<Rightarrow> nat \<Rightarrow> bytes" where
  "mapped mem ptr len = bytes_at mem ptr len"

section \<open>Parsing an image\<close>

fun image_key_loop :: "memory \<Rightarrow> u64 \<Rightarrow> u64 \<Rightarrow> nat \<Rightarrow> u64 option" where
  "image_key_loop mem slide p 0 = None"
| "image_key_loop mem slide p (Suc n) =
     (if cmd mem p = LC_SEGMENT_64 \<and> seg_name_eq (seg_segname (segment_at mem p)) (bytes_of ''__TEXT'')
      then Some (seg_vmaddr (segment_at mem p) + slide)
      else image_key_loop mem slide (p + cmdsize mem p) n)"

definition image_key :: "memory \<Rightarrow> u64 \<Rightarrow> u64 \<Rightarrow> u64 option" where
  "image_key mem header slide = image_key_loop mem slide (header + SIZEOF_HEADER) (ncmds mem header)"

text \<open>The first pass of \<open>build_image\<close>.\<close>

fun text_pass :: "memory \<Rightarrow> u64 \<Rightarrow> nat \<Rightarrow> u64 option \<times> u64 \<Rightarrow> u64 option \<times> u64" where
  "text_pass mem p 0 found = found"
| "text_pass mem p (Suc n) found =
     text_pass mem (p + cmdsize mem p) n
       (if cmd mem p = LC_SEGMENT_64 \<and> seg_name_eq (seg_segname (segment_at mem p)) (bytes_of ''__TEXT'')
        then (Some (seg_vmaddr (segment_at mem p)), seg_vmsize (segment_at mem p)) else found)"

record ImageSections =
  im_unwind_info :: "bytes option"
  im_eh_frame :: "(bytes \<times> svma_range) option"
  im_text_segment :: "(bytes \<times> svma_range) option"
  im_stubs_svma :: "svma_range option"
  im_stub_helper_svma :: "svma_range option"
  im_got_svma :: "svma_range option"
  im_text_svma :: "svma_range option"

definition no_sections :: ImageSections where
  "no_sections = \<lparr>im_unwind_info = None, im_eh_frame = None, im_text_segment = None, im_stubs_svma = None,
     im_stub_helper_svma = None, im_got_svma = None, im_text_svma = None\<rparr>"

definition section_step :: "memory \<Rightarrow> u64 \<Rightarrow> Section64 \<Rightarrow> ImageSections \<Rightarrow> ImageSections" where
  "section_step mem slide sec im =
     (let svma = (sec_addr sec, sec_addr sec + sec_size sec);
          data_ptr = sec_addr sec + slide in
      if sect_name_eq (sectname sec) (bytes_of ''__text'') then im\<lparr>im_text_svma := Some svma\<rparr>
      else if sect_name_eq (sectname sec) (bytes_of ''__unwind_info'')
        then im\<lparr>im_unwind_info := Some (mapped mem data_ptr (unat (sec_size sec)))\<rparr>
      else if sect_name_eq (sectname sec) (bytes_of ''__eh_frame'')
        then im\<lparr>im_eh_frame := Some (mapped mem data_ptr (unat (sec_size sec)), svma)\<rparr>
      else if sect_name_eq (sectname sec) (bytes_of ''__stubs'') then im\<lparr>im_stubs_svma := Some svma\<rparr>
      else if sect_name_eq (sectname sec) (bytes_of ''__stub_helper'') then im\<lparr>im_stub_helper_svma := Some svma\<rparr>
      else if sect_name_eq (sectname sec) (bytes_of ''__got'') then im\<lparr>im_got_svma := Some svma\<rparr>
      else im)"

definition segment_step :: "memory \<Rightarrow> u64 \<Rightarrow> u64 \<Rightarrow> ImageSections \<Rightarrow> ImageSections" where
  "segment_step mem slide p im =
     (let seg = segment_at mem p;
          im1 = (if seg_name_eq (seg_segname seg) (bytes_of ''__TEXT'')
                 then im\<lparr>im_text_segment := Some (mapped mem (seg_vmaddr seg + slide) (unat (seg_vmsize seg)),
                        (seg_vmaddr seg, seg_vmaddr seg + seg_vmsize seg))\<rparr>
                 else im)
      in fold (\<lambda>s. section_step mem slide (section_at mem (p + SIZEOF_SEGMENT + of_nat s * SIZEOF_SECTION)))
           [0..<unat (seg_nsects seg)] im1)"

text \<open>The second pass.\<close>

fun section_pass :: "memory \<Rightarrow> u64 \<Rightarrow> u64 \<Rightarrow> nat \<Rightarrow> ImageSections \<Rightarrow> ImageSections" where
  "section_pass mem slide p 0 im = im"
| "section_pass mem slide p (Suc n) im =
     section_pass mem slide (p + cmdsize mem p) n
       (if cmd mem p = LC_SEGMENT_64 then segment_step mem slide p im else im)"

definition image_section_info :: "u64 \<Rightarrow> ImageSections \<Rightarrow> ExplicitModuleSectionInfo" where
  "image_section_info text_vmaddr im =
     \<lparr>x_base_svma = text_vmaddr, x_text_svma = im_text_svma im, x_text = None, x_stubs_svma = im_stubs_svma im,
      x_stub_helper_svma = im_stub_helper_svma im, x_got_svma = im_got_svma im, x_unwind_info = im_unwind_info im,
      x_eh_frame_svma = map_option snd (im_eh_frame im), x_eh_frame = map_option fst (im_eh_frame im),
      x_eh_frame_hdr_svma = None, x_eh_frame_hdr = None, x_debug_frame = None,
      x_text_segment_svma = map_option snd (im_text_segment im),
      x_text_segment = map_option fst (im_text_segment im)\<rparr>"

definition build_image :: "(UnwindSectionType \<Rightarrow> bytes \<Rightarrow> BaseAddresses \<Rightarrow> 'g Entry list) \<Rightarrow> memory \<Rightarrow> u64 \<Rightarrow> u64 \<Rightarrow>
    (u64 \<times> u64 \<times> ModuleUnwindDataInternal Module option) option" where
  "build_image section_entries mem header slide =
     (case text_pass mem (header + SIZEOF_HEADER) (ncmds mem header) (None, 0) of
        (None, _) \<Rightarrow> None
      | (Some text_vmaddr, text_vmsize) \<Rightarrow>
          (let base = text_vmaddr + slide;
               fp = text_vmaddr XOR word_rotl 32 text_vmsize;
               im = section_pass mem slide (header + SIZEOF_HEADER) (ncmds mem header) no_sections in
           if im_unwind_info im = None \<and> im_eh_frame im = None then Some (base, fp, None)
           else Some (base, fp, Some (module_new section_entries (''<image:0x'' @ hex_digits (unat base) @ ''>'')
                  (base, base + text_vmsize) base
                  (explicit_section_info (image_section_info text_vmaddr im))))))"

section \<open>The callbacks\<close>

definition on_add_image :: "(UnwindSectionType \<Rightarrow> bytes \<Rightarrow> BaseAddresses \<Rightarrow> 'g Entry list) \<Rightarrow> memory \<Rightarrow> ptr \<Rightarrow> u64 \<Rightarrow> u64 \<Rightarrow>
    ('rule, 'regs, ModuleUnwindDataInternal) Library \<Rightarrow> ('rule, 'regs, ModuleUnwindDataInternal) Library option" where
  "on_add_image section_entries mem boxed header slide lib =
     (if header = 0 then Some lib
      else case build_image section_entries mem header slide of
        Some (key, fp, Some m) \<Rightarrow> macos_add_image boxed key fp m lib
      | _ \<Rightarrow> Some lib)"

definition on_remove_image :: "memory \<Rightarrow> ptr \<Rightarrow> u64 \<Rightarrow> u64 \<Rightarrow> ('rule, 'regs, 'd) Library \<Rightarrow>
    ('rule, 'regs, 'd) Library option" where
  "on_remove_image mem boxed header slide lib =
     (if header = 0 then Some lib
      else case image_key mem header slide of
        Some key \<Rightarrow> macos_remove_image boxed key lib
      | None \<Rightarrow> Some lib)"

text \<open>
  \<open>init_callbacks\<close>: \<open>done\<close> is the \<open>Once\<close>, and \<open>images\<close> are the headers and slides dyld replays.
\<close>

fun replay :: "(UnwindSectionType \<Rightarrow> bytes \<Rightarrow> BaseAddresses \<Rightarrow> 'g Entry list) \<Rightarrow> memory \<Rightarrow> ptr \<Rightarrow> (u64 \<times> u64) list \<Rightarrow>
    ('rule, 'regs, ModuleUnwindDataInternal) Library \<Rightarrow> ('rule, 'regs, ModuleUnwindDataInternal) Library option" where
  "replay section_entries mem boxed [] lib = Some lib"
| "replay section_entries mem boxed ((header, slide) # images) lib =
     Option.bind (on_add_image section_entries mem boxed header slide lib)
       (replay section_entries mem boxed images)"

definition init_callbacks :: "(UnwindSectionType \<Rightarrow> bytes \<Rightarrow> BaseAddresses \<Rightarrow> 'g Entry list) \<Rightarrow> memory \<Rightarrow> ptr \<Rightarrow>
    (u64 \<times> u64) list \<Rightarrow> bool \<times> ('rule, 'regs, ModuleUnwindDataInternal) Library \<Rightarrow>
    (bool \<times> ('rule, 'regs, ModuleUnwindDataInternal) Library) option" where
  "init_callbacks section_entries mem boxed images = (\<lambda>(finished, lib).
     if finished then Some (True, lib)
     else map_option (Pair True)
       (Option.bind (replay section_entries mem boxed images (macos_begin_batch lib)) (macos_end_batch boxed)))"

section \<open>Both walks over the load commands\<close>

fun text_commands :: "memory \<Rightarrow> u64 \<Rightarrow> nat \<Rightarrow> SegmentCommand64 list" where
  "text_commands mem p 0 = []"
| "text_commands mem p (Suc n) =
     (if cmd mem p = LC_SEGMENT_64 \<and> seg_name_eq (seg_segname (segment_at mem p)) (bytes_of ''__TEXT'')
      then [segment_at mem p] else []) @ text_commands mem (p + cmdsize mem p) n"

definition text_segments :: "memory \<Rightarrow> u64 \<Rightarrow> SegmentCommand64 list" where
  "text_segments mem header = text_commands mem (header + SIZEOF_HEADER) (ncmds mem header)"

lemma image_key_loop_eq:
  "image_key_loop mem slide p n =
     (case text_commands mem p n of [] \<Rightarrow> None | seg # _ \<Rightarrow> Some (seg_vmaddr seg + slide))"
  by (induction mem p n rule: text_commands.induct) simp_all

lemma text_pass_eq:
  "text_pass mem p n found =
     (if text_commands mem p n = [] then found
      else (Some (seg_vmaddr (last (text_commands mem p n))), seg_vmsize (last (text_commands mem p n))))"
  by (induction mem p n arbitrary: found rule: text_commands.induct) simp_all

lemma image_key_eq:
  "image_key mem header slide =
     (case text_segments mem header of [] \<Rightarrow> None | seg # _ \<Rightarrow> Some (seg_vmaddr seg + slide))"
  by (simp add: image_key_def image_key_loop_eq text_segments_def)

lemma build_image_key:
  "map_option fst (build_image section_entries mem header slide) =
     (if text_segments mem header = [] then None else Some (seg_vmaddr (last (text_segments mem header)) + slide))"
  by (simp add: build_image_def text_pass_eq text_segments_def Let_def)

lemma build_image_start:
  "build_image section_entries mem header slide = Some (key, fp, Some m) \<Longrightarrow> avma_start m = key"
  by (auto simp: build_image_def module_new_def Let_def split: option.splits prod.splits if_splits)

section \<open>The registry under the callbacks\<close>

lemma entries_remove_simps [simp]:
  "fst ` set (entries_remove k es) = fst ` set es - {k}"
  "distinct (map fst es) \<Longrightarrow> distinct (map fst (entries_remove k es))"
  by (force simp: entries_remove_def) (simp add: entries_remove_def distinct_map_filter)

lemma macos_add_image_spec:
  assumes "reg_ok lib" "g_heap (lib_global lib) boxed = None" "\<not> batching (lib_registry lib)"
    and "key \<notin> jit_keys (lib_registry lib)" "avma_start m = key" "macos_add_image boxed key fp m lib = Some lib'"
  shows "reg_ok lib'" "set (listed lib') = {m' \<in> set (listed lib). avma_start m' \<noteq> key} \<union> {m}"
    "lib_registry lib' = (lib_registry lib)\<lparr>static_mods := entries_insert key fp (static_mods (lib_registry lib))\<rparr>"
proof -
  note ok = reg_okD [OF assms(1)]
  let ?reg = "lib_registry lib"
  let ?old = "if map_of (static_mods ?reg) key \<noteq> None then [Remove key] else []"
  from assms(3,6) obtain lib1 where w: "write_modules boxed (?old @ [Add m]) lib = Some lib1"
    and lib': "lib' = lib1\<lparr>lib_registry := ?reg\<lparr>static_mods := entries_insert key fp (static_mods ?reg)\<rparr>\<rparr>"
    unfolding macos_add_image_def Let_def by (auto simp del: not_None_eq)
  have fresh: "avma_start m' \<noteq> key" if "m' \<in> set (listed lib)" "map_of (static_mods ?reg) key = None" for m'
    using ok(5) that assms(4) by (auto simp: static_keys_def map_of_eq_None_iff)
  have "history_ok (listed lib) (?old @ [Add m])"
    using assms(5) fresh by (cases "map_of (static_mods ?reg) key = None") force+
  note spec = write_modules_spec [OF ok(1) assms(2) this w]
  show l: "set (listed lib') = {m' \<in> set (listed lib). avma_start m' \<noteq> key} \<union> {m}"
    unfolding lib' listed_registry spec(2) using fresh by (auto simp: set_insort_key)
  show r: "lib_registry lib' = ?reg\<lparr>static_mods := entries_insert key fp (static_mods ?reg)\<rparr>" by (simp add: lib')
  have "jit_keys ?reg \<subseteq> avma_start ` set (listed lib')" using ok(4) assms(4) unfolding l by blast
  moreover have "avma_start ` set (listed lib') \<subseteq> jit_keys ?reg \<union> insert key (static_keys ?reg)"
    using ok(5) assms(5) unfolding l by blast
  ultimately show "reg_ok lib'"
    using ok(2,3,6) assms(4) spec(1) unfolding reg_ok_def r
    by (simp add: lib' static_keys_def eh_frames_ok_def)
qed

lemma macos_remove_image_spec:
  assumes "reg_ok lib" "g_heap (lib_global lib) boxed = None" "\<not> batching (lib_registry lib)"
    and "macos_remove_image boxed key lib = Some lib'"
  shows "reg_ok lib'" "set (listed lib') = {m \<in> set (listed lib). avma_start m \<noteq> key \<or> key \<notin> static_keys (lib_registry lib)}"
proof -
  note ok = reg_okD [OF assms(1)]
  let ?reg = "lib_registry lib"
  have "reg_ok lib' \<and>
    set (listed lib') = {m \<in> set (listed lib). avma_start m \<noteq> key \<or> key \<notin> static_keys ?reg}"
  proof (cases "key \<in> static_keys ?reg")
    case False
    then have "map_of (static_mods ?reg) key = None" by (simp add: static_keys_def map_of_eq_None_iff)
    with assms False show ?thesis by (auto simp: macos_remove_image_def Let_def)
  next
    case True
    then have "map_of (static_mods ?reg) key \<noteq> None" "key \<notin> jit_keys ?reg"
      using ok(6) by (auto simp: static_keys_def map_of_eq_None_iff)
    with assms(3,4) obtain lib1 where w: "write_modules boxed (map Remove [key]) lib = Some lib1"
      and lib': "lib' = lib1\<lparr>lib_registry := ?reg\<lparr>static_mods := entries_remove key (static_mods ?reg)\<rparr>\<rparr>"
      by (auto simp: macos_remove_image_def Let_def)
    note spec = write_modules_spec [OF ok(1) assms(2) history_ok_Remove w]
    have l: "set (listed lib') = {m \<in> set (listed lib). avma_start m \<noteq> key}"
      unfolding lib' listed_registry spec(2) by auto
    have "jit_keys ?reg \<subseteq> avma_start ` set (listed lib')"
      "avma_start ` set (listed lib') \<subseteq> jit_keys ?reg \<union> (static_keys ?reg - {key})"
      using ok(4,5) \<open>key \<notin> jit_keys ?reg\<close> unfolding l by blast+
    with ok spec(1) have "reg_ok lib'"
      by (auto simp: reg_ok_def lib' static_keys_def eh_frames_ok_def)
    with l True show ?thesis by simp
  qed
  then show "reg_ok lib'"
    "set (listed lib') = {m \<in> set (listed lib). avma_start m \<noteq> key \<or> key \<notin> static_keys ?reg}" by blast+
qed

text \<open>
  C39: unloading an image takes out exactly what loading it put in. The removal recomputes the key
  with its own walk over the load commands, which stops at the first \<open>__TEXT\<close> where the addition
  keeps the last; for an image with one \<open>__TEXT\<close> segment both give the same key, the addition
  publishes the image's module in place of any other module of that key, and after the
  removal no module with that key is listed, every other module is, and the registry's
  invariant holds throughout.
\<close>

theorem image_unload_undoes_load:
  assumes "reg_ok lib" "g_heap (lib_global lib) boxed = None" "\<not> batching (lib_registry lib)" "header \<noteq> 0"
    and "length (text_segments mem header) = 1"
    and "build_image section_entries mem header slide = Some (key, fp, mo)" "key \<notin> jit_keys (lib_registry lib)"
    and "on_add_image section_entries mem boxed header slide lib = Some lib1"
    and "g_heap (lib_global lib1) boxed' = None" "on_remove_image mem boxed' header slide lib1 = Some lib2"
  shows "image_key mem header slide = Some key \<and> reg_ok lib1 \<and> reg_ok lib2 \<and>
    (\<forall>m. mo = Some m \<longrightarrow> set (listed lib1) = {m' \<in> set (listed lib). avma_start m' \<noteq> key} \<union> {m}) \<and>
    set (listed lib2) = {m' \<in> set (listed lib). avma_start m' \<noteq> key}"
proof -
  obtain seg where seg: "text_segments mem header = [seg]" using assms(5) by (auto simp: length_Suc_conv)
  from arg_cong [OF assms(6), of "map_option fst"] have "key = seg_vmaddr seg + slide"
    by (simp add: build_image_key seg)
  then have key: "image_key mem header slide = Some key" by (simp add: image_key_eq seg)
  have remove: "macos_remove_image boxed' key lib1 = Some lib2"
    using assms(4,10) key by (simp add: on_remove_image_def)
  have lib1: "reg_ok lib1 \<and> \<not> batching (lib_registry lib1) \<and>
      (\<forall>m. mo = Some m \<longrightarrow> set (listed lib1) = {m' \<in> set (listed lib). avma_start m' \<noteq> key} \<union> {m}) \<and>
      {m' \<in> set (listed lib1). avma_start m' \<noteq> key} = {m' \<in> set (listed lib). avma_start m' \<noteq> key} \<and>
      (key \<notin> static_keys (lib_registry lib1) \<longrightarrow> key \<notin> avma_start ` set (listed lib1))"
  proof (cases mo)
    case None
    then have "lib1 = lib" using assms(4,6,8) by (simp add: on_add_image_def)
    then show ?thesis using None assms(1,3,7) reg_okD(5) [OF assms(1)] by auto
  next
    case (Some m)
    have start: "avma_start m = key" using assms(6) Some by (simp add: build_image_start)
    have "macos_add_image boxed key fp m lib = Some lib1" using assms(4,6,8) Some by (simp add: on_add_image_def)
    note spec = macos_add_image_spec [OF assms(1-3,7) start this]
    show ?thesis using spec(1) assms(3) start Some unfolding spec(2,3) by (auto simp: static_keys_def)
  qed
  note spec = macos_remove_image_spec [OF _ assms(9) _ remove]
  have "set (listed lib2) = {m' \<in> set (listed lib). avma_start m' \<noteq> key}"
    using lib1 unfolding spec(2) [OF conjunct1 [OF lib1] conjunct1 [OF conjunct2 [OF lib1]]] by auto
  then show ?thesis using key lib1 spec(1) by blast
qed

text \<open>The modules of the images dyld replays.\<close>

definition replayed :: "(UnwindSectionType \<Rightarrow> bytes \<Rightarrow> BaseAddresses \<Rightarrow> 'g Entry list) \<Rightarrow> memory \<Rightarrow> (u64 \<times> u64) list \<Rightarrow>
    (u64 \<times> u64 \<times> ModuleUnwindDataInternal Module) list" where
  "replayed section_entries mem images = concat (map (\<lambda>(header, slide).
     if header = 0 then [] else
     case build_image section_entries mem header slide of Some (key, fp, Some m) \<Rightarrow> [(key, fp, m)] | _ \<Rightarrow> []) images)"

lemma replay_batches:
  "batching (lib_registry lib) \<Longrightarrow> replay section_entries mem boxed images lib =
     Some (lib\<lparr>lib_registry := (lib_registry lib)\<lparr>pending := pending (lib_registry lib) @ replayed section_entries mem images\<rparr>\<rparr>)"
proof (induction images arbitrary: lib)
  case (Cons image images)
  obtain header slide where i: "image = (header, slide)" by (rule prod.exhaust)
  define new where "new = replayed section_entries mem [image]"
  have split: "replayed section_entries mem (image # images) = new @ replayed section_entries mem images"
    by (simp add: new_def replayed_def)
  have "on_add_image section_entries mem boxed header slide lib =
      Some (lib\<lparr>lib_registry := (lib_registry lib)\<lparr>pending := pending (lib_registry lib) @ new\<rparr>\<rparr>)"
    using Cons.prems by (auto simp: on_add_image_def new_def replayed_def i macos_add_image_def Let_def
        split: option.splits)
  with Cons.IH [of "lib\<lparr>lib_registry := (lib_registry lib)\<lparr>pending := pending (lib_registry lib) @ new\<rparr>\<rparr>"] Cons.prems
  show ?case by (simp add: i [symmetric] split) (simp add: i)
qed (simp add: replayed_def)

lemma fold_entries_insert:
  "fst ` set (fold (\<lambda>(k, fp, _). entries_insert k fp) new es) = fst ` set es \<union> fst ` set new"
  "distinct (map fst es) \<Longrightarrow> distinct (map fst (fold (\<lambda>(k, fp, _). entries_insert k fp) new es))"
proof (induction new arbitrary: es)
  case (Cons x new)
  { case 1 show ?case using Cons.IH(1) by (cases x) simp }
  { case 2 then show ?case using Cons.IH(2) by (cases x) simp }
qed simp_all

lemma replayed_start: "(key, fp, m) \<in> set (replayed section_entries mem images) \<Longrightarrow> avma_start m = key"
  by (auto simp: replayed_def split: if_splits option.splits dest: build_image_start [OF sym])

lemma macos_end_batch_spec:
  assumes "reg_ok (lib\<lparr>lib_registry := reg\<rparr>)" "g_heap (lib_global lib) boxed = None"
    and "\<And>k fp m. (k, fp, m) \<in> set (pending (lib_registry lib)) \<Longrightarrow> avma_start m = k"
    and "distinct (map fst (pending (lib_registry lib)))"
    and "fst ` set (pending (lib_registry lib)) \<inter> avma_start ` set (listed lib) = {}"
    and reg: "lib_registry lib = reg\<lparr>batching := True, pending := new\<rparr>"
    and "macos_end_batch boxed lib = Some lib'"
  shows "reg_ok lib'" "set (listed lib') = set (listed lib) \<union> (\<lambda>(_, _, m). m) ` set new"
    "static_keys (lib_registry lib') = static_keys reg \<union> fst ` set new" "\<not> batching (lib_registry lib')"
    "pending (lib_registry lib') = []"
proof -
  note ok = reg_okD [OF assms(1), simplified]
  let ?mods = "map (\<lambda>(_, _, m). m) new"
  have start: "map avma_start ?mods = map fst new" using assms(3) reg by auto
  have adds: "map (\<lambda>(_, _, m). Add m) new = map Add ?mods" by auto
  have "reg_ok lib' \<and> set (listed lib') = set (listed lib) \<union> set ?mods \<and>
    static_keys (lib_registry lib') = static_keys reg \<union> fst ` set new \<and> \<not> batching (lib_registry lib') \<and>
    pending (lib_registry lib') = []"
  proof (cases "new = []")
    case True
    then have "lib' = lib\<lparr>lib_registry := reg\<lparr>batching := False, pending := []\<rparr>\<rparr>"
      using assms(7) reg by (simp add: macos_end_batch_def)
    with True assms(1) show ?thesis by (simp add: reg_ok_def eh_frames_ok_def static_keys_def)
  next
    case False
    with assms(7) reg obtain lib1 where w: "write_modules boxed (map Add ?mods) lib = Some lib1"
      and lib': "lib' = lib1\<lparr>lib_registry := reg\<lparr>batching := False, pending := [],
        static_mods := fold (\<lambda>(k, fp, _). entries_insert k fp) new (static_mods reg)\<rparr>\<rparr>"
      by (auto simp: macos_end_batch_def Let_def adds)
    have "avma_start ` set ?mods = fst ` set new" using arg_cong [OF start, of set] by (simp only: set_map)
    then have "history_ok (listed lib) (map Add ?mods)"
      using assms(4,5) reg by (intro history_ok_Add) (simp_all only: start, simp_all)
    note spec = write_modules_spec [OF ok(1) assms(2) this w]
    have l: "set (listed lib') = set (listed lib) \<union> set ?mods" unfolding lib' listed_registry spec(2) set_fold_Add ..
    have s: "static_keys (lib_registry lib') = static_keys reg \<union> fst ` set new"
      by (simp add: lib' static_keys_def fold_entries_insert)
    have "avma_start ` set (listed lib') = avma_start ` set (listed lib) \<union> fst ` set new"
      unfolding l image_Un \<open>avma_start ` set ?mods = fst ` set new\<close> ..
    then have "reg_ok lib'"
      using ok spec(1) assms(5) reg unfolding reg_ok_def s
      by (auto simp: lib' eh_frames_ok_def fold_entries_insert)
    with l s show ?thesis by (simp add: lib')
  qed
  then show "reg_ok lib'" "set (listed lib') = set (listed lib) \<union> (\<lambda>(_, _, m). m) ` set new"
    "static_keys (lib_registry lib') = static_keys reg \<union> fst ` set new" "\<not> batching (lib_registry lib')"
    "pending (lib_registry lib') = []" by auto
qed

text \<open>
  Installing the callbacks publishes every image that is already loaded, in one snapshot. From
  an idle registry, with images that have different keys and none at a listed module's
  start, the list afterwards is the old modules and those of the replayed images with unwind
  info; their keys are recorded for later removal; no batch is left open; and a second call
  changes nothing.
\<close>

theorem init_callbacks_publishes:
  assumes "reg_ok lib" "g_heap (lib_global lib) boxed = None" "pending (lib_registry lib) = []"
    and "distinct (map fst (replayed section_entries mem images))"
    and "fst ` set (replayed section_entries mem images) \<inter> avma_start ` set (listed lib) = {}"
    and "init_callbacks section_entries mem boxed images (False, lib) = Some (finished, lib')"
  shows "finished \<and> reg_ok lib' \<and>
    set (listed lib') = set (listed lib) \<union> (\<lambda>(_, _, m). m) ` set (replayed section_entries mem images) \<and>
    static_keys (lib_registry lib') = static_keys (lib_registry lib) \<union> fst ` set (replayed section_entries mem images) \<and>
    \<not> batching (lib_registry lib') \<and> pending (lib_registry lib') = [] \<and>
    (g_current (lib_global lib') = Some boxed \<or> lib_global lib' = lib_global lib) \<and>
    init_callbacks section_entries mem boxed' images' (finished, lib') = Some (finished, lib')"
proof -
  let ?new = "replayed section_entries mem images"
  let ?batch = "lib\<lparr>lib_registry := (lib_registry lib)\<lparr>batching := True, pending := ?new\<rparr>\<rparr>"
  have replay: "replay section_entries mem boxed images (macos_begin_batch lib) = Some ?batch"
    by (subst replay_batches) (simp_all add: macos_begin_batch_def assms(3))
  with assms(6) have f: "finished" and e: "macos_end_batch boxed ?batch = Some lib'"
    by (auto simp: init_callbacks_def)
  have "reg_ok (?batch\<lparr>lib_registry := lib_registry lib\<rparr>)" using assms(1) by (simp add: reg_ok_def)
  note spec = macos_end_batch_spec [OF this _ _ _ _ _ e, of ?new, simplified, OF assms(2) _ assms(4,5)]
  have start: "avma_start m = k" if "(k, fp, m) \<in> set ?new" for k fp m using that by (rule replayed_start)
  have "g_current (lib_global lib') = Some boxed \<or> lib_global lib' = lib_global lib"
    using e by (auto simp: macos_end_batch_def write_modules_def with_writer_def reclaim_def Let_def
        split: if_splits option.splits prod.splits)
  then show ?thesis using f spec [OF start] by (simp add: init_callbacks_def)
qed

section \<open>Witnesses\<close>

lemma build_image_total:
  assumes "text_segments mem header = [seg]"
    and "im_eh_frame (section_pass mem slide (header + SIZEOF_HEADER) (ncmds mem header) no_sections) \<noteq> None"
  obtains fp m where "build_image section_entries mem header slide = Some (seg_vmaddr seg + slide, fp, Some m)"
  using assms by (auto simp: build_image_def text_pass_eq text_segments_def Let_def)

lemma macos_add_image_total:
  "unat (lib_generation lib) + 3 < 2 ^ 64 \<Longrightarrow> \<exists>lib'. macos_add_image boxed key fp m lib = Some lib'"
  using write_modules_total [of lib "(if map_of (static_mods (lib_registry lib)) key \<noteq> None then [Remove key] else []) @ [Add m]" boxed]
  by (auto simp: macos_add_image_def Let_def)

lemma macos_add_image_writes:
  assumes "\<not> batching (lib_registry lib)" "macos_add_image boxed key fp m lib = Some lib'"
  shows "unat (lib_generation lib') \<le> unat (lib_generation lib) + 3"
    "p \<noteq> boxed \<Longrightarrow> g_heap (lib_global lib) p = None \<Longrightarrow> g_heap (lib_global lib') p = None"
  using assms by (auto simp: macos_add_image_def Let_def split: if_splits
      dest: write_modules_generation write_modules_heap)

lemma macos_remove_image_total:
  "unat (lib_generation lib) + 2 < 2 ^ 64 \<Longrightarrow> \<exists>lib'. macos_remove_image boxed key lib = Some lib'"
  using write_modules_total [of lib "[Remove key]" boxed] by (auto simp: macos_remove_image_def Let_def)

text \<open>An image at 0x1000 whose \<open>__TEXT\<close> segment holds an \<open>__eh_frame\<close> section of four bytes.\<close>

definition tiny_image :: memory where
  "tiny_image = (\<lambda>a. case map_of ([(0x10, 1), (0x20, 0x19), (0x24, 0x98), (0x39, 0x10), (0x40, 4), (0x60, 1), (0x89, 0x11), (0x90, 4)] @
       zip [0x28, 0x29, 0x2a, 0x2b, 0x2c, 0x2d] (bytes_of ''__TEXT'') @
       zip [0x68, 0x69, 0x6a, 0x6b, 0x6c, 0x6d, 0x6e, 0x6f, 0x70, 0x71] (bytes_of ''__eh_frame''))
     (a - 0x1000) of Some b \<Rightarrow> b | None \<Rightarrow> 0)"

lemma tiny_image_parts:
  "map seg_vmaddr (text_segments tiny_image 0x1000) = [0x1000]"
  "im_eh_frame (section_pass tiny_image 0 (0x1000 + SIZEOF_HEADER) (ncmds tiny_image 0x1000) no_sections) \<noteq> None"
proof -
  show "map seg_vmaddr (text_segments tiny_image 0x1000) = [0x1000]" by code_simp
  have one: "ncmds tiny_image 0x1000 = Suc 0" "cmd tiny_image (0x1000 + SIZEOF_HEADER) = LC_SEGMENT_64"
    "unat (seg_nsects (segment_at tiny_image (0x1000 + SIZEOF_HEADER))) = Suc 0" by code_simp+
  have names: "sectname (section_at tiny_image (0x1000 + SIZEOF_HEADER + SIZEOF_SEGMENT)) =
      bytes_of ''__eh_frame'' @ replicate 6 0" by code_simp
  have "sect_name_eq (bytes_of ''__eh_frame'' @ replicate 6 0) (bytes_of ''__eh_frame'')"
    "\<not> sect_name_eq (bytes_of ''__eh_frame'' @ replicate 6 0) (bytes_of ''__text'')"
    "\<not> sect_name_eq (bytes_of ''__eh_frame'' @ replicate 6 0) (bytes_of ''__unwind_info'')" by code_simp+
  then show "im_eh_frame (section_pass tiny_image 0 (0x1000 + SIZEOF_HEADER) (ncmds tiny_image 0x1000) no_sections) \<noteq> None"
    by (simp only: one section_pass.simps segment_step_def upt_rec [of 0] Let_def) (simp add: section_step_def names)
qed

lemma tiny_image_built:
  obtains fp m where "build_image section_entries tiny_image 0x1000 0 = Some (0x1000, fp, Some m)"
    "length (text_segments tiny_image 0x1000) = 1"
proof -
  from tiny_image_parts(1) obtain seg where "text_segments tiny_image 0x1000 = [seg]" "seg_vmaddr seg = 0x1000"
    by (auto simp: map_eq_Cons_conv)
  with build_image_total [OF this(1) tiny_image_parts(2), of section_entries] that show thesis by auto
qed

theorem image_unload_undoes_load_witness:
  "\<exists>lib1 lib2. on_add_image (\<lambda>_ _ _. [] :: unit Entry list) tiny_image 1 0x1000 0 empty_library = Some lib1 \<and>
     on_remove_image tiny_image 2 0x1000 0 lib1 = Some lib2 \<and> avma_start ` set (listed lib1) = {0x1000} \<and> listed lib2 = []"
proof -
  let ?se = "\<lambda>_ _ _. [] :: unit Entry list"
  obtain fp m where b: "build_image ?se tiny_image 0x1000 0 = Some (0x1000, fp, Some m)"
    and one: "length (text_segments tiny_image 0x1000) = 1" by (rule tiny_image_built)
  have idle: "\<not> batching (lib_registry (empty_library :: (unit, unit, ModuleUnwindDataInternal) Library))"
    by (simp add: empty_library_def registry_new_def)
  obtain lib1 where a: "macos_add_image 1 0x1000 fp m (empty_library :: (unit, unit, ModuleUnwindDataInternal) Library) = Some lib1"
    using macos_add_image_total [of empty_library 1 "0x1000" fp m] by auto
  then have add: "on_add_image ?se tiny_image 1 0x1000 0 empty_library = Some lib1" by (simp add: on_add_image_def b)
  note w = macos_add_image_writes [OF idle a]
  have key: "image_key tiny_image 0x1000 0 = Some 0x1000" by code_simp
  have "unat (lib_generation lib1) + 2 < 2 ^ 64" using w(1) by simp
  then obtain lib2 where remove: "on_remove_image tiny_image 2 0x1000 0 lib1 = Some lib2"
    using macos_remove_image_total [of lib1 2 "0x1000"] key by (auto simp: on_remove_image_def)
  have "g_heap (lib_global lib1) 2 = None" using w(2) by simp
  from image_unload_undoes_load [OF empty_library_ok _ idle _ one b _ add this remove]
  show ?thesis using add remove build_image_start [OF b] by auto
qed

theorem init_callbacks_publishes_witness:
  "\<exists>lib'. init_callbacks (\<lambda>_ _ _. [] :: unit Entry list) tiny_image 1 [(0x1000, 0)] (False, empty_library) = Some (True, lib') \<and>
     avma_start ` set (listed lib') = {0x1000} \<and> 0x1000 \<in> static_keys (lib_registry lib')"
proof -
  let ?se = "\<lambda>_ _ _. [] :: unit Entry list"
  let ?lib = "empty_library :: (unit, unit, ModuleUnwindDataInternal) Library"
  obtain fp m where b: "build_image ?se tiny_image 0x1000 0 = Some (0x1000, fp, Some m)" by (rule tiny_image_built)
  then have new: "replayed ?se tiny_image [(0x1000, 0)] = [(0x1000, fp, m)]" by (simp add: replayed_def)
  have "write_modules 1 [Add m] (?lib\<lparr>lib_registry := (lib_registry ?lib)\<lparr>batching := True, pending := [(0x1000, fp, m)]\<rparr>\<rparr>) \<noteq> None"
    by (rule write_modules_total) simp
  moreover have "replay ?se tiny_image 1 [(0x1000, 0)] (macos_begin_batch ?lib) =
      Some (?lib\<lparr>lib_registry := (lib_registry ?lib)\<lparr>batching := True, pending := [(0x1000, fp, m)]\<rparr>\<rparr>)"
    by (subst replay_batches) (simp_all add: macos_begin_batch_def new empty_library_def registry_new_def)
  ultimately obtain lib' where i: "init_callbacks ?se tiny_image 1 [(0x1000, 0)] (False, ?lib) = Some (True, lib')"
    unfolding init_callbacks_def by (auto simp: macos_end_batch_def simp del: replay.simps)
  have "pending (lib_registry ?lib) = []" by (simp add: empty_library_def registry_new_def)
  from init_callbacks_publishes [OF empty_library_ok _ this _ _ i] i new build_image_start [OF b] show ?thesis by auto
qed

end
