(* ===== verification/Api.thy ===== *)
theory Api
  imports Cursor Pe_Modules Macho_Modules
begin

text \<open>
  The C interface (\<^verbatim>\<open>src/lib.rs\<close>), the per-platform dispatch of the module registry
  (\<^verbatim>\<open>src/modules/mod.rs\<close>) and the thread-local stack bounds (\<^verbatim>\<open>src/stackbounds.rs\<close>). The state is all
  statics of the library together; what the operating system answers is a record. A null
  pointer argument is \<open>None\<close>, and the result of a call that panics or reads freed memory
  is \<open>None\<close>.
\<close>

section \<open>Targets\<close>

datatype Arch = X86_64 | Aarch64 | OtherArch
datatype Os = Linux | FreeBSD | MacOs | Windows | OtherOs

definition FRAMEHOP_SUPPORTED :: "Arch \<Rightarrow> Os \<Rightarrow> bool" where
  "FRAMEHOP_SUPPORTED arch os \<longleftrightarrow>
     arch = X86_64 \<and> (os = Linux \<or> os = FreeBSD \<or> os = MacOs \<or> os = Windows) \<or>
     arch = Aarch64 \<and> (os = Linux \<or> os = FreeBSD \<or> os = MacOs)"

definition fh_supported :: "Arch \<Rightarrow> Os \<Rightarrow> c_int" where
  "fh_supported arch os = (if FRAMEHOP_SUPPORTED arch os then 1 else 0)"

section \<open>The state of the library and the answers of the system\<close>

record ('rule, 'regs) World =
  w_lib :: "('rule, 'regs, ModuleUnwindDataInternal) Library"
  w_bounds :: "nat \<Rightarrow> u64 \<times> u64"
  w_trampoline :: "u64 option"
  w_callbacks :: bool

definition world_start :: "('rule, 'regs) World" where
  "world_start = \<lparr>w_lib = \<lparr>lib_registry = registry_new, lib_global = global_start, lib_generation = 0, lib_jit_failures = 0\<rparr>,
     w_bounds = (\<lambda>_. (0, 0)), w_trampoline = None, w_callbacks = False\<rparr>"

record 'g Host =
  h_arch :: Arch
  h_os :: Os
  h_boxed :: ptr
  h_section_entries :: "UnwindSectionType \<Rightarrow> bytes \<Rightarrow> BaseAddresses \<Rightarrow> 'g Entry list"
  h_counts :: "nat \<times> (nat \<times> u64 \<times> u64) list"
  h_elf :: ElfEnv
  h_objects :: "DlPhdrInfo list"
  h_win :: WinOs
  h_image_memory :: memory
  h_images :: "(u64 \<times> u64) list"
  h_code :: "u64 \<Rightarrow> u32"
  h_vdso :: "(u64 \<times> Phdr list) option"
  h_jit :: "'g JitGimli"

section \<open>Static modules on each platform\<close>

definition enumerate_static :: "'g Host \<Rightarrow> (u64 \<times> u64) list \<Rightarrow> ModuleUnwindDataInternal EnumResult option" where
  "enumerate_static host known =
     (if h_os host = Linux \<or> h_os host = FreeBSD
      then Some (elf_enumerate (h_section_entries host) (h_elf host) (h_objects host) known)
      else if h_os host = Windows
      then pe_enumerate (h_section_entries host) (ee_hash (h_elf host)) (h_win host) known
      else Some \<lparr>enum_current = [], new_modules = []\<rparr>)"

definition modules_refresh :: "'g Host \<Rightarrow> ('rule, 'regs) World \<Rightarrow> ('rule, 'regs) World option" where
  "modules_refresh host w =
     (if h_os host = MacOs then
        map_option (\<lambda>(finished, lib). w\<lparr>w_lib := lib, w_callbacks := finished\<rparr>)
          (init_callbacks (h_section_entries host) (h_image_memory host) (h_boxed host) (h_images host)
             (w_callbacks w, w_lib w))
      else
        map_option (\<lambda>lib. w\<lparr>w_lib := lib\<rparr>)
          (refresh (h_boxed host)
             (if h_os host = Linux \<or> h_os host = FreeBSD
              then elf_load_counts (fst (h_counts host)) (snd (h_counts host)) else None)
             (enumerate_static host) (w_lib w)))"

definition modules_init :: "'g Host \<Rightarrow> ('rule, 'regs) World \<Rightarrow> ('rule, 'regs) World option" where
  "modules_init host w =
     (let w1 = (if h_os host = Linux \<and> h_arch host = Aarch64
                then w\<lparr>w_trampoline := sigreturn_init (h_code host) (h_vdso host) (w_trampoline w)\<rparr> else w) in
      modules_refresh host w1)"

section \<open>Threads\<close>

definition stackbounds_current :: "nat \<Rightarrow> ('rule, 'regs) World \<Rightarrow> u64 \<times> u64" where
  "stackbounds_current thread w = w_bounds w thread"

definition register_current_thread :: "nat \<Rightarrow> u64 \<times> u64 \<Rightarrow> ('rule, 'regs) World \<Rightarrow> ('rule, 'regs) World" where
  "register_current_thread thread queried w = w\<lparr>w_bounds := (w_bounds w)(thread := queried)\<rparr>"

text \<open>An operation on the statics of \<open>state.rs\<close>.\<close>

definition on_global :: "(('rule, 'regs, ModuleUnwindDataInternal UnwinderInternal) Global \<Rightarrow>
    ('rule, 'regs, ModuleUnwindDataInternal UnwinderInternal) Global) \<Rightarrow> ('rule, 'regs) World \<Rightarrow> ('rule, 'regs) World" where
  "on_global f w = w\<lparr>w_lib := (w_lib w)\<lparr>lib_global := f (lib_global (w_lib w))\<rparr>\<rparr>"

abbreviation w_global :: "('rule, 'regs) World \<Rightarrow> ('rule, 'regs, ModuleUnwindDataInternal UnwinderInternal) Global" where
  "w_global w \<equiv> lib_global (w_lib w)"

section \<open>The mutating path\<close>

text \<open>The panic hook of \<open>fh_init\<close> only changes how a panic ends the process.\<close>

definition fh_init :: "'g Host \<Rightarrow> 'regs \<Rightarrow> nat \<Rightarrow> ('rule, 'regs) World \<Rightarrow> (c_int \<times> ('rule, 'regs) World) option" where
  "fh_init host zero_regs num_slots w =
     map_option (Pair 0) (modules_init host (on_global (state_init zero_regs num_slots) w))"

definition fh_thread_register :: "'regs \<Rightarrow> nat \<Rightarrow> u64 \<times> u64 \<Rightarrow> ('rule, 'regs) World \<Rightarrow> ('rule, 'regs) World" where
  "fh_thread_register zero_regs thread queried w =
     on_global (thread_registered zero_regs) (register_current_thread thread queried w)"

definition fh_modules_refresh :: "'g Host \<Rightarrow> ('rule, 'regs) World \<Rightarrow> ('rule, 'regs) World option" where
  "fh_modules_refresh host w = modules_refresh host w"

definition fh_jit_module_count :: "('rule, 'regs) World \<Rightarrow> nat" where
  "fh_jit_module_count w = jit_module_count (w_lib w)"

definition fh_jit_register_failures :: "('rule, 'regs) World \<Rightarrow> nat" where
  "fh_jit_register_failures w = jit_register_failures (w_lib w)"

definition fh_register_jit :: "'g Host \<Rightarrow> u64 \<Rightarrow> bytes \<Rightarrow> u64 \<Rightarrow> u64 \<Rightarrow> ('rule, 'regs) World \<Rightarrow>
    (c_int \<times> ('rule, 'regs) World) option" where
  "fh_register_jit host addr eh_frame text_lo text_hi w =
     map_option (\<lambda>(rc, lib). (rc, w\<lparr>w_lib := lib\<rparr>))
       (register_jit_eh_frame (h_jit host) (h_boxed host) addr eh_frame text_lo text_hi (w_lib w))"

definition fh_register_jit_auto :: "'g Host \<Rightarrow> u64 \<Rightarrow> bytes \<Rightarrow> ('rule, 'regs) World \<Rightarrow>
    (c_int \<times> ('rule, 'regs) World) option" where
  "fh_register_jit_auto host addr eh_frame w =
     map_option (\<lambda>(rc, lib). (rc, w\<lparr>w_lib := lib\<rparr>))
       (register_jit_eh_frame_auto (h_jit host) (h_boxed host) addr eh_frame (w_lib w))"

definition fh_deregister_jit :: "'g Host \<Rightarrow> u64 \<Rightarrow> ('rule, 'regs) World \<Rightarrow> ('rule, 'regs) World option" where
  "fh_deregister_jit host text_lo w =
     map_option (\<lambda>lib. w\<lparr>w_lib := lib\<rparr>) (deregister_jit (h_boxed host) text_lo (w_lib w))"

definition fh_deregister_jit_eh_frame :: "'g Host \<Rightarrow> u64 \<Rightarrow> ('rule, 'regs) World \<Rightarrow> ('rule, 'regs) World option" where
  "fh_deregister_jit_eh_frame host addr w =
     map_option (\<lambda>lib. w\<lparr>w_lib := lib\<rparr>) (deregister_jit_eh_frame (h_boxed host) addr (w_lib w))"

section \<open>The read path\<close>

text \<open>The context and cursor arguments are storage of the caller: \<open>Some\<close> is what it holds.\<close>

definition fh_context_from_ucontext :: "FhContext option \<Rightarrow> OsContext option \<Rightarrow> FhContext option" where
  "fh_context_from_ucontext ctx os_ctx = (case ctx of None \<Rightarrow> None | Some _ \<Rightarrow> Some (context_from_os os_ctx))"

definition fh_context_from_thread_state :: "((nat \<Rightarrow> u64) \<Rightarrow> FhContext \<Rightarrow> FhContext) \<Rightarrow> FhContext option \<Rightarrow>
    (nat \<Rightarrow> u64) option \<Rightarrow> FhContext option" where
  "fh_context_from_thread_state fill ctx ts =
     (case ctx of None \<Rightarrow> None | Some _ \<Rightarrow> Some (context_from_thread_state fill ts))"

text \<open>
  \<open>ops\<close> is the architecture, given the trampoline. The calls return the code, the cursor's storage
  afterwards and the new state.
\<close>

definition fh_cursor_init_bounds2 :: "(u64 option \<Rightarrow> ('rule, 'regs, ModuleUnwindDataInternal UnwinderInternal) CursorOps) \<Rightarrow>
    nat \<Rightarrow> FhCursor option \<Rightarrow> FhContext option \<Rightarrow> u64 \<Rightarrow> u64 \<Rightarrow> u64 \<Rightarrow> u64 \<Rightarrow> ('rule, 'regs) World \<Rightarrow>
    (c_int \<times> FhCursor option \<times> ('rule, 'regs) World) option" where
  "fh_cursor_init_bounds2 ops thread cur ctx lo hi lo2 hi2 w =
     (case (cur, ctx) of
        (Some _, Some c) \<Rightarrow>
          map_option (\<lambda>(rc, cur', g). (rc, Some cur', on_global (\<lambda>_. g) w))
            (cursor_init_bounds2 (ops (w_trampoline w)) (stackbounds_current thread w) c lo hi lo2 hi2 (w_global w))
      | _ \<Rightarrow> Some (- 100, cur, w))"

definition fh_cursor_init_bounds :: "(u64 option \<Rightarrow> ('rule, 'regs, ModuleUnwindDataInternal UnwinderInternal) CursorOps) \<Rightarrow>
    nat \<Rightarrow> FhCursor option \<Rightarrow> FhContext option \<Rightarrow> u64 \<Rightarrow> u64 \<Rightarrow> ('rule, 'regs) World \<Rightarrow>
    (c_int \<times> FhCursor option \<times> ('rule, 'regs) World) option" where
  "fh_cursor_init_bounds ops thread cur ctx lo hi w =
     (case (cur, ctx) of
        (Some _, Some c) \<Rightarrow>
          map_option (\<lambda>(rc, cur', g). (rc, Some cur', on_global (\<lambda>_. g) w))
            (cursor_init_bounds (ops (w_trampoline w)) (stackbounds_current thread w) c lo hi (w_global w))
      | _ \<Rightarrow> Some (- 100, cur, w))"

definition fh_cursor_init :: "(u64 option \<Rightarrow> ('rule, 'regs, ModuleUnwindDataInternal UnwinderInternal) CursorOps) \<Rightarrow>
    nat \<Rightarrow> FhCursor option \<Rightarrow> FhContext option \<Rightarrow> ('rule, 'regs) World \<Rightarrow>
    (c_int \<times> FhCursor option \<times> ('rule, 'regs) World) option" where
  "fh_cursor_init ops thread cur ctx w =
     (case (cur, ctx) of
        (Some _, Some c) \<Rightarrow>
          map_option (\<lambda>(rc, cur', g). (rc, Some cur', on_global (\<lambda>_. g) w))
            (cursor_init (ops (w_trampoline w)) (stackbounds_current thread w) c (w_global w))
      | _ \<Rightarrow> Some (- 100, cur, w))"

text \<open>Whether the two output pointers are null; the outputs are \<open>None\<close> when nothing is written.\<close>

definition fh_step :: "(u64 option \<Rightarrow> ('rule, 'regs, ModuleUnwindDataInternal UnwinderInternal) CursorOps) \<Rightarrow>
    (u64 \<Rightarrow> u64) \<Rightarrow> FhCursor option \<Rightarrow> bool \<Rightarrow> bool \<Rightarrow> ('rule, 'regs) World \<Rightarrow>
    (c_int \<times> (u64 \<times> u64) option \<times> ('rule, 'regs) World) option" where
  "fh_step ops mem cur ip_null sp_null w =
     (case cur of
        None \<Rightarrow> Some (- 100, None, w)
      | Some c \<Rightarrow>
          if ip_null \<or> sp_null then Some (- 100, None, w)
          else map_option (\<lambda>((rc, ip, sp), g). (rc, Some (ip, sp), on_global (\<lambda>_. g) w))
                 (step (ops (w_trampoline w)) mem c (w_global w)))"

definition fh_get_reg :: "(u64 option \<Rightarrow> ('rule, 'regs, ModuleUnwindDataInternal UnwinderInternal) CursorOps) \<Rightarrow>
    FhCursor option \<Rightarrow> bool \<Rightarrow> bool \<Rightarrow> ('rule, 'regs) World \<Rightarrow> (u64 \<times> u64) option" where
  "fh_get_reg ops cur ip_null sp_null w =
     (case cur of
        None \<Rightarrow> None
      | Some c \<Rightarrow> if ip_null \<or> sp_null then None else Some (get_reg (ops (w_trampoline w)) c (w_global w)))"

definition fh_cursor_fini :: "FhCursor option \<Rightarrow> ('rule, 'regs) World \<Rightarrow> FhCursor option \<times> ('rule, 'regs) World" where
  "fh_cursor_fini cur w =
     (case cur of
        None \<Rightarrow> (None, w)
      | Some c \<Rightarrow> (case cursor_fini c (w_global w) of (c', g) \<Rightarrow> (Some c', on_global (\<lambda>_. g) w)))"

section \<open>Unsupported architectures\<close>

text \<open>
  The stubs, by entry point: the code they return, \<open>None\<close> for a stub without a result. They take no
  state and leave the caller's storage alone.
\<close>

datatype EntryPoint =
    E_capture_context | E_init | E_thread_register | E_modules_refresh | E_jit_module_count
  | E_jit_register_failures | E_context_from_ucontext | E_context_from_thread_state | E_cursor_init
  | E_cursor_init_bounds | E_cursor_init_bounds2 | E_step | E_get_reg | E_cursor_fini | E_register_jit
  | E_register_jit_auto | E_deregister_jit | E_deregister_jit_eh_frame

fun api_stub :: "EntryPoint \<Rightarrow> c_int option" where
  "api_stub E_capture_context = None"
| "api_stub E_init = Some (- 1)"
| "api_stub E_thread_register = None"
| "api_stub E_modules_refresh = None"
| "api_stub E_jit_module_count = Some 0"
| "api_stub E_jit_register_failures = Some 0"
| "api_stub E_context_from_ucontext = None"
| "api_stub E_context_from_thread_state = None"
| "api_stub E_cursor_init = Some (- 1)"
| "api_stub E_cursor_init_bounds = Some (- 1)"
| "api_stub E_cursor_init_bounds2 = Some (- 1)"
| "api_stub E_step = Some (- 1)"
| "api_stub E_get_reg = None"
| "api_stub E_cursor_fini = None"
| "api_stub E_register_jit = Some (- 1)"
| "api_stub E_register_jit_auto = Some (- 1)"
| "api_stub E_deregister_jit = None"
| "api_stub E_deregister_jit_eh_frame = None"

section \<open>Sequences of calls\<close>

text \<open>The calls that change the state, in any order; dyld's callbacks are calls too.\<close>

datatype ApiCall =
    Init nat
  | ThreadRegister nat "u64 \<times> u64"
  | ModulesRefresh
  | AddImage u64 u64
  | RemoveImage u64 u64
  | RegisterJit u64 bytes u64 u64
  | RegisterJitAuto u64 bytes
  | DeregisterJit u64
  | DeregisterJitEhFrame u64
  | CursorInit nat "FhCursor option" "FhContext option"
  | CursorInitBounds nat "FhCursor option" "FhContext option" u64 u64
  | CursorInitBounds2 nat "FhCursor option" "FhContext option" u64 u64 u64 u64
  | Step "u64 \<Rightarrow> u64" "FhCursor option" bool bool
  | CursorFini "FhCursor option"

fun perform :: "(u64 option \<Rightarrow> ('rule, 'regs, ModuleUnwindDataInternal UnwinderInternal) CursorOps) \<Rightarrow> 'regs \<Rightarrow> 'g Host \<Rightarrow>
    ApiCall \<Rightarrow> ('rule, 'regs) World \<Rightarrow> ('rule, 'regs) World option" where
  "perform ops z host (Init n) w = map_option snd (fh_init host z n w)"
| "perform ops z host (ThreadRegister t b) w = Some (fh_thread_register z t b w)"
| "perform ops z host ModulesRefresh w = fh_modules_refresh host w"
| "perform ops z host (AddImage header slide) w = map_option (\<lambda>lib. w\<lparr>w_lib := lib\<rparr>)
     (on_add_image (h_section_entries host) (h_image_memory host) (h_boxed host) header slide (w_lib w))"
| "perform ops z host (RemoveImage header slide) w = map_option (\<lambda>lib. w\<lparr>w_lib := lib\<rparr>)
     (on_remove_image (h_image_memory host) (h_boxed host) header slide (w_lib w))"
| "perform ops z host (RegisterJit a bs lo hi) w = map_option snd (fh_register_jit host a bs lo hi w)"
| "perform ops z host (RegisterJitAuto a bs) w = map_option snd (fh_register_jit_auto host a bs w)"
| "perform ops z host (DeregisterJit lo) w = fh_deregister_jit host lo w"
| "perform ops z host (DeregisterJitEhFrame a) w = fh_deregister_jit_eh_frame host a w"
| "perform ops z host (CursorInit t cur ctx) w = map_option (snd \<circ> snd) (fh_cursor_init ops t cur ctx w)"
| "perform ops z host (CursorInitBounds t cur ctx lo hi) w =
     map_option (snd \<circ> snd) (fh_cursor_init_bounds ops t cur ctx lo hi w)"
| "perform ops z host (CursorInitBounds2 t cur ctx lo hi lo2 hi2) w =
     map_option (snd \<circ> snd) (fh_cursor_init_bounds2 ops t cur ctx lo hi lo2 hi2 w)"
| "perform ops z host (Step mem cur ip_null sp_null) w = map_option (snd \<circ> snd) (fh_step ops mem cur ip_null sp_null w)"
| "perform ops z host (CursorFini cur) w = Some (snd (fh_cursor_fini cur w))"

text \<open>
  What any history of calls can lead to. The system may answer differently at every call; the
  allocator gives an address that is not in use.
\<close>

inductive api_reachable :: "(u64 option \<Rightarrow> ('rule, 'regs, ModuleUnwindDataInternal UnwinderInternal) CursorOps) \<Rightarrow>
    'regs \<Rightarrow> 'g itself \<Rightarrow> ('rule, 'regs) World \<Rightarrow> bool" for ops z ty where
  api_start: "api_reachable ops z ty world_start"
| api_call: "api_reachable ops z ty w \<Longrightarrow> g_heap (w_global w) (h_boxed host) = None \<Longrightarrow>
    perform ops z (host :: 'g Host) call w = Some w' \<Longrightarrow> api_reachable ops z ty w'"

section \<open>Every call keeps the invariant of the walks\<close>

text \<open>A mutating call publishes at most one snapshot.\<close>

definition one_write :: "ptr \<Rightarrow> ('rule, 'regs, 'd) Library \<Rightarrow> ('rule, 'regs, 'd) Library \<Rightarrow> bool" where
  "one_write boxed lib lib' \<longleftrightarrow> lib_global lib' = lib_global lib \<or>
     (\<exists>changes lib0 lib1. lib_global lib0 = lib_global lib \<and> write_modules boxed changes lib0 = Some lib1 \<and>
        lib_global lib' = lib_global lib1)"

lemma one_write_same [intro]: "lib_global lib' = lib_global lib \<Longrightarrow> one_write boxed lib lib'"
  by (simp add: one_write_def)

lemma one_writeI [intro]:
  "write_modules boxed changes lib0 = Some lib1 \<Longrightarrow> lib_global lib0 = lib_global lib \<Longrightarrow>
     lib_global lib' = lib_global lib1 \<Longrightarrow> one_write boxed lib lib'"
  unfolding one_write_def by blast

lemma write_modules_inv:
  assumes "write_modules boxed changes lib = Some lib'" "walk_inv (lib_global lib)" "g_heap (lib_global lib) boxed = None"
  shows "walk_inv (lib_global lib')"
proof -
  from assms(1) obtain nu counter where start: "writer_start lib = Some (nu, counter)"
    by (auto simp: write_modules_def split: option.splits)
  define f where "f = (\<lambda>u. case apply_changes changes u counter of
      Some (u', counter') \<Rightarrow> (Some counter', u') | None \<Rightarrow> (None, u))"
  obtain r g where w: "with_writer max_known_code_address nu boxed f (lib_global lib) = (r, g)" by (rule prod.exhaust)
  have "lib_global lib' = g"
    using assms(1) w start by (cases r) (auto simp: write_modules_def f_def)
  with walk_inv_writer [OF assms(2,3) w] show ?thesis by simp
qed

lemma one_write_inv:
  "one_write boxed lib lib' \<Longrightarrow> walk_inv (lib_global lib) \<Longrightarrow> g_heap (lib_global lib) boxed = None \<Longrightarrow>
     walk_inv (lib_global lib')"
  unfolding one_write_def by (metis write_modules_inv)

lemma refresh_one_write: "refresh boxed counts scan lib = Some lib' \<Longrightarrow> one_write boxed lib lib'"
  by (auto simp: refresh_def Let_def split: if_splits option.splits)

lemma macos_end_batch_one_write: "macos_end_batch boxed lib = Some lib' \<Longrightarrow> one_write boxed lib lib'"
  by (auto simp: macos_end_batch_def Let_def split: if_splits)

lemma macos_add_image_one_write: "macos_add_image boxed key fp m lib = Some lib' \<Longrightarrow> one_write boxed lib lib'"
  by (auto simp: macos_add_image_def Let_def split: if_splits)

lemma macos_remove_image_one_write: "macos_remove_image boxed key lib = Some lib' \<Longrightarrow> one_write boxed lib lib'"
  by (auto simp: macos_remove_image_def Let_def split: if_splits)

lemma add_jit_module_one_write: "add_jit_module boxed key addr m lib = Some lib' \<Longrightarrow> one_write boxed lib lib'"
  by (auto simp: add_jit_module_def Let_def)

lemma remove_jit_locked_one_write: "remove_jit_locked boxed key lib = Some lib' \<Longrightarrow> one_write boxed lib lib'"
  by (auto simp: remove_jit_locked_def Let_def split: if_splits)

lemma note_fail_global: "lib_global (snd (note_fail rc lib)) = lib_global lib"
  by (simp add: note_fail_def)

lemma register_jit_one_write:
  "register_jit_eh_frame gi boxed addr bs lo hi lib = Some (rc, lib') \<Longrightarrow> one_write boxed lib lib'"
  by (auto simp: register_jit_eh_frame_def note_fail_def split: if_splits dest: add_jit_module_one_write)

lemma register_jit_auto_one_write:
  "register_jit_eh_frame_auto gi boxed addr bs lib = Some (rc, lib') \<Longrightarrow> one_write boxed lib lib'"
  by (auto simp: register_jit_eh_frame_auto_def note_fail_def split: if_splits option.splits
      dest: register_jit_one_write)

lemma init_callbacks_one_write:
  assumes "init_callbacks section_entries mem boxed images (finished, lib) = Some (finished', lib')"
  shows "one_write boxed lib lib'"
proof (cases finished)
  case False
  with assms obtain lib1 where r: "replay section_entries mem boxed images (macos_begin_batch lib) = Some lib1"
    "macos_end_batch boxed lib1 = Some lib'"
    by (auto simp: init_callbacks_def bind_eq_Some_conv)
  then have "lib_global lib1 = lib_global lib"
    by (subst (asm) replay_batches) (auto simp: macos_begin_batch_def)
  with macos_end_batch_one_write [OF r(2)] show ?thesis by (simp add: one_write_def)
qed (use assms in \<open>auto simp: init_callbacks_def\<close>)

lemma image_callbacks_one_write:
  "on_add_image section_entries mem boxed header slide lib = Some lib' \<Longrightarrow> one_write boxed lib lib'"
  "on_remove_image mem boxed header slide lib2 = Some lib3 \<Longrightarrow> one_write boxed lib2 lib3"
  by (auto simp: on_add_image_def on_remove_image_def split: if_splits option.splits prod.splits
      dest: macos_add_image_one_write macos_remove_image_one_write)

lemma modules_refresh_one_write:
  "modules_refresh host w = Some w' \<Longrightarrow> one_write (h_boxed host) (w_lib w) (w_lib w')"
  by (auto simp: modules_refresh_def split: if_splits dest: refresh_one_write init_callbacks_one_write)

lemma modules_init_one_write:
  "modules_init host w = Some w' \<Longrightarrow> one_write (h_boxed host) (w_lib w) (w_lib w')"
  by (auto simp: modules_init_def Let_def dest: modules_refresh_one_write split: if_splits)

lemma on_global_simps [simp]:
  "w_global (on_global f w) = f (w_global w)" "w_trampoline (on_global f w) = w_trampoline w"
  "w_bounds (on_global f w) = w_bounds w"
  by (simp_all add: on_global_def)

lemma fh_init_inv:
  assumes "walk_inv (w_global w)" "g_heap (w_global w) (h_boxed host) = None" "fh_init host z n w = Some (rc, w')"
  shows "walk_inv (w_global w')"
proof -
  have "walk_inv (state_init z n (w_global w))" "g_heap (state_init z n (w_global w)) = g_heap (w_global w)"
    using assms(1) by (auto simp: state_init_def ensure_slots_def dest: walk_inv_ensure_slots [of _ z])
  with assms modules_init_one_write [of host "on_global (state_init z n) w" w'] show ?thesis
    by (auto simp: fh_init_def dest: one_write_inv)
qed

lemma fh_cursor_init_unfold:
  "fh_cursor_init ops t cur ctx w = fh_cursor_init_bounds2 ops t cur ctx 0 0 0 0 w"
  "fh_cursor_init_bounds ops t cur ctx lo hi w = fh_cursor_init_bounds2 ops t cur ctx lo hi 0 0 w"
  by (simp_all add: fh_cursor_init_def fh_cursor_init_bounds_def fh_cursor_init_bounds2_def cursor_init_def
      cursor_init_bounds_def split: option.split)

lemma fh_cursor_init_inv:
  "walk_inv (w_global w) \<Longrightarrow> fh_cursor_init_bounds2 ops t cur ctx lo hi lo2 hi2 w = Some (rc, cur', w') \<Longrightarrow>
     walk_inv (w_global w')"
  by (auto simp: fh_cursor_init_bounds2_def split: option.splits dest: walk_inv_init)

lemma fh_step_inv:
  "walk_inv (w_global w) \<Longrightarrow> fh_step ops mem cur a b w = Some (rc, out, w') \<Longrightarrow> walk_inv (w_global w')"
  by (auto simp: fh_step_def split: option.splits if_splits dest: walk_inv_step)

lemma fh_cursor_fini_inv: "walk_inv (w_global w) \<Longrightarrow> walk_inv (w_global (snd (fh_cursor_fini cur w)))"
  using walk_inv_fini [of "w_global w" "the cur"] by (cases cur) (auto simp: fh_cursor_fini_def split: prod.splits)

lemma fh_thread_register_inv: "walk_inv (w_global w) \<Longrightarrow> walk_inv (w_global (fh_thread_register z t b w))"
  by (auto simp: fh_thread_register_def register_current_thread_def thread_registered_def Let_def
      intro: walk_inv_ensure_slots)

lemma fh_jit_inv:
  assumes "walk_inv (w_global w)" "g_heap (w_global w) (h_boxed host) = None"
  shows "fh_register_jit host a bs lo hi w = Some (rc, w') \<Longrightarrow> walk_inv (w_global w')"
    "fh_register_jit_auto host a bs w = Some (rc, w') \<Longrightarrow> walk_inv (w_global w')"
    "fh_deregister_jit host lo w = Some w' \<Longrightarrow> walk_inv (w_global w')"
    "fh_deregister_jit_eh_frame host a w = Some w' \<Longrightarrow> walk_inv (w_global w')"
  using assms
  by (auto simp: fh_register_jit_def fh_register_jit_auto_def fh_deregister_jit_def fh_deregister_jit_eh_frame_def
      deregister_jit_def deregister_jit_eh_frame_def remove_jit_module_def remove_jit_module_by_eh_frame_def
      split: option.splits
      dest!: register_jit_one_write register_jit_auto_one_write remove_jit_locked_one_write intro: one_write_inv)

lemma perform_inv:
  assumes "walk_inv (w_global w)" "g_heap (w_global w) (h_boxed host) = None" "perform ops z host call w = Some w'"
  shows "walk_inv (w_global w')"
  using assms
proof (cases call)
  case ModulesRefresh
  with assms show ?thesis
    by (auto simp: fh_modules_refresh_def dest!: modules_refresh_one_write intro: one_write_inv)
next
  case (AddImage header slide)
  with assms show ?thesis by (auto dest!: image_callbacks_one_write(1) intro: one_write_inv)
next
  case (RemoveImage header slide)
  with assms show ?thesis by (auto dest!: image_callbacks_one_write(2) intro: one_write_inv)
qed (auto simp: fh_cursor_init_unfold intro: fh_cursor_fini_inv fh_thread_register_inv
    dest: fh_init_inv fh_jit_inv fh_cursor_init_inv fh_step_inv)

lemma api_reachable_inv: "api_reachable ops z ty w \<Longrightarrow> walk_inv (w_global w)"
  by (induction rule: api_reachable.induct) (auto simp: world_start_def walk_inv_start dest: perform_inv)

section \<open>Properties\<close>

text \<open>
  C2: the read path is safe after any history of calls. Whatever sequence of initialisations, scans,
  image and JIT events, walks and releases came before, with any cursor bits the caller
  passes and whatever the system answered, starting a walk and stepping one have a result:
  neither reads through a snapshot that was freed; and the snapshot of every walk is allocated
  and held by its slot.
\<close>

theorem api_read_path_safe:
  assumes "api_reachable ops z TYPE('g) w"
  shows "fh_cursor_init_bounds2 ops t cur ctx lo hi lo2 hi2 w \<noteq> None \<and> fh_cursor_init ops t cur ctx w \<noteq> None \<and>
    fh_step ops mem cur ip_null sp_null w \<noteq> None \<and>
    (\<forall>s \<in> set (g_slots (w_global w)). \<forall>p. snapshot (slot_inner s) = Some p \<longrightarrow>
       slot_in_use s \<and> slot_hazard s = Some p \<and> g_heap (w_global w) p \<noteq> None)"
proof -
  note inv = api_reachable_inv [OF assms]
  have "slot_in_use s \<and> slot_hazard s = Some p \<and> g_heap (w_global w) p \<noteq> None"
    if "s \<in> set (g_slots (w_global w))" "snapshot (slot_inner s) = Some p" for s p
    using inv that by (auto simp: walk_inv_def slot_ok_def split: option.splits)
  with init_defined [OF inv] step_defined [OF inv] show ?thesis
    by (auto simp: fh_cursor_init_unfold fh_cursor_init_bounds2_def fh_step_def split: option.split)
qed

lemma map_update_same: "f (xs ! i) = y \<Longrightarrow> (map f xs)[i := y] = map f xs"
  by (metis list_update_id map_update)

lemma in_use_update:
  assumes "i < length (g_slots g)"
  shows "map slot_in_use (g_slots (update_slot i f g)) =
    (map slot_in_use (g_slots g))[i := slot_in_use (f (g_slots g ! i))]"
  using assms by (simp add: update_slot_def map_update)

text \<open>
  C30: what the code of a cursor initialisation says. A null pointer gives -100, a pool with every
  slot in use gives -1, a library with no module set published gives -2, and everything else
  succeeds: the code -3 never occurs. A failure takes no slot, and it leaves a dead cursor behind
  unless the cursor or context pointer was null.
\<close>

theorem fh_cursor_init_codes:
  assumes "api_reachable ops z TYPE('g) w"
    and "fh_cursor_init_bounds2 ops t cur ctx lo hi lo2 hi2 w = Some (rc, cur', w')"
  shows "rc = (if cur = None \<or> ctx = None then - 100
               else if \<forall>s \<in> set (g_slots (w_global w)). slot_in_use s then - 1
               else if g_current (w_global w) = None then - 2 else 0) \<and>
    (rc \<noteq> 0 \<longrightarrow> map slot_in_use (g_slots (w_global w')) = map slot_in_use (g_slots (w_global w)) \<and>
       cur' = (if rc = - 100 then cur else Some dead))"
proof (cases "cur = None \<or> ctx = None")
  case True
  with assms(2) show ?thesis by (auto simp: fh_cursor_init_bounds2_def split: option.splits)
next
  case False
  then obtain c x where c: "cur = Some c" "ctx = Some x" by auto

  show ?thesis using api_reachable_inv [OF assms(1)]
  proof (cases rule: cursor_init_cases [of "w_global w" "ops (w_trampoline w)" "stackbounds_current t w" x lo hi lo2 hi2])
    case exhausted
    with assms(2) c show ?thesis by (auto simp: fh_cursor_init_bounds2_def)
  next
    case (unpublished i)
    have same: "map slot_in_use (g_slots (update_slot i (\<lambda>s. s\<lparr>slot_seq := slot_seq s + 2\<rparr>) (w_global w))) =
        map slot_in_use (g_slots (w_global w))"
      using unpublished(1) by (simp add: in_use_update map_update_same)
    have "rc = - 2" "cur' = Some dead"
      "w_global w' = update_slot i (\<lambda>s. s\<lparr>slot_seq := slot_seq s + 2\<rparr>) (w_global w)"
      using assms(2) unpublished(4) c by (auto simp: fh_cursor_init_bounds2_def)
    moreover have "\<not> (\<forall>s \<in> set (g_slots (w_global w)). slot_in_use s)" using unpublished(1,2) by (meson nth_mem)
    ultimately show ?thesis using c unpublished(3) same by simp
  next
    case (started i p snap)
    have "rc = 0" using assms(2) started(5) c by (auto simp: fh_cursor_init_bounds2_def)
    moreover have "\<not> (\<forall>s \<in> set (g_slots (w_global w)). slot_in_use s)" using started(1,2) by (meson nth_mem)
    ultimately show ?thesis using c started(3) by simp
  qed
qed

lemma release_in_use:
  assumes "slot g i = Some s" "slot_seq s = n"
  shows "map slot_in_use (g_slots (release_slot i n g)) = (map slot_in_use (g_slots g))[i := False]"
  using assms by (auto simp: release_slot_def in_use_update slot_def split: if_splits)

context cursor_arch
begin

lemma walk_and_release:
  assumes "walk_inv g" "s0 \<in> set (g_slots g)" "\<not> slot_in_use s0" "g_current g \<noteq> None"
  obtains c g1 rc g2 where "cursor_init_bounds2 ops bounds ctx lo hi lo2 hi2 g = Some (0, c, g1)"
    "get_reg ops c g1 = (context_ip ctx, context_sp ctx)"
    "step ops mem c g1 = Some ((rc, context_ip ctx, context_sp ctx), g2)" "rc \<in> {0, 1}"
    "map slot_in_use (g_slots (snd (cursor_fini c g2))) = map slot_in_use (g_slots g)"
proof -
  from assms(1) obtain i p snap where
    st: "i < length (g_slots g)" "\<not> slot_in_use (g_slots g ! i)" "g_heap g p = Some snap"
    and init: "cursor_init_bounds2 ops bounds ctx lo hi lo2 hi2 g =
        Some (0, fresh_cursor i (slot_seq (g_slots g ! i) + 1),
          update_slot i (started_slot ops ctx (max_code_addr snap) p (read_windows bounds ctx lo hi lo2 hi2)) g)"
  proof (cases rule: cursor_init_cases [of g ops bounds ctx lo hi lo2 hi2])
    case (started i p snap)
    show thesis by (rule that [OF started(1,2,4,5)])
  qed (use assms in auto)
  define c where "c = fresh_cursor i (slot_seq (g_slots g ! i) + 1)"
  define g1 where "g1 = update_slot i (started_slot ops ctx (max_code_addr snap) p (read_windows bounds ctx lo hi lo2 hi2)) g"
  have i: "unat (cslot c) = i" "cslot c \<noteq> - 1" "magic c = CURSOR_MAGIC"
    using slot_index_small [OF _ st(1)] assms(1) by (simp_all add: c_def fresh_cursor_def walk_inv_def)
  note live = init_live [OF assms(1) init [folded c_def g1_def]]
  have use1: "map slot_in_use (g_slots g1) = (map slot_in_use (g_slots g))[i := True]"
    using st(1) by (simp add: g1_def in_use_update started_slot_def)
  obtain rc inner' s g2 where step: "step ops mem c g1 = Some ((rc, context_ip ctx, context_sp ctx), g2)" "rc \<in> {0, 1}"
    and s: "slot g1 i = Some s" "g2 = update_slot i (\<lambda>s. s\<lparr>slot_inner := inner'\<rparr>) g1"
    using walk_inv_init [OF assms(1) init [folded c_def g1_def]]
  proof (cases rule: step_cases [of g1 c ops mem])
    case (advanced s p snap rc inner')
    then show thesis using that [of rc _ s inner'] live(2) advance_rc [OF advanced(6)] i(1)
      by (auto simp: get_reg_def)
  qed (use live in auto)
  have len: "i < length (g_slots g1)" using st(1) by (simp add: g1_def)
  have "slot_in_use (s\<lparr>slot_inner := inner'\<rparr>) = slot_in_use s" by simp
  moreover have "slot_in_use s" using s(1) len st(1) by (auto simp: slot_def g1_def update_slot_def started_slot_def)
  ultimately have use2: "map slot_in_use (g_slots g2) = (map slot_in_use (g_slots g))[i := True]"
    using s len st(1) by (simp add: in_use_update use1 slot_def split: if_splits)
  have "slot_seq s = nonce c" "slot g2 i = Some (s\<lparr>slot_inner := inner'\<rparr>)"
    using live(1) s len i(1) by (auto simp: is_live_iff slot_def update_slot_def)
  then have "map slot_in_use (g_slots (snd (cursor_fini c g2))) = (map slot_in_use (g_slots g))[i := False]"
    using i release_in_use [of g2 i "s\<lparr>slot_inner := inner'\<rparr>" "nonce c"] by (simp add: cursor_fini_def use2)
  also have "\<dots> = map slot_in_use (g_slots g)" using st(2) by (simp add: map_update_same)
  finally show thesis using that [OF init [folded c_def g1_def] live(2) step] by simp
qed

end

text \<open>
  C29: walks can always be started, and give back what they take. After any history, when a module
  set is published and a slot is free, initialising a cursor over a context succeeds, the cursor
  stands on the context's frame, stepping outputs that frame with a code of zero or one, and
  releasing the cursor leaves exactly the slots in use that were in use before.
\<close>

theorem api_walk_succeeds:
  assumes "api_reachable (\<lambda>_. x86_cursor_ops impl) z TYPE('g) w" "s \<in> set (g_slots (w_global w))" "\<not> slot_in_use s"
    and "g_current (w_global w) \<noteq> None"
  shows "\<exists>c w1 rc w2. fh_cursor_init (\<lambda>_. x86_cursor_ops impl) t (Some junk) (Some ctx) w = Some (0, Some c, w1) \<and>
    fh_get_reg (\<lambda>_. x86_cursor_ops impl) (Some c) False False w1 = Some (context_ip ctx, context_sp ctx) \<and>
    fh_step (\<lambda>_. x86_cursor_ops impl) mem (Some c) False False w1 = Some (rc, Some (context_ip ctx, context_sp ctx), w2) \<and>
    rc \<in> {0, 1} \<and>
    map slot_in_use (g_slots (w_global (snd (fh_cursor_fini (Some c) w2)))) = map slot_in_use (g_slots (w_global w))"
proof -
  obtain c g1 rc g2 where walk:
    "cursor_init_bounds2 (x86_cursor_ops impl) (stackbounds_current t w) ctx 0 0 0 0 (w_global w) = Some (0, c, g1)"
    "get_reg (x86_cursor_ops impl) c g1 = (context_ip ctx, context_sp ctx)"
    "step (x86_cursor_ops impl) mem c g1 = Some ((rc, context_ip ctx, context_sp ctx), g2)" "rc \<in> {0, 1}"
    "map slot_in_use (g_slots (snd (cursor_fini c g2))) = map slot_in_use (g_slots (w_global w))"
    by (rule x86_cursor.walk_and_release [OF api_reachable_inv [OF assms(1)] assms(2-4)])
  show ?thesis
    by (rule exI [of _ c], rule exI [of _ "on_global (\<lambda>_. g1) w"], rule exI [of _ rc],
        rule exI [of _ "on_global (\<lambda>_. g2) (on_global (\<lambda>_. g1) w)"])
      (use walk in \<open>auto simp: fh_cursor_init_unfold fh_cursor_init_bounds2_def fh_get_reg_def fh_step_def
         fh_cursor_fini_def split: prod.split\<close>)
qed

section \<open>Witnesses\<close>

lemma write_modules_published:
  "write_modules boxed changes lib = Some lib' \<Longrightarrow>
     g_current (lib_global lib') = Some boxed \<and> g_slots (lib_global lib') = g_slots (lib_global lib)"
  by (auto simp: write_modules_def with_writer_def reclaim_def Let_def split: option.splits prod.splits)

lemma refresh_published:
  "refresh boxed None scan lib = Some lib' \<Longrightarrow> scan (static_mods (lib_registry lib)) = Some res \<Longrightarrow>
     new_modules res \<noteq> [] \<Longrightarrow>
     g_current (lib_global lib') = Some boxed \<and> g_slots (lib_global lib') = g_slots (lib_global lib)"
  by (auto simp: refresh_def Let_def split: if_splits dest: write_modules_published)

text \<open>A Linux host with one loaded object.\<close>

definition tiny_host :: "unit Host" where
  "tiny_host = \<lparr>h_arch = X86_64, h_os = Linux, h_boxed = 1, h_section_entries = (\<lambda>_ _ _. []), h_counts = (0, []),
     h_elf = tiny_env, h_objects = [tiny_object],
     h_win = \<lparr>win_enum = (\<lambda>_ _. None), win_pin = (\<lambda>_. None), win_info = (\<lambda>_. None), win_mem = (\<lambda>_. 0)\<rparr>,
     h_image_memory = (\<lambda>_. 0), h_images = [], h_code = (\<lambda>_. 0), h_vdso = None, h_jit = one_fde\<rparr>"

lemma tiny_host_init:
  obtains w where "fh_init tiny_host z 0 world_start = Some (0, w)" "g_current (w_global w) \<noteq> None"
    "slot_new z \<in> set (g_slots (w_global w))"
proof -
  let ?w = "on_global (state_init z 0) world_start :: ('a, 'b) World"
  define res where "res = elf_enumerate (\<lambda>_ _ _. [] :: unit Entry list) tiny_env [tiny_object] []"
  have scan: "enumerate_static tiny_host (static_mods (lib_registry (w_lib ?w))) = Some res"
    by (simp add: enumerate_static_def tiny_host_def on_global_def world_start_def registry_new_def res_def)
  have "map (avma_start \<circ> snd) (new_modules (elf_enumerate (\<lambda>_ _ _. [] :: unit Entry list) tiny_env [tiny_object] [])) = [0x400000]"
    by code_simp
  then have new: "length (new_modules res) = 1" unfolding res_def by (metis length_map length_Cons list.size(3) One_nat_def)
  obtain lib where lib: "refresh 1 None (enumerate_static tiny_host) (w_lib ?w) = Some lib"
    using refresh_total [of "enumerate_static tiny_host" "w_lib ?w" res 1] scan new by (auto simp: on_global_def world_start_def registry_new_def)
  note pub = refresh_published [OF lib scan]
  have "grow_pool z 16 [] = replicate 16 (slot_new z :: ('a, 'b) Slot)"
    by (subst grow_pool.simps, subst grow_pool.simps) (simp add: pool_sizes)
  then have slots: "g_slots (lib_global (w_lib ?w)) = replicate 16 (slot_new z)"
    by (simp add: world_start_def state_init_def ensure_slots_def global_start_def DEFAULT_SLOTS_def)
  have counts: "(if h_os tiny_host = Linux \<or> h_os tiny_host = FreeBSD
      then elf_load_counts (fst (h_counts tiny_host)) (snd (h_counts tiny_host)) else None) = None"
    by (simp add: tiny_host_def elf_load_counts_def)
  have host: "h_os tiny_host = Linux" "h_arch tiny_host = X86_64" "h_boxed tiny_host = 1"
    by (simp_all add: tiny_host_def)
  have "modules_init tiny_host ?w = Some (?w\<lparr>w_lib := lib\<rparr>)"
    using lib counts host by (simp add: modules_init_def modules_refresh_def)
  then have "fh_init tiny_host z 0 world_start = Some (0, ?w\<lparr>w_lib := lib\<rparr>)" by (simp add: fh_init_def)
  moreover have "new_modules res \<noteq> []" using new by auto
  ultimately show thesis using that pub slots by auto
qed

lemma tiny_world:
  fixes z :: 'regs and ops :: "u64 option \<Rightarrow> ('rule, 'regs, ModuleUnwindDataInternal UnwinderInternal) CursorOps"
  obtains w where "api_reachable ops z TYPE(unit) w" "g_current (w_global w) \<noteq> None"
    "slot_new z \<in> set (g_slots (w_global w))" "\<not> slot_in_use (slot_new z :: ('rule, 'regs) Slot)"
proof -
  obtain w :: "('rule, 'regs) World" where
    w: "fh_init tiny_host z 0 world_start = Some (0, w)" "g_current (w_global w) \<noteq> None"
    "slot_new z \<in> set (g_slots (w_global w))" by (rule tiny_host_init)
  have "perform ops z tiny_host (Init 0) world_start = Some w" using w(1) by simp
  moreover have "g_heap (w_global world_start) (h_boxed tiny_host) = None"
    by (simp add: world_start_def global_start_def)
  ultimately have "api_reachable ops z TYPE(unit) w" by (metis api_call [OF api_start])
  then show thesis using that w by (simp add: slot_new_def)
qed

definition tiny_context :: FhContext where
  "tiny_context = \<lparr>ctx_r = [0x400010, 16, 32, 0, 0]\<rparr>"

definition no_impl :: "(ModuleUnwindDataInternal, UnwindRuleX86_64, UnwindRegsX86_64, unit) callback_fn" where
  "no_impl m address rel regs read = (Inl (), regs)"

theorem api_read_path_safe_witness:
  "\<exists>w. g_current (w_global w) \<noteq> None \<and>
     fh_step (\<lambda>_. x86_cursor_ops no_impl) (\<lambda>_. 0) (Some (fresh_cursor 3 9)) False False w \<noteq> None"
proof -
  obtain w where w: "api_reachable (\<lambda>_. x86_cursor_ops no_impl) (x86_new 0 0 0) TYPE(unit) w" "g_current (w_global w) \<noteq> None"
    by (rule tiny_world)
  from api_read_path_safe [OF w(1)] w(2) show ?thesis by blast
qed

theorem fh_cursor_init_codes_witness:
  "fh_cursor_init_bounds2 (\<lambda>_. x86_cursor_ops no_impl) 0 (Some dead) (Some tiny_context) 0 0 0 0 world_start =
     Some (- 1, Some dead, world_start)"
proof -
  have "fh_cursor_init_bounds2 (\<lambda>_. x86_cursor_ops no_impl) 0 (Some dead) (Some tiny_context) 0 0 0 0 world_start \<noteq> None"
    by (simp add: fh_cursor_init_bounds2_def cursor_init_bounds2_def claim_slot_def world_start_def global_start_def)
  then obtain rc cur' w' where r: "fh_cursor_init_bounds2 (\<lambda>_. x86_cursor_ops no_impl) 0 (Some dead) (Some tiny_context)
      0 0 0 0 world_start = Some (rc, cur', w')" by auto
  from fh_cursor_init_codes [OF api_start [where ty = "TYPE(unit)"] r] have "rc = - 1" "cur' = Some dead"
    by (simp_all add: world_start_def global_start_def)
  moreover have "w' = world_start"
    using r by (auto simp: fh_cursor_init_bounds2_def cursor_init_bounds2_def claim_slot_def world_start_def
        global_start_def on_global_def)
  ultimately show ?thesis using r by simp
qed

theorem api_walk_succeeds_witness:
  "\<exists>w c w1. fh_cursor_init (\<lambda>_. x86_cursor_ops no_impl) 0 (Some dead) (Some tiny_context) w = Some (0, Some c, w1) \<and>
     fh_get_reg (\<lambda>_. x86_cursor_ops no_impl) (Some c) False False w1 = Some (0x400010, 16)"
proof -
  obtain w where w: "api_reachable (\<lambda>_. x86_cursor_ops no_impl) (x86_new 0 0 0) TYPE(unit) w"
    "g_current (w_global w) \<noteq> None" "slot_new (x86_new 0 0 0) \<in> set (g_slots (w_global w))"
    "\<not> slot_in_use (slot_new (x86_new 0 0 0) :: (UnwindRuleX86_64, UnwindRegsX86_64) Slot)"
    by (rule tiny_world)
  from api_walk_succeeds [OF w(1,3,4,2), of 0 dead tiny_context "\<lambda>_. 0"] show ?thesis
    by (auto simp: tiny_context_def context_ip_def context_sp_def)
qed

end
