(* ===== verification/Spec2Isabelle.thy ===== *)
theory Spec2Isabelle
  imports A64_Arch X86_Caching Walk Api
begin

text \<open>
  A verification library for framehopunwind, a stack unwinder with a C interface: the crate itself
  (\<^verbatim>\<open>src/src/\<close>) and the framehop library it is built on (\<^verbatim>\<open>src/vendor/framehop/src/\<close>).

  \<^bold>\<open>The program.\<close> A caller captures registers, initialises a cursor on them and steps it; each step
  outputs a frame and moves to its caller. The read path runs in signal handlers: it takes no lock
  and allocates nothing. It claims a slot of a fixed pool (\<^verbatim>\<open>state.rs\<close>), protects the published
  snapshot of the module list with a hazard pointer in the slot, and unwinds with framehop: find
  the module of the address, look for a cached rule, otherwise let the module's unwind data decide,
  execute the rule on the registers and the stack. The mutating path (\<^verbatim>\<open>modules/\<close>) scans loaded objects
  and registers JIT code, and publishes each change as a new snapshot while walks go on.

  \<^bold>\<open>The theories\<close>, each after those it builds on, with the source it models:

  \<^item> \<open>Prelude\<close>: words with checked and saturating arithmetic, conversions, bytes, binary search,
    result values; the collections \<open>checked_simps\<close> and the generic lemmas the components share.
  \<^item> \<open>X86_Regs\<close>, \<open>Core_Types\<close>, \<open>Unwind_Rule\<close>, \<open>X86_Rule\<close>, \<open>A64_Rule\<close>: registers (\<^verbatim>\<open>unwindregs.rs\<close>), the encoding of
    a pop order (\<^verbatim>\<open>register_ordering.rs\<close>), frame addresses and errors, and the execution of unwind rules on
    both architectures (\<^verbatim>\<open>x86_64/unwind_rule.rs\<close>, \<^verbatim>\<open>aarch64/unwind_rule.rs\<close>). The trait \<open>UnwindRule\<close> is a
    locale of progress laws, interpreted for both. Shown: what each step reads and leaves, that it
    never panics on a rule framehop builds, that the encoding is a bijection on pop orders, that
    chains of frames move up the stack and are bounded, and frame-pointer walks.
  \<^item> \<open>Dwarf\<close>, \<open>X86_Dwarf\<close>, \<open>A64_Dwarf\<close>: CFA rules and expressions, the FDE index, and the translation of
    DWARF rows into cacheable rules, which is shown equal to evaluating the row.
  \<^item> \<open>Module_List\<close>, \<open>Rule_Cache\<close>, \<open>Unwinder\<close>: the chunked module list, as a refinement of a sorted list
    (locale \<open>module_store\<close>); the rule cache (locale \<open>unwind_cache\<close>); \<open>with_cache\<close>, the generation counter as
    interleaved steps, the iterator, and the choice of unwind data for a module. Shown: lookup
    finds the module that contains an address, and caching never changes a result where the module
    and the address determine the rule.
  \<^item> \<open>Instruction_Analysis\<close>, \<open>X86_Analysis\<close>, \<open>A64_Insn\<close>, \<open>A64_Epilogue\<close>, \<open>A64_Prologue\<close>, \<open>A64_Analysis\<close>: the detection
    of prologues and epilogues from the bytes of a function (\<^verbatim>\<open>instruction_analysis.rs\<close> and
    \<^verbatim>\<open>instruction_analysis/\<close> of each architecture). A small reference semantics of the instructions a
    compiler emits there is part of the theories. Shown: on such code the detected rule gives the
    state the processor reaches when it runs the epilogue, or had when it entered the prologue.
  \<^item> \<open>Compact_Unwind\<close>, \<open>X86_Macho\<close>, \<open>A64_Macho\<close>: Mach-O compact unwind info (\<^verbatim>\<open>macho.rs\<close> and one per
    architecture), for an architecture that satisfies the locale \<open>compact_unwinding\<close>. Shown: what the
    rule of an opcode restores, that analysis comes before opcodes in the topmost frame, the stub
    helper, that callers' frames are never analysed, and that the lookup never panics.
  \<^item> \<open>Pe_Unwind\<close>: the unwind codes of PE images (\<^verbatim>\<open>pe.rs\<close> and one per architecture). Shown: the
    cacheable rule agrees with interpreting the codes, and the loop over chained infos ends when the
    chain does.
  \<^item> \<open>X86_Arch\<close>, \<open>A64_Arch\<close>: what \<^verbatim>\<open>arch.rs\<close> puts together, the three kinds of unwind data under
    \<open>unwind_frame_impl\<close>. Shown: a whole session of module changes and unwinds never panics, and looking up
    a rule always returns.
  \<^item> \<open>X86_Caching\<close>: sessions over real DWARF data through one cache. Shown: the cache changes no result
    unless evaluating a row that has no rule fails on a frame's registers or stack, and that it may
    then (\<open>failed_evaluation_stays_cached\<close>).
  \<^item> \<open>Hazard\<close>, \<open>State\<close>: the snapshot protocol of \<^verbatim>\<open>state.rs\<close>, once as a step relation over all interleavings of
    readers and a writer (no use after free, exclusive slots), once as sequential operations on
    the statics, which the components above call.
  \<^item> \<open>Platform\<close>: contexts and their capture (\<^verbatim>\<open>arch.rs\<close>, \<^verbatim>\<open>capture.rs\<close>), stack bounds (\<^verbatim>\<open>stackbounds.rs\<close>) and the
    signal trampoline of aarch64 Linux (\<^verbatim>\<open>sigreturn.rs\<close>).
  \<^item> \<open>Cursor\<close>: \<^verbatim>\<open>cursor.rs\<close> on the state of \<open>State\<close>, for any architecture that satisfies the locale
    \<open>cursor_arch\<close>. Every sequence of calls keeps the invariant \<open>walk_inv\<close>: the snapshot of a walk is
    allocated and held by its slot.
  \<^item> \<open>Registry\<close>: \<^verbatim>\<open>modules/mod.rs\<close> and \<^verbatim>\<open>modules/jit.rs\<close>; the invariant \<open>reg_ok\<close> ties the registry's maps to the
    published list. The locale \<open>module_scan\<close> is what \<open>refresh\<close> relies on from a platform's scan.
  \<^item> \<open>Elf_Modules\<close>, \<open>Pe_Modules\<close>, \<open>Macho_Modules\<close>: \<^verbatim>\<open>modules/elf.rs\<close>, \<^verbatim>\<open>modules/pe.rs\<close>, \<^verbatim>\<open>modules/macho.rs\<close>, the parsing of
    images in memory and the modules built from them; the first two interpret \<open>module_scan\<close>, the
    third follows dyld's events. Shown: sections lie where they are mapped and inside the image,
    and the published list follows what is loaded.
  \<^item> \<open>Api\<close>: \<^verbatim>\<open>lib.rs\<close>, the dispatch over the platforms, and the histories of calls (\<open>api_reachable\<close>). Shown:
    after any history the read path has a result, what the codes of an initialisation mean, and
    that a walk gives back its slot.
  \<^item> \<open>Walk\<close>: the loop a caller runs over a cursor, and a reference walk that has no cursor, slot, snapshot
    or cache; the locale \<open>walker\<close> is what an architecture owes, interpreted for both.
  \<^item> This theory: the loop gives what the reference walk gives, on x86_64 over DWARF data and on
    aarch64 with signal frames, and a complete backtrace over frame pointers.

  \<^bold>\<open>Conventions.\<close> Machine integers are words of their width; \<open>+\<close> wraps as in the release build, and checked
  or saturating operations are written as such. Errors are the left of a sum, a panic or a read of
  memory that is not allocated is \<open>None\<close> (the error \<open>Panicked\<close> in rule execution, \<open>CuiPanicked\<close> and \<open>PePanicked\<close>
  in the unwind data, where \<open>PeDiverges\<close> is a loop that does not end). A null pointer is \<open>None\<close> or
  the address zero. Stack memory is a function from addresses that may fail; image memory is a
  total function. A hash map that is iterated is the list of its entries.

  \<^bold>\<open>Loops and bounds.\<close> Loops are structural or have a measure: the pool grows until it has the slots
  asked for or 64 chunks, the handle buffer of the PE scan is tried at most eight times, load
  commands and section headers are counted by their headers. The loop over the chained infos of a PE
  function may not end: it is a partial function with \<open>None\<close> for not returning, and the safety theorem
  proves that it returns when each info chains to one further on. The only fuel is that of \<open>backtrace\<close>,
  and the theorem says how much is enough. DWARF expressions that do not end are excluded by the
  parameter that steps them.

  \<^bold>\<open>Parameters.\<close> gimli (section entries, rows, expression steps), the crates \<^verbatim>\<open>macho_unwind_info\<close> (functions
  and their decoded opcodes) and \<^verbatim>\<open>pe_unwind_info\<close> (function tables, unwind infos, the instructions of an
  epilog), the answers of the operating system
  and its loader, the allocator's next address, the algorithm of \<open>DefaultHasher\<close> in \<open>fingerprint_of\<close>, and the lossy
  conversion of names.

  \<^bold>\<open>Not modelled.\<close> The panic hook of \<open>fh_init\<close>, Debug formatting, conversions between error types and their
  messages, the wrapper types of framehop that forward every call, and the allocation policies of
  its caches, which only choose where a cache lives. The bytes of a loaded object are what its memory
  held when it was scanned; that the mapping outlives the walks that use it is an assumption of the
  code (\<open>Bytes\<close> in \<^verbatim>\<open>state.rs\<close>).
\<close>

section \<open>Frame pointers\<close>

text \<open>The reference walk over a list of frame records outputs one frame per record and ends.\<close>

lemma reference_walk_records:
  fixes impl :: "('d, UnwindRuleX86_64, UnwindRegsX86_64, 'e) callback_fn"
  assumes det: "rule_determined fallback_rule_x86 impl rule_of"
  shows "frame_records read (x86_bp regs) frames \<Longrightarrow> last (x86_bp regs # map fst frames) = 0 \<Longrightarrow>
    frames = [] \<or> x86_sp regs < x86_bp regs + 16 \<Longrightarrow>
    \<forall>a \<in> set (address_for_lookup address # map (\<lambda>(_, ra). ra - 1) frames).
      rule_for fallback_rule_x86 rule_of (modules u) a = Some UnwindRuleX86_64.UseFramePointer \<Longrightarrow>
    reference_walk (x86_cursor_ops impl) (without_cache exec_x86 fallback_rule_x86 u impl) read (Suc (length frames))
        address ip regs =
      (zip (ip # map snd frames) (x86_sp regs # map (\<lambda>bp. bp + 16) (butlast (x86_bp regs # map fst frames))), 0)"
proof (induction frames arbitrary: address ip regs)
  case Nil
  then have "exec_x86 UnwindRuleX86_64.UseFramePointer (\<not> is_return_address address) regs read = (Inr None, regs)"
    by (simp add: exec_x86_def)
  with without_cache_rule [OF rule_determined_at [OF det], of u address] Nil.prems(4) show ?case
    by (simp add: next_frame_def x86_cursor_ops_def exec_rule_def not_interrupted_def)
next
  case (Cons frame frames)
  obtain caller_bp ra where frame: "frame = (caller_bp, ra)" by fastforce
  define regs1 where "regs1 = x86_set_bp caller_bp (x86_set_sp (x86_bp regs + 16) (x86_set_ip ra regs))"
  have exec: "exec_x86 UnwindRuleX86_64.UseFramePointer (\<not> is_return_address address) regs read = (Inr (Some ra), regs1)"
    unfolding regs1_def using Cons.prems(1,3) frame by (intro exec_x86_use_frame_pointer) auto
  have ra: "ra \<noteq> 0" using Cons.prems(1) frame by simp
  have next_f: "next_frame (x86_cursor_ops impl) (without_cache exec_x86 fallback_rule_x86 u impl) read address ip regs =
      Some (ReturnAddress ra, ra, regs1)"
    using without_cache_rule [OF rule_determined_at [OF det], of u address] Cons.prems(4) exec ra
    by (simp add: next_frame_def x86_cursor_ops_def exec_rule_def not_interrupted_def)
  have r1: "x86_bp regs1 = caller_bp" "x86_sp regs1 = x86_bp regs + 16" by (simp_all add: regs1_def)
  have rec: "frame_records read (x86_bp regs1) frames" "last (x86_bp regs1 # map fst frames) = 0"
    using Cons.prems(1,2) frame r1 by simp_all
  have below: "frames = [] \<or> x86_sp regs1 < x86_bp regs1 + 16"
  proof (cases frames)
    case (Cons f fs)
    then have "unat caller_bp + 16 < 2 ^ 64" "x86_bp regs < caller_bp" "unat (x86_bp regs) + 16 < 2 ^ 64"
      using rec(1) Cons.prems(1) frame r1 by (cases f; simp)+
    then show ?thesis unfolding r1 by (simp add: word_less_nat_alt unat_word_ariths)
  qed simp
  have rules: "\<forall>a \<in> set (address_for_lookup (ReturnAddress ra) # map (\<lambda>(_, ra). ra - 1) frames).
      rule_for fallback_rule_x86 rule_of (modules u) a = Some UnwindRuleX86_64.UseFramePointer"
    using Cons.prems(4) frame by simp
  have sp: "op_sp (x86_cursor_ops impl) = x86_sp" by (simp add: x86_cursor_ops_def)
  show ?case using next_f Cons.IH [OF rec below rules] frame r1 sp by simp
qed

lemma along_walk_all: "(\<And>address regs. P address regs) \<Longrightarrow> along_walk P ops unwind read n address ip regs"
  by (induction n arbitrary: address ip regs) (auto split: option.split)

text \<open>The reader of a walk with one explicit window.\<close>

definition bounded_read :: "u64 \<Rightarrow> u64 \<Rightarrow> (u64 \<Rightarrow> u64) \<Rightarrow> read_stack" where
  "bounded_read lo hi mem addr =
     (if lo \<le> addr \<and> saturating_add addr 8 \<le> hi \<and> addr AND 7 = 0 then Some (mem addr) else None)"

lemma bounded_read_windows:
  assumes "lo < hi"
  shows "windows_read (read_windows bounds ctx lo hi 0 0) mem = bounded_read lo hi mem"
proof -
  have "\<not> saturating_add addr 8 \<le> (0 :: u64)" for addr by (simp add: word_le_nat_alt saturating_add_unat)
  with assms show ?thesis by (auto simp: fun_eq_iff windows_read_def bounded_read_def read_windows_def)
qed


definition two_records :: "u64 \<Rightarrow> u64" where
  "two_records a = (if a = 0x20 then 0x40 else if a = 0x28 then 0x100200 else if a = 0x48 then 0x100100 else 0)"



section \<open>Walks over real unwind data\<close>

lemma along_walk_mono:
  "along_walk P ops unwind read n address ip regs \<Longrightarrow> (\<And>address regs. P address regs \<Longrightarrow> Q address regs) \<Longrightarrow>
     along_walk Q ops unwind read n address ip regs"
  by (induction n arbitrary: address ip regs) (auto split: option.splits)


text \<open>A state in which one module with DWARF data is published.\<close>

definition published_elf :: "(UnwindRuleX86_64, UnwindRegsX86_64, ModuleUnwindDataInternal UnwinderInternal) Global" where
  "published_elf =
     snd (with_writer (\<lambda>_. 0) \<lparr>modules = [], modules_generation = 0\<rparr> 2
       (\<lambda>u. ((), u\<lparr>modules := [[elf_module]], modules_generation := 1\<rparr>)) (published (x86_new 0 0 0)))"

lemma published_elf_facts:
  "reachable ops (x86_new 0 0 0) published_elf" "g_current published_elf = Some 2"
  "g_heap published_elf 2 = Some \<lparr>unw = \<lparr>modules = [[elf_module]], modules_generation = 1\<rparr>, max_code_addr = 0\<rparr>"
  "g_slots published_elf = replicate 16 (slot_new (x86_new 0 0 0))"
proof -
  let ?g = "published (x86_new 0 0 0) :: (UnwindRuleX86_64, UnwindRegsX86_64, ModuleUnwindDataInternal UnwinderInternal) Global"
  let ?f = "\<lambda>u :: ModuleUnwindDataInternal UnwinderInternal. ((), u\<lparr>modules := [[elf_module]], modules_generation := 1\<rparr>)"
  have "g_heap ?g 2 = None"
    by (simp add: published_def with_writer_def reclaim_def state_init_def ensure_slots_def global_start_def Let_def)
  then show "reachable ops (x86_new 0 0 0) published_elf"
    by (rule reach_write [OF published_reachable, where f = ?f and max_known = "\<lambda>_. 0" and
          new_unw = "\<lparr>modules = [], modules_generation = 0\<rparr>"])
      (simp add: published_elf_def with_writer_def Let_def)
  show "g_current published_elf = Some 2" by (simp add: published_elf_def with_writer_def reclaim_def Let_def)
  show "g_heap published_elf 2 = Some \<lparr>unw = \<lparr>modules = [[elf_module]], modules_generation = 1\<rparr>, max_code_addr = 0\<rparr>"
    by (simp add: published_elf_def published_def with_writer_def reclaim_def state_init_def ensure_slots_def
        global_start_def Let_def split: option.split)
  show "g_slots published_elf = replicate 16 (slot_new (x86_new 0 0 0))"
    by (simp add: published_elf_def with_writer_def reclaim_def Let_def published_slots)
qed


definition wide_mem :: "u64 \<Rightarrow> u64" where
  "wide_mem a = (if a = 0x210 then 0x402000 else 0)"

lemma elf_module_found:
  "find_module_for_address \<lparr>modules = [[elf_module]], modules_generation = 1\<rparr> 0x11001 = Some (elf_module, 0x1001)"
  "find_module_for_address \<lparr>modules = [[elf_module]], modules_generation = 1\<rparr> 0x401fff = None"
  "find_module_for_address \<lparr>modules = [[elf_module]], modules_generation = 1\<rparr> a = Some (m, rel) \<Longrightarrow> m = elf_module"
  by (auto simp: find_module_for_address_def find_chunked_def candidate_in_chunk_def chunk_index_for_def binary_search_def
      bsearch_loop.simps elf_module_def try_unsigned_def split: if_splits)

lemma elf_module_dwarf: "has_dwarf_data (unwind_data elf_module)"
  by (simp add: elf_module_def)



text \<open>Nothing is lost on aarch64 by treating every frame as one that made a call.\<close>

lemma forget_interruption_a64:
  "forget_interruption (without_cache exec_a64 fallback_rule_a64 u (unwind_frame_impl (a64_ops mui parse gimli))) =
     without_cache exec_a64 fallback_rule_a64 u (unwind_frame_impl (a64_ops mui parse gimli))"
proof (intro ext)
  fix address regs read
  let ?unwind = "without_cache exec_a64 fallback_rule_a64 u (unwind_frame_impl (a64_ops mui parse gimli))"
  obtain r regs' where r: "?unwind address regs read = (r, regs')" by fastforce
  then have "r \<noteq> Inr (Some (a, True))" for a
    using without_cache_a64_not_interrupted [of u mui parse gimli address regs read a] by simp
  with r show "forget_interruption ?unwind address regs read = ?unwind address regs read"
    by (cases r) (auto simp: forget_interruption_def bind_res_def map_option_case split: option.split)
qed


text \<open>
  A signal handler called from the trampoline at \<open>0x7000\<close>: its frame record is at \<open>0x200\<close>, the
  kernel's frame above it, and the interrupted code at \<open>0x900\<close> has the outermost frame.
\<close>

definition signal_mem :: "u64 \<Rightarrow> u64" where
  "signal_mem a =
     (if a = 0x200 then 0x300 else if a = 0x208 then 0x7000 else if a = 0x430 then 0x600
      else if a = 0x438 then 0x700 else if a = 0x440 then 0x580 else if a = 0x448 then 0x900 else 0)"

abbreviation plain_a64 where
  "plain_a64 \<equiv> unwind_frame_impl (a64_ops (one_function popping_function) (\<lambda>_. OpcodeArm64.FrameBased) (\<lambda>_ _ _. one_row_gimli))"


end
